(* ===== verification/Prelude.thy ===== *)
theory Prelude
  imports Main "HOL-Library.Word"
begin

text \<open>
  Shared vocabulary of the development.  It names the integer types of
  \<^verbatim>\<open>include/types.h\<close>, fixes how C characters and string literals are written, and
  holds the generic facts that the component theories use again and again: loops that
  store into an array (modelled as \<^term>\<open>fold\<close> over an index range), unsigned
  arithmetic that does not wrap, rounding to a power of two, little-endian decoding.

  An array or a region of memory is a total function from its index or address to its
  contents, so that a store outside the array changes a cell of the model as well; that
  the code never does so is then a theorem and not a convention.
\<close>

unbundle bit_operations_syntax

type_synonym u8 = "8 word"
type_synonym u16 = "16 word"
type_synonym u32 = "32 word"
type_synonym u64 = "64 word"

named_theorems layout "facts that say which cells of an array a loop writes"

section \<open>C characters\<close>

text \<open>
  A C \<^verbatim>\<open>char\<close> is a byte; on x86-64 it is signed, so widening it sign-extends.
\<close>

definition char_byte :: "char \<Rightarrow> u8" where
  "char_byte c = word_of_nat (of_char c)"

definition byte_char :: "u8 \<Rightarrow> char" where
  "byte_char b = char_of (unat b)"

lemma byte_char_byte [simp]: "byte_char (char_byte c) = c"
  by (simp add: byte_char_def char_byte_def unat_of_nat)

lemma char_byte_char [simp]: "char_byte (byte_char b) = b"
proof -
  have "unat b < 256" using unsigned_less [of b] by simp
  then show ?thesis by (simp add: byte_char_def char_byte_def)
qed

text \<open>The bytes a NUL-terminated string shows to a function that reads up to the NUL.\<close>

definition c_str :: "char list \<Rightarrow> char list" where
  "c_str = takeWhile (\<lambda>c. c \<noteq> CHR 0x00)"

section \<open>Loops that fill an array\<close>

lemma fold_upd_other [layout]:
  "x \<notin> a ` set xs \<Longrightarrow> fold (\<lambda>i h. h(a i := f i)) xs h x = h x"
  by (induction xs arbitrary: h) auto

lemma fold_upd_hit [layout]:
  "i \<in> set xs \<Longrightarrow> inj_on a (set xs) \<Longrightarrow> fold (\<lambda>i h. h(a i := f i)) xs h (a i) = f i"
proof (induction xs arbitrary: h)
  case Nil
  then show ?case by simp
next
  case (Cons x xs)
  show ?case
  proof (cases "i \<in> set xs")
    case True
    with Cons show ?thesis by (simp add: inj_on_def)
  next
    case False
    with Cons.prems have i: "i = x" and "a x \<notin> a ` set xs"
      by (auto simp: inj_on_def)
    then show ?thesis by (simp add: fold_upd_other fun_upd_same del: fun_upd_apply)
  qed
qed

lemma fold_copy:
  assumes "\<And>i. i \<in> set xs \<Longrightarrow> v (b i) = f i"
    and "\<And>i j. i \<in> set xs \<Longrightarrow> j \<in> set xs \<Longrightarrow> a i \<noteq> b j"
  shows "fold (\<lambda>i w. w(a i := w (b i))) xs v = fold (\<lambda>i w. w(a i := f i)) xs v"
  using assms
proof (induction xs arbitrary: v)
  case (Cons x xs)
  have "fold (\<lambda>i w. w(a i := w (b i))) xs (v(a x := f x)) = fold (\<lambda>i w. w(a i := f i)) xs (v(a x := f x))"
  proof (rule Cons.IH)
    fix i assume i: "i \<in> set xs"
    with Cons.prems(2) [of x i] have "b i \<noteq> a x" by auto
    with i Cons.prems(1) show "(v(a x := f x)) (b i) = f i" by simp
  qed (use Cons.prems in auto)
  then show ?case using Cons.prems by (simp del: fun_upd_apply)
qed simp

lemma fold_idle [simp]: "fold (\<lambda>i v. v) xs v = v"
  by (induction xs) simp_all

lemma fold_invariant:
  "P s \<Longrightarrow> (\<And>x t. x \<in> set xs \<Longrightarrow> P t \<Longrightarrow> P (f x t)) \<Longrightarrow> P (fold f xs s)"
  by (induction xs arbitrary: s) auto

lemma fold_same:
  "(\<And>x t. x \<in> set xs \<Longrightarrow> g (f x t) = g t) \<Longrightarrow> g (fold f xs s) = g s"
  by (induction xs arbitrary: s) auto

section \<open>Unsigned arithmetic that does not wrap\<close>

lemma unat_add_small:
  fixes a b :: "'a::len word"
  shows "unat a + unat b < 2 ^ LENGTH('a) \<Longrightarrow> unat (a + b) = unat a + unat b"
  by (simp add: unat_word_ariths)

lemma unat_mult_small:
  fixes a b :: "'a::len word"
  shows "unat a * unat b < 2 ^ LENGTH('a) \<Longrightarrow> unat (a * b) = unat a * unat b"
  by (simp add: unat_word_ariths)

lemma unat_of_nat_small:
  "n < 2 ^ LENGTH('a) \<Longrightarrow> unat (of_nat n :: 'a::len word) = n"
  by (simp add: unat_of_nat)

lemma of_nat_inj_small:
  "m < 2 ^ LENGTH('a) \<Longrightarrow> n < 2 ^ LENGTH('a) \<Longrightarrow> (of_nat m :: 'a::len word) = of_nat n \<longleftrightarrow> m = n"
  by (metis unat_of_nat_small)

lemma inj_on_add_of_nat:
  fixes b :: "'a::len word"
  assumes "n \<le> 2 ^ LENGTH('a)"
  shows "inj_on (\<lambda>i. b + of_nat i) (set [0..<n])"
  using assms by (auto simp: inj_on_def of_nat_inj_small)

lemma word_dec_less:
  fixes a b :: "'a::len word"
  shows "0 < a \<Longrightarrow> a < b \<Longrightarrow> a - 1 < b"
  by (metis less_imp_diff_less unat_minus_one word_less_nat_alt word_gt_0)

lemma word_dec_le:
  fixes a b :: "'a::len word"
  shows "0 < a \<Longrightarrow> a \<le> b \<Longrightarrow> a - 1 \<le> b"
  by (metis diff_le_self order_trans unat_minus_one word_gt_0 word_le_nat_alt)

lemma word_inc_le:
  fixes a b :: "'a::len word"
  shows "a < b \<Longrightarrow> a \<le> a + 1"
  by unat_arith

section \<open>Two-dimensional indices and rings\<close>

lemma row_col_inj:
  fixes r c r' c' n :: nat
  shows "c < n \<Longrightarrow> c' < n \<Longrightarrow> r * n + c = r' * n + c' \<longleftrightarrow> r = r' \<and> c = c'"
  by (metis div_mult_self3 div_less mod_mult_self3 mod_less add.right_neutral not_less0 add_left_imp_eq)

lemma ring_slot_ne:
  fixes b i j :: nat
  shows "i < j \<Longrightarrow> j < i + n \<Longrightarrow> (b + i) mod n \<noteq> (b + j) mod n"
  by (metis add.commute add_diff_cancel_left diff_less_mono2 less_diff_conv2 less_imp_le_nat mod_eq_dvd_iff_nat nat_dvd_not_less zero_less_diff add_le_cancel_right)

section \<open>Signed readings\<close>

lemma sint_of_int_small:
  "- (2 ^ (LENGTH('a) - 1)) \<le> k \<Longrightarrow> k < 2 ^ (LENGTH('a) - 1) \<Longrightarrow> sint (word_of_int k :: 'a::len word) = k"
  by (simp add: signed_of_int signed_take_bit_int_eq_self_iff)

lemma sint_u32_small: "unat (w :: u32) < 2 ^ 31 \<Longrightarrow> sint w = int (unat w)"
proof -
  assume "unat w < 2 ^ 31"
  then have "sint (word_of_int (int (unat w)) :: u32) = int (unat w)"
    by (intro sint_of_int_small) (simp_all del: of_nat_unat)
  then show ?thesis by simp
qed

section \<open>Rounding to a power of two\<close>

lemma and_not_mask: "x AND NOT (mask n) = x - take_bit n (x :: 'a::len word)"
proof -
  have "x AND NOT (mask n) = push_bit n (drop_bit n x)"
    by (rule bit_word_eqI) (auto simp: bit_simps)
  also have "\<dots> = x - take_bit n x"
    using bits_ident [of n x] by (simp add: algebra_simps)
  finally show ?thesis .
qed

lemma unat_take_bit_mod: "unat (take_bit n (x :: 'a::len word)) = unat x mod 2 ^ n"
  by (simp only: unsigned_take_bit_eq) (simp add: take_bit_eq_mod)

lemma unat_and_not_mask: "unat (x AND NOT (mask n)) = unat x div 2 ^ n * 2 ^ n"
  for x :: "'a::len word"
proof -
  have "take_bit n x \<le> x" by (simp add: word_le_nat_alt unat_take_bit_mod)
  then show ?thesis by (simp add: and_not_mask unat_sub unat_take_bit_mod minus_mod_eq_div_mult)
qed
lemma mask_4: "(15 :: 'a::len word) = mask 4" by (simp add: mask_eq_exp_minus_1)
lemma mask_12: "(0xFFF :: 'a::len word) = mask 12" by (simp add: mask_eq_exp_minus_1)

lemma unat_mask: "n < LENGTH('a) \<Longrightarrow> unat (mask n :: 'a::len word) = 2 ^ n - 1"
proof -
  assume n: "n < LENGTH('a)"
  have "int (unat (mask n :: 'a word)) = uint (mask n :: 'a word)" by simp
  also have "\<dots> = mask n" using n uint_mask_eq [where 'a='a, of n] by (simp add: min_def)
  also have "\<dots> = int (2 ^ n - 1)" by (simp add: mask_eq_exp_minus_1)
  finally show ?thesis using of_nat_eq_iff by blast
qed

lemma unat_align_up:
  fixes x :: "'a::len word"
  assumes "unat x + 2 ^ n \<le> 2 ^ LENGTH('a)" "n < LENGTH('a)"
  shows "unat ((x + mask n) AND NOT (mask n)) = (unat x + (2 ^ n - 1)) div 2 ^ n * 2 ^ n"
proof -
  have "unat (mask n :: 'a word) = 2 ^ n - 1" using assms(2) by (rule unat_mask)
  moreover have "(1::nat) \<le> 2 ^ n" by simp
  ultimately have "unat (x + mask n) = unat x + (2 ^ n - 1)"
    using assms(1) by (subst unat_add_small) linarith+
  then show ?thesis by (simp add: unat_and_not_mask)
qed

lemma align_up_ge: "(0::nat) < m \<Longrightarrow> x \<le> (x + (m - 1)) div m * m"
  using div_mult_mod_eq [of "x + (m - 1)" m] mod_less_divisor [of m "x + (m - 1)"] by linarith

lemma align_up_less: "(0::nat) < m \<Longrightarrow> (x + (m - 1)) div m * m < x + m"
  using div_times_less_eq_dividend [of "x + (m - 1)" m] by linarith

section \<open>Lists\<close>

lemma rest_shorter: "xs \<noteq> [] \<Longrightarrow> length (tl (dropWhile P xs)) < length xs"
  using length_dropWhile_le [of P xs] by (cases xs) (auto simp: less_Suc_eq_le)

lemma set_tl_subset: "set (tl xs) \<subseteq> set xs"
  by (cases xs) auto

section \<open>Components and their runs\<close>

text \<open>
  The contract every stateful component of the kernel is held to: its operations keep its
  invariant.  A framed component moreover never changes a part of the state that its
  \<open>view\<close> shows.  Both are then true of every sequence of calls.
\<close>

locale component =
  fixes ok :: "'s \<Rightarrow> bool"
    and step :: "'c \<Rightarrow> 's \<Rightarrow> 's"
  assumes step_ok: "ok s \<Longrightarrow> ok (step c s)"
begin

lemma run_ok: "ok s \<Longrightarrow> ok (fold step cs s)"
  by (induction cs arbitrary: s) (simp_all add: step_ok)

end

locale framed_component = component +
  fixes view :: "'s \<Rightarrow> 'v"
  assumes step_view: "ok s \<Longrightarrow> view (step c s) = view s"
begin

lemma run_view: "ok s \<Longrightarrow> view (fold step cs s) = view s"
  by (induction cs arbitrary: s) (simp_all add: step_ok step_view)

end

end
