(* ===== verification/Machine.thy ===== *)
theory Machine
  imports Prelude
begin

text \<open>
  The processor as the C code drives it: \<^verbatim>\<open>include/io.h\<close> and the inline assembly of the
  kernel.  Every privileged or I/O instruction the kernel executes is appended to a trace.
  The devices behind the ports are not part of the repository: they are the parameter
  \<open>dev\<close> of the machine, which answers a read of a port from the trace of everything that
  happened before.
\<close>

datatype cpu_event =
    OutB u16 u8
  | InB u16 u8
  | OutW u16 u16
  | InW u16 u16
  | Invlpg u64
  | Lidt u16 u64
  | Ltr u16
  | WrMsr u32 u64
  | MovCr3 u64
  | Cli
  | Sti
  | Popf bool
  | Hlt

text \<open>The trace keeps the most recent event first; \<open>iflag\<close> is the interrupt flag.\<close>

record machine =
  trace :: "cpu_event list"
  dev :: "cpu_event list \<Rightarrow> u16 \<Rightarrow> u16"
  iflag :: bool

definition emit :: "cpu_event \<Rightarrow> 'a machine_scheme \<Rightarrow> 'a machine_scheme" where
  "emit e s = s\<lparr>trace := e # trace s\<rparr>"

definition outb :: "u16 \<Rightarrow> u8 \<Rightarrow> 'a machine_scheme \<Rightarrow> 'a machine_scheme" where
  "outb port v s = emit (OutB port v) s"

definition outw :: "u16 \<Rightarrow> u16 \<Rightarrow> 'a machine_scheme \<Rightarrow> 'a machine_scheme" where
  "outw port v s = emit (OutW port v) s"

definition inb :: "u16 \<Rightarrow> 'a machine_scheme \<Rightarrow> u8 \<times> 'a machine_scheme" where
  "inb port s = (let v = ucast (dev s (trace s) port) in (v, emit (InB port v) s))"

definition inw :: "u16 \<Rightarrow> 'a machine_scheme \<Rightarrow> u16 \<times> 'a machine_scheme" where
  "inw port s = (let v = dev s (trace s) port in (v, emit (InW port v) s))"

definition cli :: "'a machine_scheme \<Rightarrow> 'a machine_scheme" where
  "cli s = emit Cli (s\<lparr>iflag := False\<rparr>)"

definition sti :: "'a machine_scheme \<Rightarrow> 'a machine_scheme" where
  "sti s = emit Sti (s\<lparr>iflag := True\<rparr>)"

text \<open>\<^verbatim>\<open>pushfq; pop; cli\<close> and \<^verbatim>\<open>push; popfq\<close>, of which only the interrupt flag matters here.\<close>

definition save_flags_cli :: "'a machine_scheme \<Rightarrow> bool \<times> 'a machine_scheme" where
  "save_flags_cli s = (iflag s, cli s)"

definition restore_flags :: "bool \<Rightarrow> 'a machine_scheme \<Rightarrow> 'a machine_scheme" where
  "restore_flags flags s = emit (Popf flags) (s\<lparr>iflag := flags\<rparr>)"

section \<open>What an instruction leaves alone\<close>

lemmas instruction_defs = emit_def outb_def outw_def inb_def inw_def cli_def sti_def save_flags_cli_def
  restore_flags_def Let_def

lemma machine_more [simp]:
  "machine.more (emit e s) = machine.more s"
  "machine.more (outb p v s) = machine.more s"
  "machine.more (outw p w s) = machine.more s"
  "machine.more (snd (inb p s)) = machine.more s"
  "machine.more (snd (inw p s)) = machine.more s"
  "machine.more (cli s) = machine.more s"
  "machine.more (sti s) = machine.more s"
  "machine.more (snd (save_flags_cli s)) = machine.more s"
  "machine.more (restore_flags f s) = machine.more s"
  by (simp_all add: instruction_defs)

lemma dev_emit [simp]:
  "dev (emit e s) = dev s" "dev (outb p v s) = dev s" "dev (outw p w s) = dev s"
  "dev (snd (inb p s)) = dev s" "dev (snd (inw p s)) = dev s" "dev (cli s) = dev s" "dev (sti s) = dev s"
  "dev (snd (save_flags_cli s)) = dev s" "dev (restore_flags f s) = dev s"
  by (simp_all add: instruction_defs)

lemma iflag_emit [simp]:
  "iflag (emit e s) = iflag s" "iflag (outb p v s) = iflag s" "iflag (outw p w s) = iflag s"
  "iflag (snd (inb p s)) = iflag s" "iflag (snd (inw p s)) = iflag s"
  "\<not> iflag (cli s)" "iflag (sti s)" "iflag (restore_flags f s) = f" "fst (save_flags_cli s) = iflag s"
  "\<not> iflag (snd (save_flags_cli s))"
  by (simp_all add: instruction_defs)

lemma trace_emit [simp]:
  "trace (emit e s) = e # trace s" "trace (outb p v s) = OutB p v # trace s"
  "trace (outw p w s) = OutW p w # trace s"
  by (simp_all add: instruction_defs)

end
