(* ===== verification/Console.thy ===== *)
theory Console
  imports Machine
begin

text \<open>
  The text console, \<^verbatim>\<open>drivers/console.c\<close>: the VGA text buffer, the cursor, the ring of
  scrolled-off lines, and the number printers every other component reports with.
\<close>

record console = machine +
  vga_buffer :: "u32 \<Rightarrow> u16"
  cursor_row :: u32
  cursor_col :: u32
  scroll_offset :: u32
  current_color :: u8
  screen_history :: "u32 \<Rightarrow> u16"
  history_start :: u32
  history_count :: u32

abbreviation "VGA_WIDTH \<equiv> (80 :: u32)"
abbreviation "VGA_HEIGHT \<equiv> (25 :: u32)"
abbreviation "CONSOLE_HISTORY_LINES \<equiv> (100 :: u32)"

datatype vga_color_t =
    VGA_BLACK | VGA_BLUE | VGA_GREEN | VGA_CYAN | VGA_RED | VGA_MAGENTA | VGA_BROWN
  | VGA_LIGHT_GREY | VGA_DARK_GREY | VGA_LIGHT_BLUE | VGA_LIGHT_GREEN | VGA_LIGHT_CYAN
  | VGA_LIGHT_RED | VGA_LIGHT_MAGENTA | VGA_YELLOW | VGA_WHITE

primrec vga_code :: "vga_color_t \<Rightarrow> u8" where
  "vga_code VGA_BLACK = 0"
| "vga_code VGA_BLUE = 1"
| "vga_code VGA_GREEN = 2"
| "vga_code VGA_CYAN = 3"
| "vga_code VGA_RED = 4"
| "vga_code VGA_MAGENTA = 5"
| "vga_code VGA_BROWN = 6"
| "vga_code VGA_LIGHT_GREY = 7"
| "vga_code VGA_DARK_GREY = 8"
| "vga_code VGA_LIGHT_BLUE = 9"
| "vga_code VGA_LIGHT_GREEN = 10"
| "vga_code VGA_LIGHT_CYAN = 11"
| "vga_code VGA_LIGHT_RED = 12"
| "vga_code VGA_LIGHT_MAGENTA = 13"
| "vga_code VGA_YELLOW = 14"
| "vga_code VGA_WHITE = 15"

definition vga_entry :: "char \<Rightarrow> u8 \<Rightarrow> u16" where
  "vga_entry c color = scast (char_byte c) OR push_bit 8 (ucast color)"

definition vga_offset :: "u32 \<Rightarrow> u32 \<Rightarrow> u32" where
  "vga_offset row col = row * VGA_WIDTH + col"

definition update_cursor :: "'a console_scheme \<Rightarrow> 'a console_scheme" where
  "update_cursor s =
     (let pos = (ucast (cursor_row s * VGA_WIDTH + cursor_col s) :: u16)
      in outb 0x3D5 (ucast ((drop_bit 8 pos) AND 0xFF))
           (outb 0x3D4 0x0E
             (outb 0x3D5 (ucast (pos AND 0xFF))
               (outb 0x3D4 0x0F s))))"

text \<open>
  The two array loops of \<^verbatim>\<open>console_scroll\<close>: copying one line of the screen into the
  history ring, and moving every screen line up by one, in place and in the source's order.
\<close>

definition save_line :: "u32 \<Rightarrow> (u32 \<Rightarrow> u16) \<Rightarrow> (u32 \<Rightarrow> u16) \<Rightarrow> (u32 \<Rightarrow> u16)" where
  "save_line hist_idx vga hist =
     fold (\<lambda>col h. h(hist_idx * VGA_WIDTH + of_nat col := vga (vga_offset 0 (of_nat col)))) [0..<80] hist"

definition copy_row :: "u32 \<Rightarrow> (u32 \<Rightarrow> u16) \<Rightarrow> (u32 \<Rightarrow> u16) \<Rightarrow> (u32 \<Rightarrow> u16)" where
  "copy_row row src vga =
     fold (\<lambda>col v. v(vga_offset row (of_nat col) := src (of_nat col))) [0..<80] vga"

definition move_row :: "u32 \<Rightarrow> (u32 \<Rightarrow> u16) \<Rightarrow> (u32 \<Rightarrow> u16)" where
  "move_row row vga =
     fold (\<lambda>col w. w(vga_offset row (of_nat col) := w (vga_offset (row + 1) (of_nat col)))) [0..<80] vga"

definition scroll_rows :: "(u32 \<Rightarrow> u16) \<Rightarrow> (u32 \<Rightarrow> u16)" where
  "scroll_rows vga = fold (\<lambda>row. move_row (of_nat row)) [0..<24] vga"

definition console_scroll :: "'a console_scheme \<Rightarrow> 'a console_scheme" where
  "console_scroll s =
     (let s1 = (if history_count s < CONSOLE_HISTORY_LINES
                then s\<lparr>screen_history :=
                         save_line ((history_start s + history_count s) mod CONSOLE_HISTORY_LINES)
                           (vga_buffer s) (screen_history s),
                       history_count := history_count s + 1\<rparr>
                else s\<lparr>screen_history := save_line (history_start s) (vga_buffer s) (screen_history s),
                       history_start := (history_start s + 1) mod CONSOLE_HISTORY_LINES\<rparr>)
      in s1\<lparr>vga_buffer := copy_row (VGA_HEIGHT - 1) (\<lambda>_. vga_entry CHR '' '' (current_color s1))
                            (scroll_rows (vga_buffer s1))\<rparr>)"

text \<open>
  \<^verbatim>\<open>console_redraw_from_history\<close>, one screen row at a time.  The line number is computed in
  32-bit unsigned arithmetic and then read as a signed val, as the C expression is.
\<close>

definition redraw_row :: "u32 \<Rightarrow> 'a console_scheme \<Rightarrow> 'a console_scheme" where
  "redraw_row row s =
     (let hist_line_idx = history_count s - scroll_offset s - (VGA_HEIGHT - 1 - row);
          blank = (\<lambda>_. vga_entry CHR '' '' (current_color s))
      in if 0 \<le> sint hist_line_idx \<and> sint hist_line_idx < sint (history_count s)
         then (let hist_idx = (history_start s + hist_line_idx) mod CONSOLE_HISTORY_LINES
               in s\<lparr>vga_buffer := copy_row row (\<lambda>col. screen_history s (hist_idx * VGA_WIDTH + col)) (vga_buffer s)\<rparr>)
         else if sint hist_line_idx < 0
         then s\<lparr>vga_buffer := copy_row row blank (vga_buffer s)\<rparr>
         else (let vga_src_row = row + (hist_line_idx - history_count s)
               in if 0 \<le> sint vga_src_row \<and> sint vga_src_row < 25
                  then s\<lparr>vga_buffer :=
                          fold (\<lambda>col v. v(vga_offset row (of_nat col) := v (vga_offset vga_src_row (of_nat col))))
                            [0..<80] (vga_buffer s)\<rparr>
                  else s\<lparr>vga_buffer := copy_row row blank (vga_buffer s)\<rparr>))"

definition console_redraw_from_history :: "'a console_scheme \<Rightarrow> 'a console_scheme" where
  "console_redraw_from_history s = fold (\<lambda>row. redraw_row (of_nat row)) [0..<25] s"

definition console_clear :: "'a console_scheme \<Rightarrow> 'a console_scheme" where
  "console_clear s =
     update_cursor
       (s\<lparr>vga_buffer := fold (\<lambda>i v. v(of_nat i := vga_entry CHR '' '' (current_color s))) [0..<2000] (vga_buffer s),
         cursor_row := 0, cursor_col := 0\<rparr>)"

definition console_init :: "'a console_scheme \<Rightarrow> 'a console_scheme" where
  "console_init s =
     update_cursor (console_clear
       (s\<lparr>current_color := vga_code VGA_WHITE OR push_bit 4 (vga_code VGA_BLACK),
         scroll_offset := 0, history_start := 0, history_count := 0\<rparr>))"

text \<open>The \<^verbatim>\<open>switch\<close> of \<^verbatim>\<open>console_putchar\<close>, then the line wrap and the scroll loop.\<close>

definition putchar_switch :: "char \<Rightarrow> 'a console_scheme \<Rightarrow> 'a console_scheme" where
  "putchar_switch c s =
     (if c = CHR 0x0A then s\<lparr>cursor_col := 0, cursor_row := cursor_row s + 1\<rparr>
      else if c = CHR 0x0D then s\<lparr>cursor_col := 0\<rparr>
      else if c = CHR 0x09
      then (let col = (cursor_col s + 8) AND NOT 7
            in if VGA_WIDTH \<le> col then s\<lparr>cursor_col := 0, cursor_row := cursor_row s + 1\<rparr>
               else s\<lparr>cursor_col := col\<rparr>)
      else if c = CHR 0x08
      then (if 0 < cursor_col s then s\<lparr>cursor_col := cursor_col s - 1\<rparr>
            else if 0 < cursor_row s
            then s\<lparr>cursor_row := cursor_row s - 1, cursor_col := VGA_WIDTH - 1\<rparr>
            else s)
      else if 32 \<le> sint (char_byte c) \<or> 0x80 \<le> char_byte c
      then s\<lparr>vga_buffer := (vga_buffer s)(vga_offset (cursor_row s) (cursor_col s) := vga_entry c (current_color s)),
             cursor_col := cursor_col s + 1\<rparr>
      else s)"

text \<open>
  The loop \<^verbatim>\<open>while (cursor_row >= VGA_HEIGHT)\<close>: its body puts the cursor on the last line,
  so it runs at most once.
\<close>

function scroll_loop :: "'a console_scheme \<Rightarrow> 'a console_scheme" where
  "scroll_loop s =
     (if VGA_HEIGHT \<le> cursor_row s then scroll_loop ((console_scroll s)\<lparr>cursor_row := VGA_HEIGHT - 1\<rparr>) else s)"
  by pat_completeness auto
termination
  by (relation "measure (\<lambda>s. if VGA_HEIGHT \<le> cursor_row s then 1 else 0)") auto

declare scroll_loop.simps [simp del]

definition console_putchar :: "char \<Rightarrow> 'a console_scheme \<Rightarrow> 'a console_scheme" where
  "console_putchar c s =
     (let s1 = putchar_switch c s;
          s2 = (if VGA_WIDTH \<le> cursor_col s1 then s1\<lparr>cursor_col := 0, cursor_row := cursor_row s1 + 1\<rparr> else s1)
      in update_cursor (scroll_loop s2))"

fun console_puts :: "string \<Rightarrow> 'a console_scheme \<Rightarrow> 'a console_scheme" where
  "console_puts [] s = s"
| "console_puts (c # cs) s = (if c = CHR 0x00 then s else console_puts cs (console_putchar c s))"

text \<open>
  \<^verbatim>\<open>console_put_hex\<close>: the loop variable counts down from 60 in steps of 4, so the digits are
  those of positions 15, \<dots>, 0; leading zeros are skipped by the flag \<^verbatim>\<open>started\<close>.
\<close>

definition hex_digits :: string where
  "hex_digits = ''0123456789ABCDEF''"

fun put_hex_loop :: "u64 \<Rightarrow> bool \<Rightarrow> nat list \<Rightarrow> 'a console_scheme \<Rightarrow> 'a console_scheme" where
  "put_hex_loop val started [] s = s"
| "put_hex_loop val started (i # is) s =
     (let d = (ucast (drop_bit i val AND 0xF) :: u8)
      in if d \<noteq> 0 \<or> started \<or> i = 0
         then put_hex_loop val True is (console_putchar (hex_digits ! unat d) s)
         else put_hex_loop val started is s)"

definition console_put_hex :: "u64 \<Rightarrow> 'a console_scheme \<Rightarrow> 'a console_scheme" where
  "console_put_hex val s =
     put_hex_loop val False (map (\<lambda>k. 4 * k) (rev [0..<16])) (console_puts ''0x'' s)"

text \<open>
  \<^verbatim>\<open>console_put_dec\<close> fills a 21-byte buffer from its end; the argument \<open>buf\<close> is the part
  already written, so the buffer starts at index \<open>20 - length buf\<close>.
\<close>

function put_dec_loop :: "u64 \<Rightarrow> string \<Rightarrow> string" where
  "put_dec_loop val buf =
     (if 0 < val then put_dec_loop (val div 10) (byte_char (48 + ucast (val mod 10)) # buf) else buf)"
  by pat_completeness auto
termination
proof (relation "measure (\<lambda>(val, buf). unat val)")
  fix val :: u64 and buf :: string
  assume "0 < val"
  then have "0 < unat val" by (simp add: word_less_nat_alt)
  then have "unat val div 10 < unat val" by simp
  then show "((val div 10, byte_char (48 + ucast (val mod 10)) # buf), val, buf)
      \<in> measure (\<lambda>(val, buf). unat val)"
    by (simp add: unat_div)
qed simp

declare put_dec_loop.simps [simp del]

definition console_put_dec :: "u64 \<Rightarrow> 'a console_scheme \<Rightarrow> 'a console_scheme" where
  "console_put_dec val s =
     (if val = 0 then console_putchar CHR ''0'' s else console_puts (put_dec_loop val []) s)"

definition console_set_color :: "vga_color_t \<Rightarrow> vga_color_t \<Rightarrow> 'a console_scheme \<Rightarrow> 'a console_scheme" where
  "console_set_color fg bg s =
     s\<lparr>current_color := (vga_code fg AND 0x0F) OR push_bit 4 (vga_code bg AND 0x0F)\<rparr>"

definition console_get_cursor :: "'a console_scheme \<Rightarrow> u32 \<times> u32" where
  "console_get_cursor s = (cursor_row s, cursor_col s)"

definition console_set_cursor :: "u32 \<Rightarrow> u32 \<Rightarrow> 'a console_scheme \<Rightarrow> 'a console_scheme" where
  "console_set_cursor row col s =
     (let s1 = (if row < VGA_HEIGHT then s\<lparr>cursor_row := row\<rparr> else s);
          s2 = (if col < VGA_WIDTH then s1\<lparr>cursor_col := col\<rparr> else s1)
      in update_cursor s2)"

definition console_putchar_at :: "char \<Rightarrow> u32 \<Rightarrow> u32 \<Rightarrow> u8 \<Rightarrow> 'a console_scheme \<Rightarrow> 'a console_scheme" where
  "console_putchar_at c row col color s =
     (if row < VGA_HEIGHT \<and> col < VGA_WIDTH
      then s\<lparr>vga_buffer := (vga_buffer s)(vga_offset row col := vga_entry c color)\<rparr> else s)"

definition console_scroll_up :: "'a console_scheme \<Rightarrow> 'a console_scheme" where
  "console_scroll_up s =
     (if scroll_offset s < history_count s
      then update_cursor (console_redraw_from_history (s\<lparr>scroll_offset := scroll_offset s + 1\<rparr>)) else s)"

definition console_scroll_down :: "'a console_scheme \<Rightarrow> 'a console_scheme" where
  "console_scroll_down s =
     (if 0 < scroll_offset s
      then update_cursor (console_redraw_from_history (s\<lparr>scroll_offset := scroll_offset s - 1\<rparr>)) else s)"

definition console_get_scroll_offset :: "'a console_scheme \<Rightarrow> u32" where
  "console_get_scroll_offset s = scroll_offset s"

definition console_set_scroll_offset :: "u32 \<Rightarrow> 'a console_scheme \<Rightarrow> 'a console_scheme" where
  "console_set_scroll_offset off s =
     (if off \<le> history_count s
      then update_cursor (console_redraw_from_history (s\<lparr>scroll_offset := off\<rparr>)) else s)"


declare console_puts.simps [simp del]

section \<open>Frames\<close>

text \<open>
  An instruction of the machine leaves every console field alone; a console operation leaves
  alone whatever a later component keeps.  The second kind of fact is stated on the record's
  \<open>more\<close> part, so that it holds in every extension of the record.
\<close>

lemma console_field_cong:
  fixes s t :: "'a console_scheme"
  assumes "machine.more t = machine.more s"
  shows "vga_buffer t = vga_buffer s" "cursor_row t = cursor_row s" "cursor_col t = cursor_col s"
    "scroll_offset t = scroll_offset s" "current_color t = current_color s"
    "screen_history t = screen_history s" "history_start t = history_start s"
    "history_count t = history_count s" "console.more t = console.more s"
  using assms by (cases s; cases t; simp)+

lemmas console_machine_frames [simp] =
  machine_more [THEN console_field_cong(1)] machine_more [THEN console_field_cong(2)]
  machine_more [THEN console_field_cong(3)] machine_more [THEN console_field_cong(4)]
  machine_more [THEN console_field_cong(5)] machine_more [THEN console_field_cong(6)]
  machine_more [THEN console_field_cong(7)] machine_more [THEN console_field_cong(8)]
  machine_more [THEN console_field_cong(9)]

lemma update_cursor_fields [simp]:
  "vga_buffer (update_cursor s) = vga_buffer s" "cursor_row (update_cursor s) = cursor_row s"
  "cursor_col (update_cursor s) = cursor_col s" "scroll_offset (update_cursor s) = scroll_offset s"
  "current_color (update_cursor s) = current_color s"
  "screen_history (update_cursor s) = screen_history s"
  "history_start (update_cursor s) = history_start s"
  "history_count (update_cursor s) = history_count s" "dev (update_cursor s) = dev s" "iflag (update_cursor s) = iflag s"
  "console.more (update_cursor s) = console.more s"
  by (simp_all add: update_cursor_def Let_def)

lemma scroll_loop_step:
  "scroll_loop s =
     (if VGA_HEIGHT \<le> cursor_row s then (console_scroll s)\<lparr>cursor_row := VGA_HEIGHT - 1\<rparr> else s)"
  by (simp add: scroll_loop.simps [of s] scroll_loop.simps [of "_\<lparr>cursor_row := _\<rparr>"])

lemma redraw_row_fields [simp]:
  "cursor_row (redraw_row r s) = cursor_row s" "cursor_col (redraw_row r s) = cursor_col s"
  "scroll_offset (redraw_row r s) = scroll_offset s" "current_color (redraw_row r s) = current_color s"
  "screen_history (redraw_row r s) = screen_history s" "history_start (redraw_row r s) = history_start s"
  "history_count (redraw_row r s) = history_count s" "dev (redraw_row r s) = dev s" "iflag (redraw_row r s) = iflag s"
  "console.more (redraw_row r s) = console.more s"
  by (simp_all add: redraw_row_def Let_def)

lemma redraw_fields [simp]:
  "cursor_row (console_redraw_from_history s) = cursor_row s"
  "cursor_col (console_redraw_from_history s) = cursor_col s"
  "scroll_offset (console_redraw_from_history s) = scroll_offset s"
  "current_color (console_redraw_from_history s) = current_color s"
  "screen_history (console_redraw_from_history s) = screen_history s"
  "history_start (console_redraw_from_history s) = history_start s"
  "history_count (console_redraw_from_history s) = history_count s"
  "dev (console_redraw_from_history s) = dev s" "iflag (console_redraw_from_history s) = iflag s"
  "console.more (console_redraw_from_history s) = console.more s"
  by (simp_all add: console_redraw_from_history_def fold_same)

lemma putchar_switch_fields [simp]:
  "scroll_offset (putchar_switch c s) = scroll_offset s"
  "current_color (putchar_switch c s) = current_color s"
  "screen_history (putchar_switch c s) = screen_history s"
  "history_start (putchar_switch c s) = history_start s"
  "history_count (putchar_switch c s) = history_count s"
  "dev (putchar_switch c s) = dev s" "iflag (putchar_switch c s) = iflag s"
  "console.more (putchar_switch c s) = console.more s"
  by (simp_all add: putchar_switch_def Let_def)

lemma console_scroll_fields [simp]:
  "cursor_row (console_scroll s) = cursor_row s" "cursor_col (console_scroll s) = cursor_col s"
  "scroll_offset (console_scroll s) = scroll_offset s" "dev (console_scroll s) = dev s" "iflag (console_scroll s) = iflag s"
  "current_color (console_scroll s) = current_color s"
  "console.more (console_scroll s) = console.more s"
  by (simp_all add: console_scroll_def Let_def)

lemma console_putchar_frame [simp]:
  "dev (console_putchar c s) = dev s" "iflag (console_putchar c s) = iflag s" "current_color (console_putchar c s) = current_color s"
  "console.more (console_putchar c s) = console.more s"
  by (simp_all add: console_putchar_def Let_def scroll_loop_step)

lemma console_puts_frame [simp]:
  "dev (console_puts cs s) = dev s" "iflag (console_puts cs s) = iflag s" "current_color (console_puts cs s) = current_color s"
  "console.more (console_puts cs s) = console.more s"
  by (induction cs s rule: console_puts.induct) (simp_all add: console_puts.simps)

lemma put_hex_loop_frame [simp]:
  "dev (put_hex_loop v b is s) = dev s" "iflag (put_hex_loop v b is s) = iflag s" "current_color (put_hex_loop v b is s) = current_color s"
  "console.more (put_hex_loop v b is s) = console.more s"
  by (induction v b "is" s rule: put_hex_loop.induct) (simp_all add: Let_def)

lemma console_more [simp]:
  "console.more (console_put_hex v s) = console.more s"
  "console.more (console_put_dec v s) = console.more s"
  "console.more (console_set_color fg bg s) = console.more s"
  "console.more (console_clear s) = console.more s"
  "console.more (console_init s) = console.more s"
  "console.more (console_set_cursor r k s) = console.more s"
  "console.more (console_putchar_at c r k color s) = console.more s"
  "console.more (console_scroll_up s) = console.more s"
  "console.more (console_scroll_down s) = console.more s"
  "console.more (console_set_scroll_offset off s) = console.more s"
  by (simp_all add: console_put_hex_def console_put_dec_def console_set_color_def console_clear_def
      console_init_def console_set_cursor_def console_putchar_at_def console_scroll_up_def
      console_scroll_down_def console_set_scroll_offset_def Let_def)

lemma console_machine [simp]:
  "dev (console_put_hex v s) = dev s" "iflag (console_put_hex v s) = iflag s"
  "dev (console_put_dec v s) = dev s" "iflag (console_put_dec v s) = iflag s"
  "dev (console_set_color fg bg s) = dev s" "iflag (console_set_color fg bg s) = iflag s"
  "dev (console_clear s) = dev s" "iflag (console_clear s) = iflag s"
  by (simp_all add: console_put_hex_def console_put_dec_def console_set_color_def console_clear_def)

text \<open>The collection a later component instantiates for each of its own fields.\<close>

lemmas console_frames =
  console_machine_frames(73-81) console_putchar_frame(4) console_puts_frame(4) console_more

end
