(* ===== verification/Console_Props.thy ===== *)
theory Console_Props
  imports Console
begin

text \<open>
  What the console promises: its arrays are never overrun and its cursor stays on the
  screen, whatever is printed; scrolling moves lines from the screen into a bounded history
  in order; the scrolled-back view shows exactly those lines; the number printers print the
  positional numeral of their argument.
\<close>

section \<open>Specification\<close>

definition console_ok :: "'a console_scheme \<Rightarrow> bool" where
  "console_ok s \<longleftrightarrow>
     cursor_row s < VGA_HEIGHT \<and> cursor_col s < VGA_WIDTH \<and>
     history_start s < CONSOLE_HISTORY_LINES \<and> history_count s \<le> CONSOLE_HISTORY_LINES \<and>
     scroll_offset s \<le> history_count s"

definition screen_line :: "'a console_scheme \<Rightarrow> nat \<Rightarrow> u16 list" where
  "screen_line s r = map (\<lambda>c. vga_buffer s (vga_offset (of_nat r) (of_nat c))) [0..<80]"

definition screen :: "'a console_scheme \<Rightarrow> u16 list list" where
  "screen s = map (screen_line s) [0..<25]"

definition blank_line :: "u8 \<Rightarrow> u16 list" where
  "blank_line color = replicate 80 (vga_entry CHR '' '' color)"

definition history_line :: "'a console_scheme \<Rightarrow> nat \<Rightarrow> u16 list" where
  "history_line s k =
     map (\<lambda>c. screen_history s (((history_start s + of_nat k) mod CONSOLE_HISTORY_LINES) * VGA_WIDTH + of_nat c)) [0..<80]"

definition history :: "'a console_scheme \<Rightarrow> u16 list list" where
  "history s = map (history_line s) [0..<unat (history_count s)]"

text \<open>The line a row of the screen shows when the user has scrolled \<open>off\<close> lines back.\<close>

definition shown_line :: "'a console_scheme \<Rightarrow> nat \<Rightarrow> u16 list" where
  "shown_line s r =
     (let back = unat (scroll_offset s) + (24 - r); n = unat (history_count s)
      in if back = 0 then screen_line s r
         else if back \<le> n then history_line s (n - back) else blank_line (current_color s))"

function positional :: "nat \<Rightarrow> nat \<Rightarrow> string" where
  "positional b n = (if n < b \<or> b < 2 then [hex_digits ! n] else positional b (n div b) @ [hex_digits ! (n mod b)])"
  by pat_completeness auto
termination
  by (relation "measure (\<lambda>(b, n). n)") auto

declare positional.simps [simp del]

definition digit_value :: "char \<Rightarrow> nat" where
  "digit_value c = (if 65 \<le> (of_char c :: nat) then of_char c - 55 else of_char c - 48)"

definition number_value :: "nat \<Rightarrow> string \<Rightarrow> nat" where
  "number_value b cs = foldl (\<lambda>n c. n * b + digit_value c) 0 cs"

text \<open>The digits of \<open>n\<close> at positions \<open>k - 1, \<dots>, 0\<close>, leading zeros included.\<close>

fun padded :: "nat \<Rightarrow> nat \<Rightarrow> string" where
  "padded 0 n = []"
| "padded (Suc k) n = hex_digits ! (n div 16 ^ k mod 16) # padded k n"

text \<open>The two regions of memory outside the console's own arrays.\<close>

definition outside :: "u32 \<Rightarrow> (u32 \<Rightarrow> u16) \<Rightarrow> (u32 \<Rightarrow> u16)" where
  "outside n f = (\<lambda>x. if x < n then 0 else f x)"

definition beyond :: "'a console_scheme \<Rightarrow> (u32 \<Rightarrow> u16) \<times> (u32 \<Rightarrow> u16)" where
  "beyond s = (outside 2000 (vga_buffer s), outside 8000 (screen_history s))"

text \<open>The calls another component can make on the console.\<close>

datatype console_call =
    Putchar char | Puts string | PutHex u64 | PutDec u64 | SetColor vga_color_t vga_color_t
  | SetCursor u32 u32 | PutcharAt char u32 u32 u8 | ScrollUp | ScrollDown | SetScrollOffset u32 | Clear

primrec console_exec :: "console_call \<Rightarrow> 'a console_scheme \<Rightarrow> 'a console_scheme" where
  "console_exec (Putchar c) s = console_putchar c s"
| "console_exec (Puts cs) s = console_puts cs s"
| "console_exec (PutHex v) s = console_put_hex v s"
| "console_exec (PutDec v) s = console_put_dec v s"
| "console_exec (SetColor fg bg) s = console_set_color fg bg s"
| "console_exec (SetCursor r k) s = console_set_cursor r k s"
| "console_exec (PutcharAt c r k color) s = console_putchar_at c r k color s"
| "console_exec ScrollUp s = console_scroll_up s"
| "console_exec ScrollDown s = console_scroll_down s"
| "console_exec (SetScrollOffset n) s = console_set_scroll_offset n s"
| "console_exec Clear s = console_clear s"


text \<open>The console variables as the C initialisers leave them, over a silent machine.\<close>

definition cold_console :: console where
  "cold_console =
     \<lparr>trace = [], dev = (\<lambda>_ _. 0), iflag = True, vga_buffer = (\<lambda>_. 0), cursor_row = 0, cursor_col = 0,
      scroll_offset = 0, current_color = 0x0F, screen_history = (\<lambda>_. 0), history_start = 0,
      history_count = 0\<rparr>"

section \<open>The invariant\<close>

lemma putchar_switch_row: "cursor_row s < VGA_HEIGHT \<Longrightarrow> cursor_row (putchar_switch c s) \<le> VGA_HEIGHT"
  by (simp add: putchar_switch_def Let_def inc_le word_dec_less less_imp_le)

lemma putchar_switch_wrap:
  "console_ok s \<Longrightarrow> VGA_WIDTH \<le> cursor_col (putchar_switch c s) \<Longrightarrow> cursor_row (putchar_switch c s) < VGA_HEIGHT"
  by (auto simp: putchar_switch_def Let_def console_ok_def not_less not_le split: if_splits) 

lemma console_scroll_history_ok:
  "history_start s < CONSOLE_HISTORY_LINES \<Longrightarrow> history_start (console_scroll s) < CONSOLE_HISTORY_LINES"
  "history_count s \<le> CONSOLE_HISTORY_LINES \<Longrightarrow> history_count (console_scroll s) \<le> CONSOLE_HISTORY_LINES"
  "scroll_offset s \<le> history_count s \<Longrightarrow> scroll_offset s \<le> history_count (console_scroll s)"
  by (auto simp: console_scroll_def Let_def word_mod_less_divisor inc_le intro: order_trans word_inc_le)

lemma console_putchar_ok: "console_ok s \<Longrightarrow> console_ok (console_putchar c s)"
  using putchar_switch_row [of s c] putchar_switch_wrap [of s c]
  by (auto simp: console_putchar_def Let_def scroll_loop_step console_ok_def console_scroll_history_ok not_le)

lemma console_puts_ok: "console_ok s \<Longrightarrow> console_ok (console_puts cs s)"
  by (induction cs s rule: console_puts.induct) (simp_all add: console_puts.simps console_putchar_ok)

lemma put_hex_loop_ok: "console_ok s \<Longrightarrow> console_ok (put_hex_loop v b is s)"
  by (induction v b "is" s rule: put_hex_loop.induct) (simp_all add: Let_def console_putchar_ok)

lemma vga_offset_nat: "vga_offset (of_nat r) (of_nat c) = of_nat (r * 80 + c)"
  by (simp add: vga_offset_def)


lemma cell_inj:
  assumes "r < 25" "c < 80" "r' < 25" "c' < 80"
  shows "vga_offset (of_nat r) (of_nat c) = vga_offset (of_nat r') (of_nat c') \<longleftrightarrow> r = r' \<and> c = c'"
proof -
  have "r * 80 + c < 2 ^ LENGTH(32)" "r' * 80 + c' < 2 ^ LENGTH(32)" using assms by simp_all
  then show ?thesis using assms by (simp only: vga_offset_nat of_nat_inj_small row_col_inj)
qed

lemma cell_bound: "r < 25 \<Longrightarrow> c < 80 \<Longrightarrow> vga_offset (of_nat r) (of_nat c) < 2000"
  by (simp add: vga_offset_nat word_less_nat_alt unat_of_nat_small del: of_nat_add of_nat_mult)

lemma copy_row_cell:
  assumes "r < 25" "r' < 25" "c < 80"
  shows "copy_row (of_nat r) src v (vga_offset (of_nat r') (of_nat c)) =
     (if r' = r then src (of_nat c) else v (vga_offset (of_nat r') (of_nat c)))"
proof (cases "r' = r")
  case True
  have "inj_on (\<lambda>i. vga_offset (of_nat r) (of_nat i)) (set [0..<80])"
    using assms by (auto simp: inj_on_def cell_inj)
  with True assms show ?thesis unfolding copy_row_def by (subst True, subst fold_upd_hit) auto
next
  case False
  with assms show ?thesis unfolding copy_row_def by (subst fold_upd_other) (auto simp: cell_inj)
qed

lemma copy_row_outside: "r < 25 \<Longrightarrow> 2000 \<le> x \<Longrightarrow> copy_row (of_nat r) src v x = v x"
  unfolding copy_row_def by (rule fold_upd_other) (auto dest: cell_bound simp: not_less [symmetric])

lemma move_row_copy:
  assumes "r < 24"
  shows "move_row (of_nat r) v = copy_row (of_nat r) (\<lambda>c. v (vga_offset (of_nat (Suc r)) c)) v"
proof -
  have "of_nat r + (1::u32) = of_nat (Suc r)" by simp
  then show ?thesis using assms
    unfolding copy_row_def move_row_def by (simp only:) (rule fold_copy; simp add: cell_inj del: of_nat_Suc)
qed

lemma scroll_prefix_cell:
  assumes "k \<le> 24" "r < 25" "c < 80"
  shows "fold (\<lambda>row. move_row (of_nat row)) [0..<k] vga (vga_offset (of_nat r) (of_nat c)) =
         vga (vga_offset (of_nat (if r < k then Suc r else r)) (of_nat c))"
  using assms(1,2)
proof (induction k arbitrary: r)
  case (Suc k)
  then have k: "k < 24" by simp
  with Suc.IH [of r] Suc.IH [of "Suc k"] Suc.prems assms(3) show ?case
    by (simp add: move_row_copy copy_row_cell less_Suc_eq del: of_nat_Suc)
qed simp

lemma scroll_rows_cell:
  "r < 25 \<Longrightarrow> c < 80 \<Longrightarrow> scroll_rows vga (vga_offset (of_nat r) (of_nat c)) =
     vga (vga_offset (of_nat (if r < 24 then Suc r else r)) (of_nat c))"
  unfolding scroll_rows_def by (rule scroll_prefix_cell) simp_all

lemma move_row_outside: "r < 24 \<Longrightarrow> 2000 \<le> x \<Longrightarrow> move_row (of_nat r) v x = v x"
  by (simp add: move_row_copy copy_row_outside)

lemma scroll_rows_outside: "2000 \<le> x \<Longrightarrow> scroll_rows v x = v x"
  unfolding scroll_rows_def by (rule fold_same [where g = "\<lambda>v. v x"]) (simp add: move_row_outside)

lemma hist_slot_nat:
  assumes "unat (b :: u32) < 100" "k \<le> 100"
  shows "(b + of_nat k) mod CONSOLE_HISTORY_LINES = of_nat ((unat b + k) mod 100)"
proof -
  have "unat (b + of_nat k) = unat b + k" using assms by (simp add: unat_add_small unat_of_nat_small)
  moreover have "unat (of_nat ((unat b + k) mod 100) :: u32) = (unat b + k) mod 100"
    by (rule unat_of_nat_small) (rule less_trans [of _ 100], simp_all)
  ultimately show ?thesis by (simp add: word_unat_eq_iff unat_mod)
qed

lemma save_line_cell:
  assumes "h < 100" "h' < 100" "c < 80"
  shows "save_line (of_nat h) vga hist (of_nat h' * VGA_WIDTH + of_nat c) =
     (if h' = h then vga (vga_offset 0 (of_nat c)) else hist (of_nat h' * VGA_WIDTH + of_nat c))"
proof -
  have eq: "of_nat a * VGA_WIDTH + of_nat b = of_nat a' * VGA_WIDTH + of_nat b' \<longleftrightarrow> a = a' \<and> b = b'"
    if "a < 100" "a' < 100" "b < 80" "b' < 80" for a b a' b' :: nat
  proof -
    have "a * 80 + b < 2 ^ LENGTH(32)" "a' * 80 + b' < 2 ^ LENGTH(32)" using that by simp_all
    then have "(of_nat (a * 80 + b) :: u32) = of_nat (a' * 80 + b') \<longleftrightarrow> a = a' \<and> b = b'" 
      using that by (simp only: of_nat_inj_small row_col_inj)
    then show ?thesis by simp
  qed
  show ?thesis
  proof (cases "h' = h")
    case True
    have "inj_on (\<lambda>c. of_nat h * VGA_WIDTH + of_nat c) (set [0..<80])"
      by (rule inj_on_add_of_nat) simp
    with True assms show ?thesis unfolding save_line_def by (subst True, subst fold_upd_hit) auto
  next
    case False
    with assms show ?thesis unfolding save_line_def by (subst fold_upd_other) (auto simp: eq)
  qed
qed

lemma history_line_nat:
  assumes "history_start s < CONSOLE_HISTORY_LINES" "k \<le> 100"
  shows "history_line s k =
     map (\<lambda>c. screen_history s (of_nat ((unat (history_start s) + k) mod 100) * VGA_WIDTH + of_nat c)) [0..<80]"
proof -
  have "unat (history_start s) < 100" using assms(1) by (simp add: word_less_nat_alt)
  then show ?thesis using assms(2) by (simp add: history_line_def hist_slot_nat)
qed

lemma screen_scroll:
  "screen (console_scroll s) = tl (screen s) @ [blank_line (current_color s)]"
proof (rule nth_equalityI)
  fix r assume "r < length (screen (console_scroll s))"
  then have r: "r < 25" by (simp add: screen_def)
  have last: "VGA_HEIGHT - 1 = of_nat 24" by simp
  have v: "vga_buffer (console_scroll s) =
      copy_row (of_nat 24) (\<lambda>_. vga_entry CHR '' '' (current_color s)) (scroll_rows (vga_buffer s))"
    by (simp add: console_scroll_def Let_def)
  show "screen (console_scroll s) ! r = (tl (screen s) @ [blank_line (current_color s)]) ! r"
  proof (cases "r < 24")
    case True
    then show ?thesis
      by (simp add: screen_def screen_line_def v copy_row_cell scroll_rows_cell nth_append nth_tl del: of_nat_Suc of_nat_numeral)
  next
    case False
    with r have "r = 24" by simp
    then show ?thesis
      by (simp add: screen_def screen_line_def v copy_row_cell nth_append blank_line_def list_eq_iff_nth_eq del: of_nat_numeral)
  qed
qed (simp add: screen_def)

lemma save_line_history:
  assumes "history_start s < CONSOLE_HISTORY_LINES" "h < 100" "k \<le> 100"
    and "(unat (history_start s) + k) mod 100 \<noteq> h"
  shows "history_line (s\<lparr>screen_history := save_line (of_nat h) v (screen_history s)\<rparr>) k = history_line s k"
  using assms by (simp add: history_line_nat save_line_cell)

lemma save_line_history_hit:
  assumes "history_start s < CONSOLE_HISTORY_LINES" "k \<le> 100"
    and "(unat (history_start s) + k) mod 100 = h"
  shows "history_line (s\<lparr>screen_history := save_line (of_nat h) (vga_buffer s) (screen_history s)\<rparr>) k = screen_line s 0"
  using assms by (auto simp: history_line_nat save_line_cell screen_line_def)

lemma history_scroll_room:
  assumes "history_start s < CONSOLE_HISTORY_LINES" "history_count s < CONSOLE_HISTORY_LINES"
  shows "history (console_scroll s) = history s @ [screen_line s 0]"
proof -
  let ?n = "unat (history_count s)" and ?b = "unat (history_start s)"
  let ?h = "(?b + ?n) mod 100"
  have n: "?n < 100" and b: "?b < 100" using assms by (simp_all add: word_less_nat_alt)
  have slot: "(history_start s + history_count s) mod CONSOLE_HISTORY_LINES = of_nat ?h"
    using hist_slot_nat [OF b, of ?n] n by simp
  have n': "unat (history_count s + 1) = Suc ?n" using n by (simp add: unat_add_small)
  let ?t = "s\<lparr>screen_history := save_line (of_nat ?h) (vga_buffer s) (screen_history s)\<rparr>"
  have "history_line (console_scroll s) k = history_line ?t k" for k
    using assms by (simp add: console_scroll_def Let_def slot history_line_def)
  moreover have "history_line ?t k = history_line s k" if "k < ?n" for k
    using that n assms(1) ring_slot_ne [of k ?n 100 ?b] by (intro save_line_history) auto
  moreover have "history_line ?t ?n = screen_line s 0"
    using n assms(1) by (intro save_line_history_hit) auto
  ultimately show ?thesis
    using assms by (simp add: history_def console_scroll_def Let_def n')
qed

lemma history_scroll_full:
  assumes "history_start s < CONSOLE_HISTORY_LINES" "history_count s = CONSOLE_HISTORY_LINES"
  shows "history (console_scroll s) = tl (history s) @ [screen_line s 0]"
proof -
  let ?b = "unat (history_start s)"
  have b: "?b < 100" using assms by (simp add: word_less_nat_alt)
  have slot: "(history_start s + 1) mod CONSOLE_HISTORY_LINES = of_nat ((?b + 1) mod 100)"
    using hist_slot_nat [OF b, of 1] by simp
  have slot_b: "unat ((history_start s + 1) mod CONSOLE_HISTORY_LINES) = (?b + 1) mod 100"
    unfolding slot by (rule unat_of_nat_small) (rule less_trans [of _ 100], simp_all)
  let ?t = "s\<lparr>screen_history := save_line (of_nat ?b) (vga_buffer s) (screen_history s)\<rparr>"
  have shift: "history_line (console_scroll s) k = history_line ?t (Suc k)" if "k < 100" for k
  proof -
    have "((?b + 1) mod 100 + k) mod 100 = (?b + Suc k) mod 100" by (simp add: mod_simps)
    moreover have "(history_start s + 1) mod CONSOLE_HISTORY_LINES < CONSOLE_HISTORY_LINES"
      by (simp add: word_mod_less_divisor)
    ultimately show ?thesis using that assms
      by (simp add: console_scroll_def Let_def history_line_nat slot_b)
  qed
  have old: "history_line ?t k = history_line s k" if "0 < k" "k < 100" for k
    using that b assms(1) ring_slot_ne [of 0 k 100 ?b] by (intro save_line_history) auto
  have new: "history_line ?t 100 = screen_line s 0"
    using b assms(1) by (intro save_line_history_hit) auto
  have count: "history_count (console_scroll s) = CONSOLE_HISTORY_LINES"
    using assms by (simp add: console_scroll_def Let_def)
  show ?thesis
  proof (rule nth_equalityI)
    fix i assume "i < length (history (console_scroll s))"
    then have i: "i < 100" by (simp add: history_def count)
    have "history (console_scroll s) ! i = history_line ?t (Suc i)"
      using i by (simp add: history_def count shift)
    also have "\<dots> = (if i < 99 then history_line s (Suc i) else screen_line s 0)"
    proof (cases "i < 99")
      case False
      with i have "Suc i = 100" by simp
      with False new show ?thesis by simp
    qed (use old [of "Suc i"] in simp)
    also have "\<dots> = (tl (history s) @ [screen_line s 0]) ! i"
      using i assms(2) by (auto simp: history_def nth_append nth_tl)
    finally show "history (console_scroll s) ! i = (tl (history s) @ [screen_line s 0]) ! i" .
  qed (use assms count in \<open>simp add: history_def\<close>)
qed

lemma screen_line_copy_row:
  assumes "r < 25" "r' < 25"
  shows "screen_line (s\<lparr>vga_buffer := copy_row (of_nat r) src (vga_buffer s)\<rparr>) r' =
     (if r' = r then map (\<lambda>c. src (of_nat c)) [0..<80] else screen_line s r')"
  using assms by (simp add: screen_line_def copy_row_cell)

lemma redraw_row_spec:
  assumes ok: "history_count s \<le> CONSOLE_HISTORY_LINES" "scroll_offset s \<le> history_count s"
    and r: "r < 25" "r' < 25"
  shows "screen_line (redraw_row (of_nat r) s) r' = (if r' = r then shown_line s r else screen_line s r')"
proof -
  let ?n = "unat (history_count s)" and ?o = "unat (scroll_offset s)"
  define i where "i = int ?n - int ?o - (24 - int r)"
  have n: "?n \<le> 100" "?o \<le> ?n" using ok by (simp_all add: word_le_nat_alt)
  have idx: "history_count s - scroll_offset s - (VGA_HEIGHT - 1 - of_nat r) = word_of_int i"
    by (simp add: i_def)
  have si: "sint (word_of_int i :: u32) = i"
    using n r(1) by (intro sint_of_int_small) (simp_all add: i_def del: of_nat_unat)
  have sn: "sint (history_count s) = int ?n" using n by (intro sint_u32_small) simp
  have blank: "map (\<lambda>c. vga_entry CHR '' '' (current_color s)) [0..<80] = blank_line (current_color s)"
    by (simp add: blank_line_def map_replicate_const)
  consider (hist) "0 \<le> i" "i < int ?n" | (before) "i < 0" | (live) "i = int ?n"
    using n r unfolding i_def by linarith
  then show ?thesis
  proof cases
    case hist
    then have dist: "?n - (?o + (24 - r)) = nat i" "?o + (24 - r) \<le> ?n" "?o + (24 - r) \<noteq> 0"
      using r by (auto simp: i_def Let_def simp del: of_nat_unat)
    have "word_of_int i = (of_nat (nat i) :: u32)" using hist by simp
    then show ?thesis using hist r dist
      unfolding redraw_row_def Let_def idx si sn by (simp add: screen_line_copy_row shown_line_def history_line_def)
  next
    case before
    then show ?thesis using r n
      unfolding redraw_row_def Let_def idx si sn by (simp add: screen_line_copy_row shown_line_def blank)
        (auto simp: i_def Let_def simp del: of_nat_unat)
  next
    case live
    then have "?o = 0" "r = 24" using r n by (auto simp: i_def Let_def simp del: of_nat_unat)
    with live show ?thesis using r
      unfolding redraw_row_def Let_def idx si sn by (simp add: shown_line_def screen_line_def)
  qed
qed

lemma shown_line_redraw:
  "history_count s \<le> CONSOLE_HISTORY_LINES \<Longrightarrow> scroll_offset s \<le> history_count s \<Longrightarrow>
   r < 25 \<Longrightarrow> k < 25 \<Longrightarrow> k \<noteq> r \<Longrightarrow> shown_line (redraw_row (of_nat k) s) r = shown_line s r"
  by (simp add: shown_line_def Let_def redraw_row_spec history_line_def)

lemma redraw_prefix:
  assumes "history_count s \<le> CONSOLE_HISTORY_LINES" "scroll_offset s \<le> history_count s"
  shows "k \<le> 25 \<Longrightarrow> r < 25 \<Longrightarrow>
    screen_line (fold (\<lambda>row. redraw_row (of_nat row)) [0..<k] s) r = (if r < k then shown_line s r else screen_line s r)"
proof (induction k arbitrary: r)
  case (Suc k)
  let ?t = "fold (\<lambda>row. redraw_row (of_nat row)) [0..<k] s"
  have t: "history_count ?t = history_count s" "scroll_offset ?t = scroll_offset s"
    "current_color ?t = current_color s" "history_start ?t = history_start s" "screen_history ?t = screen_history s"
    by (rule fold_same; simp)+
  have "shown_line ?t k = shown_line s k"
    using Suc by (simp add: shown_line_def t Let_def history_line_def)
  with Suc assms show ?case by (simp add: redraw_row_spec t less_Suc_eq)
qed simp

lemma redraw_screen:
  assumes "history_count s \<le> CONSOLE_HISTORY_LINES" "scroll_offset s \<le> history_count s" "r < 25"
  shows "screen_line (console_redraw_from_history s) r = shown_line s r"
  using redraw_prefix [OF assms(1,2), of 25 r] assms(3) by (simp add: console_redraw_from_history_def)

lemma digit_cases: "(d::nat) < 16 \<Longrightarrow> d \<in> {0,1,2,3,4,5,6,7,8,9,10,11,12,13,14,15}"
  by (auto simp: numeral_eq_Suc less_Suc_eq)

lemma digit_value_hex: "d < 16 \<Longrightarrow> digit_value (hex_digits ! d) = d"
  by (drule digit_cases) (auto simp: hex_digits_def digit_value_def)

lemma hex_digit_not_NUL: "d < 16 \<Longrightarrow> hex_digits ! d \<noteq> CHR 0x00"
  by (drule digit_cases) (auto simp: hex_digits_def)

lemma hex_digit_decimal:
  assumes "d < 10"
  shows "char_of (48 + d) = hex_digits ! d"
proof -
  have "map (\<lambda>d. char_of (48 + d)) [0..<10] = take 10 hex_digits" by code_simp
  then have "map (\<lambda>d. char_of (48 + d)) [0..<10] ! d = take 10 hex_digits ! d" by simp
  with assms show ?thesis by simp
qed

lemma number_value_positional: "2 \<le> b \<Longrightarrow> b \<le> 16 \<Longrightarrow> number_value b (positional b n) = n"
proof (induction b n rule: positional.induct)
  case (1 b n)
  have "n mod b < b" using 1 by simp
  also have "b \<le> 16" using 1 by simp
  finally have "n mod b < 16" .
  with 1 show ?case
    by (subst positional.simps) (auto simp: number_value_def digit_value_hex)
qed

lemma positional_not_NUL: "2 \<le> b \<Longrightarrow> b \<le> 16 \<Longrightarrow> CHR 0x00 \<notin> set (positional b n)"
proof (induction b n rule: positional.induct)
  case (1 b n)
  have "n mod b < b" using 1 by simp
  also have "b \<le> 16" using 1 by simp
  finally have "n mod b < 16" .
  with 1 show ?case
    by (subst positional.simps) (auto dest: hex_digit_not_NUL simp: eq_commute [of "CHR 0x00"])
qed

lemma length_positional: "2 \<le> b \<Longrightarrow> n < b ^ Suc k \<Longrightarrow> length (positional b n) \<le> Suc k"
proof (induction k arbitrary: n)
  case 0
  then show ?case by (subst positional.simps) simp
next
  case (Suc k)
  have "n div b < b ^ Suc k" using Suc.prems by (simp add: less_mult_imp_div_less mult.commute)
  with Suc show ?case by (subst positional.simps) simp
qed

lemma put_dec_digit: "byte_char (48 + ucast (v mod 10 :: u64)) = hex_digits ! (unat v mod 10)"
proof -
  have m: "unat (v mod 10) = unat v mod 10" by (simp add: unat_mod)
  have "unat (48 + ucast (v mod 10) :: u8) = 48 + unat v mod 10"
  proof -
    have u: "unat (ucast (v mod 10) :: u8) = unat v mod 10"
      by (simp add: unsigned_ucast_eq take_bit_nat_eq_self_iff m)
    have "unat v mod 10 < 10" by simp
    then show ?thesis using u by (subst unat_add_small) simp_all
  qed
  then show ?thesis by (simp add: byte_char_def hex_digit_decimal)
qed

lemma put_dec_loop_positional: "0 < v \<Longrightarrow> put_dec_loop v buf = positional 10 (unat v) @ buf"
proof (induction v buf rule: put_dec_loop.induct)
  case (1 v buf)
  have d: "unat (v div 10) = unat v div 10" by (simp add: unat_div)
  show ?case
  proof (cases "v div 10 = 0")
    case True
    then have "unat v div 10 = 0" using d by simp
    then have "unat v < 10" by simp
    with 1 True show ?thesis
      by (simp add: put_dec_loop.simps [of v] put_dec_loop.simps [of 0] put_dec_digit positional.simps)
  next
    case False
    then have "0 < v div 10" by (simp add: word_neq_0_conv)
    moreover from False have "\<not> unat v < 10" using d by (metis div_less unat_eq_zero)
    ultimately show ?thesis using 1
      by (simp add: put_dec_loop.simps [of v] put_dec_digit d positional.simps [of 10 "unat v"])
  qed
qed

lemma console_put_dec_positional: "console_put_dec v s = console_puts (positional 10 (unat v)) s"
proof (cases "v = 0")
  case True
  then show ?thesis by (simp add: console_put_dec_def positional.simps hex_digits_def console_puts.simps)
next
  case False
  then show ?thesis by (simp add: console_put_dec_def put_dec_loop_positional word_neq_0_conv)
qed

lemma console_puts_append:
  "CHR 0x00 \<notin> set xs \<Longrightarrow> console_puts (xs @ ys) s = console_puts ys (console_puts xs s)"
  by (induction xs arbitrary: s) (auto simp: console_puts.simps)

lemma padded_snoc: "padded (Suc k) n = padded k (n div 16) @ [hex_digits ! (n mod 16)]"
proof (induction k)
  case (Suc k)
  have "padded (Suc (Suc k)) n = hex_digits ! (n div 16 ^ Suc k mod 16) # padded (Suc k) n" by simp
  also have "\<dots> = hex_digits ! (n div 16 div 16 ^ k mod 16) # padded k (n div 16) @ [hex_digits ! (n mod 16)]"
    using Suc.IH by (simp add: div_mult2_eq)
  finally show ?case by simp
qed simp

lemma positional_padded:
  "16 ^ k \<le> n \<Longrightarrow> n < 16 ^ Suc k \<Longrightarrow> positional 16 n = padded (Suc k) n"
proof (induction k arbitrary: n)
  case 0
  then show ?case by (subst positional.simps) simp
next
  case (Suc k)
  have "16 ^ k \<le> n div 16" using Suc.prems(1) div_le_mono [of "16 ^ Suc k" n 16] by simp
  moreover have "n div 16 < 16 ^ Suc k" using Suc.prems(2) by (simp add: less_mult_imp_div_less)
  ultimately have "positional 16 (n div 16) = padded (Suc k) (n div 16)" by (rule Suc.IH)
  moreover have "\<not> n < 16" using Suc.prems(1) by (auto simp: power_Suc intro: order_trans)
     (metis le_trans linorder_not_less mult.right_neutral mult_le_mono2 one_le_numeral one_le_power)
  ultimately show ?case
    using padded_snoc [of "Suc k" n] by (simp add: positional.simps [of 16 n] del: padded.simps)
qed

lemma nibble: "unat (ucast (drop_bit (4 * j) (v::u64) AND 0xF) :: u8) = unat v div 16 ^ j mod 16"
proof -
  have "drop_bit (4 * j) v AND 0xF = take_bit 4 (drop_bit (4 * j) v)"
    by (simp add: take_bit_eq_mask mask_eq_exp_minus_1)
  moreover have v: "unat v < 2 ^ 64" using unsigned_less [of v] by simp
  moreover have "unat (take_bit 4 (drop_bit (4 * j) v)) = unat v div 16 ^ j mod 16"
    using v
    by (simp only: unsigned_take_bit_eq unsigned_drop_bit_eq) (simp add: take_bit_eq_mod drop_bit_eq_div power_mult)
  moreover have "unat v div 16 ^ j mod 16 < 256" by (rule less_trans [of _ 16]) simp_all
  ultimately show ?thesis by (simp add: unsigned_ucast_eq take_bit_nat_eq_self_iff)
qed

lemma put_hex_loop_started:
  "put_hex_loop v True (map (\<lambda>j. 4 * j) (rev [0..<k])) s = console_puts (padded k (unat v)) s"
proof (induction k arbitrary: s)
  case (Suc k)
  then show ?case using hex_digit_not_NUL [of "unat v div 16 ^ k mod 16"] by (simp add: Let_def nibble console_puts.simps)
qed (simp add: console_puts.simps)

lemma put_hex_loop_fresh:
  "unat v < 16 ^ Suc k \<Longrightarrow>
   put_hex_loop v False (map (\<lambda>j. 4 * j) (rev [0..<Suc k])) s = console_puts (positional 16 (unat v)) s"
proof (induction k arbitrary: s)
  case 0
  then show ?case using hex_digit_not_NUL [of "unat v"] nibble [of 0 v]
    by (simp add: Let_def positional.simps console_puts.simps)
next
  case (Suc k)
  let ?d = "unat v div 16 ^ Suc k mod 16"
  have d: "?d = unat v div 16 ^ Suc k" using Suc.prems by (simp add: less_mult_imp_div_less mult.commute)
  show ?case
  proof (cases "?d = 0")
    case True
    then have "unat v < 16 ^ Suc k" using d by (metis div_eq_0_iff power_not_zero zero_neq_numeral)
    moreover have "(ucast (drop_bit (4 * Suc k) v AND 0xF) :: u8) = 0"
      using True nibble [of "Suc k" v] by (metis unat_eq_zero)
    ultimately show ?thesis using Suc.IH by (simp add: Let_def)
  next
    case False
    then have "16 ^ Suc k \<le> unat v" using d by (metis div_less linorder_not_less)
    then have "positional 16 (unat v) = padded (Suc (Suc k)) (unat v)"
      using Suc.prems by (rule positional_padded)
    moreover have "(ucast (drop_bit (4 * Suc k) v AND 0xF) :: u8) \<noteq> 0"
      using False nibble [of "Suc k" v] by (metis unat_0)
    moreover have "hex_digits ! ?d \<noteq> CHR 0x00" by (rule hex_digit_not_NUL) simp
    ultimately show ?thesis
      using put_hex_loop_started [of v k] nibble [of "Suc k" v] nibble [of k v]
        hex_digit_not_NUL [of "unat v div 16 ^ k mod 16"]
      by (simp add: Let_def console_puts.simps)
  qed
qed

lemma console_put_hex_positional:
  "console_put_hex v s = console_puts (''0x'' @ positional 16 (unat v)) s"
proof -
  have "unat v < 16 ^ Suc 15" using unsigned_less [of v] by simp
  from put_hex_loop_fresh [OF this] show ?thesis by (simp add: console_put_hex_def console_puts.simps)
qed

lemma beyond_eqI:
  assumes "\<And>x. 2000 \<le> x \<Longrightarrow> vga_buffer t x = vga_buffer s x"
    and "\<And>x. 8000 \<le> x \<Longrightarrow> screen_history t x = screen_history s x"
  shows "beyond t = beyond s"
  using assms by (auto simp: beyond_def outside_def fun_eq_iff not_less)

lemma save_line_outside: "h < 100 \<Longrightarrow> 8000 \<le> x \<Longrightarrow> save_line (of_nat h) v hist x = hist x"
proof -
  assume h: "h < 100" and x: "8000 \<le> x"
  have "of_nat h * VGA_WIDTH + of_nat c < 8000" if "c < 80" for c :: nat
  proof -
    have "(of_nat (h * 80 + c) :: u32) < 8000"
      using that h by (simp add: word_less_nat_alt unat_of_nat_small del: of_nat_add of_nat_mult)
    then show ?thesis by simp
  qed
  with x show ?thesis unfolding save_line_def
    by (intro fold_upd_other) (auto simp: not_less [symmetric])
qed

lemma save_line_slot_outside:
  "8000 \<le> x \<Longrightarrow> save_line (k mod CONSOLE_HISTORY_LINES) v hist x = hist x"
  using save_line_outside [of "unat (k mod CONSOLE_HISTORY_LINES)" x v hist]
    word_mod_less_divisor [of "CONSOLE_HISTORY_LINES" k] by (simp add: word_less_nat_alt)

lemma save_line_start_outside:
  "b < CONSOLE_HISTORY_LINES \<Longrightarrow> 8000 \<le> x \<Longrightarrow> save_line b v hist x = hist x"
  using save_line_outside [of "unat b" x v hist] by (simp add: word_less_nat_alt)

lemma copy_last_outside: "2000 \<le> x \<Longrightarrow> copy_row 24 src v x = v x"
  using copy_row_outside [of 24 x src v] by simp

lemma beyond_console_scroll:
  "history_start s < CONSOLE_HISTORY_LINES \<Longrightarrow> beyond (console_scroll s) = beyond s"
  by (rule beyond_eqI)
    (auto simp: console_scroll_def Let_def copy_last_outside scroll_rows_outside
      save_line_slot_outside save_line_start_outside)

lemma vga_offset_less:
  assumes "row < VGA_HEIGHT" "col < VGA_WIDTH"
  shows "vga_offset row col < 2000"
  using cell_bound [of "unat row" "unat col"] assms by (simp add: word_less_nat_alt)

lemma beyond_putchar_switch: "console_ok s \<Longrightarrow> beyond (putchar_switch c s) = beyond s"
  by (rule beyond_eqI)
    (auto simp: putchar_switch_def Let_def console_ok_def dest: vga_offset_less)

lemma beyond_simps [simp]:
  "beyond (update_cursor s) = beyond s" "beyond (s\<lparr>cursor_row := r\<rparr>) = beyond s"
  "beyond (s\<lparr>cursor_col := k\<rparr>) = beyond s" "beyond (s\<lparr>scroll_offset := n\<rparr>) = beyond s"
  "beyond (s\<lparr>current_color := col\<rparr>) = beyond s"
  "beyond (s\<lparr>history_start := n\<rparr>) = beyond s" "beyond (s\<lparr>history_count := n\<rparr>) = beyond s"
  by (simp_all add: beyond_def)

lemma beyond_putchar: "console_ok s \<Longrightarrow> beyond (console_putchar c s) = beyond s"
  by (frule beyond_putchar_switch [of s c])
    (simp add: console_putchar_def Let_def scroll_loop_step beyond_console_scroll console_ok_def)

lemma beyond_puts: "console_ok s \<Longrightarrow> beyond (console_puts cs s) = beyond s"
  by (induction cs s rule: console_puts.induct) (simp_all add: console_puts.simps beyond_putchar console_putchar_ok)

lemma row_copy_outside:
  fixes w :: "u32 \<Rightarrow> u16"
  assumes "r < 25" "2000 \<le> x"
  shows "fold (\<lambda>c v. v(vga_offset (of_nat r) (of_nat c) := v (vga_offset k (of_nat c)))) [0..<80] w x = w x"
proof (rule fold_same [where g = "\<lambda>v. v x"])
  fix c and v :: "u32 \<Rightarrow> u16" assume "c \<in> set [0..<80]"
  then have "vga_offset (of_nat r) (of_nat c) < 2000" using assms(1) by (simp add: cell_bound)
  then show "(v(vga_offset (of_nat r) (of_nat c) := v (vga_offset k (of_nat c)))) x = v x"
    using assms(2) by auto
qed

lemma beyond_redraw_row: "r < 25 \<Longrightarrow> beyond (redraw_row (of_nat r) s) = beyond s"
  by (rule beyond_eqI) (simp_all add: redraw_row_def Let_def copy_row_outside row_copy_outside)

lemma beyond_redraw: "beyond (console_redraw_from_history s) = beyond s"
  unfolding console_redraw_from_history_def by (rule fold_same) (simp add: beyond_redraw_row)

lemma beyond_clear: "beyond (console_clear s) = beyond s"
proof (rule beyond_eqI)
  fix x :: u32 assume x: "2000 \<le> x"
  have "x \<notin> of_nat ` set [0..<2000]"
    using x by (auto simp: word_le_nat_alt unat_of_nat_small)
  then show "vga_buffer (console_clear s) x = vga_buffer s x"
    by (simp add: console_clear_def fold_upd_other)
qed (simp add: console_clear_def)

lemma console_set_ok:
  assumes "console_ok s"
  shows "console_ok (console_set_color fg bg s)" "console_ok (console_set_cursor r k s)"
    "console_ok (console_putchar_at c r k color s)" "console_ok (console_clear s)"
  using assms
  by (simp_all add: console_ok_def console_set_color_def console_set_cursor_def console_putchar_at_def
      console_clear_def Let_def)

lemma console_scroll_view_ok:
  assumes "console_ok s"
  shows "console_ok (console_scroll_up s)" "console_ok (console_scroll_down s)"
    "console_ok (console_set_scroll_offset n s)"
  using assms
  by (auto simp: console_ok_def console_scroll_up_def console_scroll_down_def
      console_set_scroll_offset_def inc_le word_dec_le intro: order_trans)

lemma console_exec_ok: "console_ok s \<Longrightarrow> console_ok (console_exec c s)"
  by (cases c)
    (simp_all add: console_putchar_ok console_puts_ok console_put_hex_positional
      console_put_dec_positional console_set_ok console_scroll_view_ok)

lemma beyond_exec: "console_ok s \<Longrightarrow> beyond (console_exec c s) = beyond s"
proof (cases c)
  case (PutcharAt ch r k color)
  then show ?thesis using vga_offset_less [of r k]
    by (auto simp: console_putchar_at_def intro!: beyond_eqI)
qed (simp_all add: beyond_putchar beyond_puts console_put_hex_positional console_put_dec_positional
      beyond_redraw beyond_clear console_putchar_ok console_set_color_def console_set_cursor_def Let_def
      console_scroll_up_def console_scroll_down_def console_set_scroll_offset_def)

section \<open>Properties\<close>

interpretation console_calls: framed_component console_ok console_exec beyond
  by unfold_locales (simp_all add: console_exec_ok beyond_exec)

lemma console_init_ok: "console_ok (console_init s)"
  by (simp add: console_init_def console_ok_def console_clear_def)

lemma beyond_init: "beyond (console_init s) = beyond s"
  by (simp add: console_init_def beyond_clear)

text \<open>
  C7: starting from \<^verbatim>\<open>console_init\<close>, no sequence of console calls ever moves the cursor or
  the history indices out of range, and none ever writes outside the 80 by 25 text buffer or
  the 100-line history array.
\<close>

theorem console_memory_safe:
  "console_ok (fold console_exec calls (console_init s)) \<and>
   beyond (fold console_exec calls (console_init s)) = beyond s"
  using console_calls.run_ok [of "console_init s"] console_calls.run_view [of "console_init s"]
  by (simp add: console_init_ok beyond_init)

lemma history_scroll:
  assumes "history_start s < CONSOLE_HISTORY_LINES" "history_count s \<le> CONSOLE_HISTORY_LINES"
  shows "history (console_scroll s) = (let h = history s @ [screen_line s 0] in drop (length h - 100) h)"
proof (cases "history_count s < CONSOLE_HISTORY_LINES")
  case True
  then have "unat (history_count s) < 100" by (simp add: word_less_nat_alt)
  then have "length (history s @ [screen_line s 0]) - 100 = 0" by (simp add: history_def)
  then show ?thesis using history_scroll_room [OF assms(1) True] by (simp only: Let_def drop0)
next
  case False
  with assms have full: "history_count s = CONSOLE_HISTORY_LINES" by simp
  then have "length (history s) = 100" by (simp add: history_def)
  then show ?thesis using history_scroll_full [OF assms(1) full] by (simp add: Let_def drop_Suc)
qed

lemma screen_top: "hd (screen s) = screen_line s 0"
  by (simp add: screen_def upt_rec)

text \<open>
  C8: \<^verbatim>\<open>console_scroll\<close> removes the top line of the screen, adds a blank line at the bottom,
  and appends the removed line to the history, of which the last 100 lines are kept.
\<close>

theorem console_scroll_refines:
  assumes "console_ok s"
  shows "screen (console_scroll s) = tl (screen s) @ [blank_line (current_color s)] \<and>
    history (console_scroll s) =
      (let h = history s @ [hd (screen s)] in drop (length h - 100) h)"
  using assms by (simp only: screen_scroll screen_top) (simp add: console_ok_def history_scroll)

theorem console_scroll_refines_witness:
  "console_ok cold_console \<and>
   screen (console_scroll cold_console) = tl (screen cold_console) @ [blank_line 0x0F]"
proof -
  have ok: "console_ok cold_console" by (simp add: console_ok_def cold_console_def)
  have "current_color cold_console = 0x0F" by (simp add: cold_console_def)
  with ok console_scroll_refines [OF ok] show ?thesis by simp
qed

text \<open>
  When the user scrolls back, row \<open>r\<close> of the screen shows the history line that lies
  \<open>24 - r\<close> lines above the one selected by the new offset, and a blank line where the
  history does not reach that far.
\<close>

theorem console_scroll_up_shows:
  assumes "console_ok s" "scroll_offset s < history_count s" "r < 25"
  shows "screen (console_scroll_up s) ! r =
    (let depth = unat (scroll_offset s) + 1 + (24 - r)
     in if depth \<le> length (history s) then history s ! (length (history s) - depth)
        else blank_line (current_color s))"
proof -
  let ?t = "s\<lparr>scroll_offset := scroll_offset s + 1\<rparr>"
  have t: "history_count ?t \<le> CONSOLE_HISTORY_LINES" "scroll_offset ?t \<le> history_count ?t"
    using assms by (simp_all add: console_ok_def inc_le)
  have off: "unat (scroll_offset s + 1) = unat (scroll_offset s) + 1"
  proof (rule trans [OF unat_add_small])
    have "unat (history_count s) \<le> 100" "unat (scroll_offset s) < unat (history_count s)"
      using assms by (simp_all add: console_ok_def word_le_nat_alt word_less_nat_alt)
    then show "unat (scroll_offset s) + unat (1::u32) < 2 ^ LENGTH(32)" by simp
  qed simp
  have "screen (console_scroll_up s) ! r = screen_line (console_redraw_from_history ?t) r"
    using assms by (simp add: screen_def console_scroll_up_def screen_line_def)
  also have "\<dots> = shown_line ?t r" using t assms(3) by (rule redraw_screen)
  finally show ?thesis
    by (simp add: shown_line_def off Let_def history_def history_line_def)
qed

theorem console_scroll_up_shows_witness:
  "screen (console_scroll_up (console_scroll cold_console)) ! 24 = hd (screen cold_console)"
proof -
  let ?s = "console_scroll cold_console"
  have "console_ok ?s"
    by (simp add: console_ok_def console_scroll_def cold_console_def Let_def)
  moreover have "scroll_offset ?s < history_count ?s" and "scroll_offset ?s = 0"
    by (simp_all add: console_scroll_def cold_console_def Let_def)
  moreover have "history ?s = [hd (screen cold_console)]"
    unfolding screen_top by (subst history_scroll) (simp_all add: cold_console_def history_def)
  ultimately show ?thesis using console_scroll_up_shows [of ?s 24] by simp
qed

text \<open>
  \<^verbatim>\<open>console_put_dec\<close> prints the decimal numeral of its argument: reading the printed
  digits back gives the value, and they fit the 21-byte buffer with its terminator.
\<close>

theorem console_put_dec_correct:
  "console_put_dec v s = console_puts (positional 10 (unat v)) s \<and>
   number_value 10 (positional 10 (unat v)) = unat v \<and>
   length (positional 10 (unat v)) \<le> 20"
proof -
  have "unat v < 2 ^ 64" using unsigned_less [of v] by simp
  then have "unat v < 10 ^ Suc 19" by simp
  from length_positional [OF _ this] show ?thesis
    by (simp add: console_put_dec_positional number_value_positional)
qed

text \<open>
  \<^verbatim>\<open>console_put_hex\<close> prints \<^verbatim>\<open>0x\<close> and the hexadecimal numeral of its argument without
  leading zeros, at most 16 digits.
\<close>

theorem console_put_hex_correct:
  "console_put_hex v s = console_puts (''0x'' @ positional 16 (unat v)) s \<and>
   number_value 16 (positional 16 (unat v)) = unat v \<and>
   length (positional 16 (unat v)) \<le> 16"
proof -
  have "unat v < 16 ^ Suc 15" using unsigned_less [of v] by simp
  from length_positional [OF _ this] show ?thesis
    by (simp only: console_put_hex_positional number_value_positional) simp
qed

lemma byte_high_bit: "(0x80 :: u8) \<le> b \<longleftrightarrow> bit b 7"
proof -
  have u: "unat b < 256" using unsigned_less [of b] by simp
  have "bit b 7 \<longleftrightarrow> bit (unat b) 7" by (simp add: bit_unsigned_iff)
  also have "\<dots> \<longleftrightarrow> odd (unat b div 2 ^ 7)" by (rule bit_iff_odd)
  finally have "bit b 7 \<longleftrightarrow> odd (unat b div 2 ^ 7)" .
  moreover have "odd (unat b div 2 ^ 7) \<longleftrightarrow> 128 \<le> unat b"
  proof (cases "128 \<le> unat b")
    case True
    then obtain k where "unat b = 128 + k" using le_Suc_ex by blast
    moreover from this u have "unat b div 128 = 1" by (intro div_nat_eqI) simp_all
    ultimately show ?thesis by simp
  qed simp
  ultimately show ?thesis by (simp add: word_le_nat_alt)
qed

lemma high_byte_mask: "(0xFF00 :: u16) = push_bit 8 (mask 8)" by (simp add: mask_eq_exp_minus_1)

text \<open>
  For an ASCII character \<^verbatim>\<open>vga_entry\<close> puts the character in the low byte and the colour in
  the high byte; for a byte above 127 the sign extension of \<^verbatim>\<open>char\<close> overwrites the colour with
  0xFF.
\<close>

theorem vga_entry_cases:
  "vga_entry c color =
     (if char_byte c < 0x80 then ucast (char_byte c) OR push_bit 8 (ucast color)
      else 0xFF00 OR ucast (char_byte c))"
proof (cases "bit (char_byte c) 7")
  case True
  then have "\<not> char_byte c < 0x80" by (simp add: not_less byte_high_bit)
  moreover have "scast (char_byte c) OR push_bit 8 (ucast color :: u16) = 0xFF00 OR ucast (char_byte c)"
    unfolding high_byte_mask
  proof (rule bit_word_eqI)
    fix n assume "n < LENGTH(16)"
    then show "bit (scast (char_byte c) OR push_bit 8 (ucast color :: u16)) n =
        bit (push_bit 8 (mask 8) OR ucast (char_byte c) :: u16) n"
      using True by (cases "n = 7")
        (auto simp: bit_or_iff bit_push_bit_iff bit_unsigned_iff bit_signed_iff bit_mask_iff min_def
          dest: bit_imp_le_length)
  qed
  ultimately show ?thesis by (simp add: vga_entry_def)
next
  case False
  then have "char_byte c < 0x80" by (simp add: not_le [symmetric] byte_high_bit)
  moreover have "scast (char_byte c) OR push_bit 8 (ucast color :: u16) = ucast (char_byte c) OR push_bit 8 (ucast color)"
  proof (rule bit_word_eqI)
    fix n assume "n < LENGTH(16)"
    then show "bit (scast (char_byte c) OR push_bit 8 (ucast color :: u16)) n =
        bit (ucast (char_byte c) OR push_bit 8 (ucast color) :: u16) n"
      using False by (cases "n = 7")
        (auto simp: bit_or_iff bit_push_bit_iff bit_unsigned_iff bit_signed_iff min_def
          dest: bit_imp_le_length)
  qed
  ultimately show ?thesis by (simp add: vga_entry_def)
qed

text \<open>
  Scrolling back one line and forward again does not bring the live screen back: the
  bottom row then shows the newest history line, whatever was there before.
\<close>

theorem console_scroll_back_loses_line:
  assumes "console_ok s" "scroll_offset s = 0" "0 < history_count s"
  shows "screen (console_scroll_down (console_scroll_up s)) ! 24 = last (history s)"
proof -
  let ?up = "console_scroll_up s" 
  let ?dn = "?up\<lparr>scroll_offset := 0\<rparr>"
  have n: "unat (history_count s) \<noteq> 0" using assms(3) by (simp add: word_less_nat_alt)
  have up: "scroll_offset ?up = 1" "history_count ?up = history_count s" 
    using assms by (simp_all add: console_scroll_up_def)
  have "screen (console_scroll_down ?up) ! 24 = screen_line (console_redraw_from_history ?dn) 24"
    by (simp add: screen_def console_scroll_down_def up screen_line_def)
  also have "\<dots> = shown_line ?dn 24"
    using assms up by (intro redraw_screen) (simp_all add: console_ok_def)
  also have "\<dots> = screen_line ?up 24" by (simp add: shown_line_def screen_line_def)
  also have "\<dots> = screen_line (console_redraw_from_history (s\<lparr>scroll_offset := 1\<rparr>)) 24"
    using assms by (simp add: console_scroll_up_def screen_line_def)
  also have "\<dots> = shown_line (s\<lparr>scroll_offset := 1\<rparr>) 24"
    using assms by (intro redraw_screen) (simp_all add: console_ok_def word_less_nat_alt word_le_nat_alt)
  also have "\<dots> = last (history s)"
    using n by (simp add: shown_line_def Let_def history_def last_map history_line_def)
  finally show ?thesis .
qed

theorem console_scroll_back_loses_line_witness:
  "screen (console_scroll_down (console_scroll_up (console_scroll cold_console))) ! 24 =
     last (history (console_scroll cold_console))"
proof -
  let ?s = "console_scroll cold_console"
  have "console_ok ?s" "scroll_offset ?s = 0" "0 < history_count ?s"
    by (simp_all add: console_ok_def console_scroll_def cold_console_def Let_def)
  then show ?thesis by (rule console_scroll_back_loses_line)
qed

end
