(* ===== verification/Spinlock.thy ===== *)
theory Spinlock
  imports Prelude
begin

text \<open>
  The spinlock of \<^verbatim>\<open>include/spinlock.h\<close>, first as one processor executes it (taking a lock
  that is already held never returns), then as several processors interleave on it.
\<close>

type_synonym spinlock_t = u32

definition spinlock_init :: spinlock_t where
  "spinlock_init = 0"

text \<open>The locked exchange: the new lock word and the value \<^verbatim>\<open>tmp\<close> receives.\<close>

definition xchg :: "spinlock_t \<Rightarrow> u32 \<Rightarrow> spinlock_t \<times> u32" where
  "xchg locked tmp = (tmp, locked)"

text \<open>One round of the loop of \<^verbatim>\<open>spin_lock\<close>: the new lock word, and whether the loop is left.\<close>

definition spin_lock_round :: "spinlock_t \<Rightarrow> spinlock_t \<times> bool" where
  "spin_lock_round l = (let (l', tmp) = xchg l 1 in (l', tmp = 0))"

partial_function (option) spin_lock :: "spinlock_t \<Rightarrow> spinlock_t option" where
  "spin_lock l = (let (l', got) = spin_lock_round l in if got then Some l' else spin_lock l')"

definition spin_unlock :: "spinlock_t \<Rightarrow> spinlock_t" where
  "spin_unlock l = 0"

section \<open>Several processors\<close>

text \<open>
  A processor is outside, inside the loop of \<^verbatim>\<open>spin_lock\<close>, or past it.  One step of a spinning
  processor is one round of that loop, whose locked exchange is atomic; one step of a processor that
  holds the lock is \<^verbatim>\<open>spin_unlock\<close>.
\<close>

datatype cpu_pc = Outside | Spinning | Holding

record lock_sys =
  lock_word :: spinlock_t
  cpus :: "nat \<Rightarrow> cpu_pc"

definition lock_sys_init :: lock_sys where
  "lock_sys_init = \<lparr>lock_word = spinlock_init, cpus = (\<lambda>_. Outside)\<rparr>"

inductive lock_step :: "lock_sys \<Rightarrow> lock_sys \<Rightarrow> bool" where
  enter: "cpus s i = Outside \<Longrightarrow> lock_step s (s\<lparr>cpus := (cpus s)(i := Spinning)\<rparr>)"
| exchange: "cpus s i = Spinning \<Longrightarrow> spin_lock_round (lock_word s) = (l, got) \<Longrightarrow>
     lock_step s (s\<lparr>lock_word := l, cpus := (cpus s)(i := if got then Holding else Spinning)\<rparr>)"
| leave: "cpus s i = Holding \<Longrightarrow>
     lock_step s (s\<lparr>lock_word := spin_unlock (lock_word s), cpus := (cpus s)(i := Outside)\<rparr>)"

inductive lock_reachable :: "lock_sys \<Rightarrow> bool" where
  start: "lock_reachable lock_sys_init"
| step: "lock_reachable s \<Longrightarrow> lock_step s t \<Longrightarrow> lock_reachable t"

definition lock_inv :: "lock_sys \<Rightarrow> bool" where
  "lock_inv s \<longleftrightarrow>
     (\<forall>i j. cpus s i = Holding \<longrightarrow> cpus s j = Holding \<longrightarrow> i = j) \<and>
     (lock_word s \<noteq> 0 \<longleftrightarrow> (\<exists>i. cpus s i = Holding))"

definition lock_sys_held :: lock_sys where
  "lock_sys_held = \<lparr>lock_word = 1, cpus = (\<lambda>_. Outside)(0 := Holding, 1 := Spinning)\<rparr>"

inductive_cases lock_stepE: "lock_step s t"

lemma spin_lock_round_simp [simp]: "spin_lock_round l = (1, l = 0)"
  by (simp add: spin_lock_round_def xchg_def)

section \<open>One processor\<close>

lemma spin_lock_free [simp]: "spin_lock 0 = Some 1"
  by (subst spin_lock.simps) simp

lemma spin_lock_returns:
  assumes "spin_lock l = Some l'"
  shows "l = 0 \<and> l' = 1"
proof (rule spin_lock.raw_induct [where P = "\<lambda>l l'. l = 0 \<and> l' = 1", OF _ assms])
  fix f l l'
  assume IH: "\<And>l l'. f l = Some l' \<Longrightarrow> l = 0 \<and> l' = 1"
    and eq: "(let (l', got) = spin_lock_round l in if got then Some l' else f l') = Some l'"
  show "l = 0 \<and> l' = 1"
    using eq IH [of 1 l'] by (auto split: if_splits)
qed

lemma spin_lock_held: "l \<noteq> 0 \<Longrightarrow> spin_lock l = None"
  using spin_lock_returns by (cases "spin_lock l") auto

lemma spin_unlock_free [simp]: "spin_unlock l = 0"
  by (simp add: spin_unlock_def)

section \<open>Mutual exclusion\<close>

lemma lock_inv_step: "lock_step s t \<Longrightarrow> lock_inv s \<Longrightarrow> lock_inv t"
proof (induction rule: lock_step.induct)
  case (enter s i)
  then show ?case by (auto simp: lock_inv_def) (metis cpu_pc.distinct(3))+
next
  case (exchange s i l got)
  then have l: "l = 1" "got = (lock_word s = 0)" by simp_all
  show ?case
  proof (cases got)
    case True
    with exchange l show ?thesis by (auto simp: lock_inv_def)
  next
    case False
    with exchange l show ?thesis by (auto simp: lock_inv_def) (metis cpu_pc.distinct(5))
  qed
next
  case (leave s i)
  then show ?case by (auto simp: lock_inv_def)
qed

lemma lock_inv_init: "lock_inv lock_sys_init"
  by (simp add: lock_inv_def lock_sys_init_def spinlock_init_def)

lemma lock_inv_reachable: "lock_reachable s \<Longrightarrow> lock_inv s"
  by (induction rule: lock_reachable.induct) (simp_all add: lock_inv_init lock_inv_step)

lemma enters_iff:
  assumes "cpus s i = Spinning"
  shows "(\<exists>t. lock_step s t \<and> cpus t i = Holding) \<longleftrightarrow> lock_word s = 0"
proof
  assume "\<exists>t. lock_step s t \<and> cpus t i = Holding"
  then obtain t where "lock_step s t" "cpus t i = Holding" by blast
  then show "lock_word s = 0"
    using assms by (cases rule: lock_step.cases) (auto split: if_splits)
next
  assume "lock_word s = 0"
  with lock_step.exchange [OF assms, of 1 True] show "\<exists>t. lock_step s t \<and> cpus t i = Holding"
    by fastforce
qed

text \<open>
  C14: whatever the interleaving of any number of processors on one lock, at most one of them is past
  \<^verbatim>\<open>spin_lock\<close>; a call of \<^verbatim>\<open>spin_lock\<close> on the lock word as it then is returns exactly when none is, and
  leaves the word set; and a processor inside the loop can get past it with its next exchange exactly
  when none is.
\<close>

theorem spinlock_mutual_exclusion:
  assumes "lock_reachable s"
  shows "(\<forall>i j. cpus s i = Holding \<and> cpus s j = Holding \<longrightarrow> i = j) \<and>
    spin_lock (lock_word s) = (if \<exists>i. cpus s i = Holding then None else Some 1) \<and>
    (\<forall>i. cpus s i = Spinning \<longrightarrow>
       (\<exists>t. lock_step s t \<and> cpus t i = Holding) = (\<forall>j. cpus s j \<noteq> Holding))"
proof -
  have inv: "lock_inv s" by (rule lock_inv_reachable [OF assms])
  then have w: "lock_word s = 0 \<longleftrightarrow> (\<forall>i. cpus s i \<noteq> Holding)" by (auto simp: lock_inv_def)
  then have "spin_lock (lock_word s) = (if \<exists>i. cpus s i = Holding then None else Some 1)"
    using spin_lock_held [of "lock_word s"] by auto
  with inv w enters_iff show ?thesis by (auto simp: lock_inv_def)
qed

lemma lock_sys_held_reachable: "lock_reachable lock_sys_held"
proof -
  let ?a = "\<lparr>lock_word = 0, cpus = (\<lambda>_. Outside)(0 := Spinning)\<rparr>"
  let ?b = "\<lparr>lock_word = 1, cpus = (\<lambda>_. Outside)(0 := Holding)\<rparr>"
  have "lock_step lock_sys_init ?a"
    using lock_step.enter [of lock_sys_init 0] by (simp add: lock_sys_init_def spinlock_init_def)
  moreover have "lock_step ?a ?b"
    using lock_step.exchange [of ?a 0 1 True] by simp
  moreover have "lock_step ?b lock_sys_held"
    using lock_step.enter [of ?b 1] by (simp add: lock_sys_held_def)
  ultimately show ?thesis using lock_reachable.intros by blast
qed

theorem spinlock_mutual_exclusion_witness:
  "lock_reachable lock_sys_held \<and> spin_lock (lock_word lock_sys_held) = None \<and>
   {j. cpus lock_sys_held j = Holding} = {0}"
proof -
  have held: "cpus lock_sys_held 0 = Holding" by (simp add: lock_sys_held_def)
  note mutex = spinlock_mutual_exclusion [OF lock_sys_held_reachable]
  have "j = 0" if "cpus lock_sys_held j = Holding" for j using mutex held that by blast
  then have "{j. cpus lock_sys_held j = Holding} = {0}" using held by auto
  moreover have "spin_lock (lock_word lock_sys_held) = None"
    using mutex [THEN conjunct2, THEN conjunct1] held by auto
  ultimately show ?thesis using lock_sys_held_reachable by blast
qed

end
