(* ===== verification/Kheap.thy ===== *)
theory Kheap
  imports Console Spinlock
begin

text \<open>
  The kernel heap, \<^verbatim>\<open>mm/kheap.c\<close>: a first-fit allocator over one list of blocks.  The store
  \<open>kheap_mem\<close> maps the address of a header to its contents; pointers are addresses and
  NULL is 0.  A list walk that meets no NULL never returns, which is the result \<^term>\<open>None\<close>.
\<close>

record kheap_block =
  kb_size :: u64
  kb_next :: u64
  kb_free :: u8

record kheap = console +
  kernel_end :: u64
  kheap_head :: u64
  kheap_lock :: spinlock_t
  kheap_mem :: "u64 \<Rightarrow> kheap_block"

abbreviation "KHEAP_SIZE \<equiv> (0x400000 :: u64)"
abbreviation "SIZEOF_BLOCK \<equiv> (24 :: u64)"

definition KHEAP_START :: "'a kheap_scheme \<Rightarrow> u64" where
  "KHEAP_START s = (kernel_end s + 0xFFF) AND NOT 0xFFF"

definition KHEAP_END :: "'a kheap_scheme \<Rightarrow> u64" where
  "KHEAP_END s = KHEAP_START s + KHEAP_SIZE"

definition align16 :: "u64 \<Rightarrow> u64" where
  "align16 sz = (sz + 15) AND NOT 15"

definition kheap_init :: "'a kheap_scheme \<Rightarrow> 'a kheap_scheme" where
  "kheap_init s =
     (let s1 = s\<lparr>kheap_lock := spinlock_init, kheap_head := KHEAP_START s,
                 kheap_mem := (kheap_mem s)(KHEAP_START s :=
                   \<lparr>kb_size = KHEAP_END s - KHEAP_START s - SIZEOF_BLOCK, kb_next = 0, kb_free = 1\<rparr>)\<rparr>
      in console_puts '' bytes\<newline>'' (console_put_dec KHEAP_SIZE
           (console_puts ''\<newline>        Size:  '' (console_put_hex (KHEAP_END s)
             (console_puts ''\<newline>        End:   '' (console_put_hex (KHEAP_START s)
               (console_puts ''        Start: '' (console_puts ''[KHEAP] Kernel heap initialized\<newline>'' s1))))))))"

text \<open>The body of \<^verbatim>\<open>kmalloc\<close>'s loop once a fitting free block \<open>cur\<close> is found.\<close>

definition kmalloc_take :: "u64 \<Rightarrow> u64 \<Rightarrow> (u64 \<Rightarrow> kheap_block) \<Rightarrow> (u64 \<Rightarrow> kheap_block)" where
  "kmalloc_take cur sz m =
     (let remaining = kb_size (m cur) - sz;
          m1 = (if SIZEOF_BLOCK + 16 < remaining
                then (let new_block = cur + SIZEOF_BLOCK + sz;
                          m2 = m(new_block := \<lparr>kb_size = remaining - SIZEOF_BLOCK, kb_next = kb_next (m cur), kb_free = 1\<rparr>)
                      in m2(cur := (m2 cur)\<lparr>kb_size := sz, kb_next := new_block\<rparr>))
                else m)
      in m1(cur := (m1 cur)\<lparr>kb_free := 0\<rparr>))"

partial_function (option) kmalloc_loop ::
  "u64 \<Rightarrow> u64 \<Rightarrow> (u64 \<Rightarrow> kheap_block) \<Rightarrow> (u64 \<times> (u64 \<Rightarrow> kheap_block)) option" where
  "kmalloc_loop cur sz m =
     (if cur = 0 then Some (0, m)
      else if kb_free (m cur) \<noteq> 0 \<and> sz \<le> kb_size (m cur)
      then Some (cur + SIZEOF_BLOCK, kmalloc_take cur sz m)
      else kmalloc_loop (kb_next (m cur)) sz m)"

definition kmalloc :: "u64 \<Rightarrow> 'a kheap_scheme \<Rightarrow> (u64 \<times> 'a kheap_scheme) option" where
  "kmalloc sz s =
     (if sz = 0 then Some (0, s)
      else case spin_lock (kheap_lock s) of
        None \<Rightarrow> None
      | Some l \<Rightarrow>
          (case kmalloc_loop (kheap_head s) (align16 sz) (kheap_mem s) of
            None \<Rightarrow> None
          | Some (p, m) \<Rightarrow> Some (p, s\<lparr>kheap_mem := m, kheap_lock := spin_unlock l\<rparr>)))"

partial_function (option) coalesce_loop ::
  "u64 \<Rightarrow> (u64 \<Rightarrow> kheap_block) \<Rightarrow> (u64 \<Rightarrow> kheap_block) option" where
  "coalesce_loop cur m =
     (if cur \<noteq> 0 \<and> kb_next (m cur) \<noteq> 0
      then (let nxt = kb_next (m cur)
            in if kb_free (m cur) \<noteq> 0 \<and> kb_free (m nxt) \<noteq> 0
               then coalesce_loop cur
                      (m(cur := (m cur)\<lparr>kb_size := kb_size (m cur) + (SIZEOF_BLOCK + kb_size (m nxt)),
                                        kb_next := kb_next (m nxt)\<rparr>))
               else coalesce_loop nxt m)
      else Some m)"

definition kfree :: "u64 \<Rightarrow> 'a kheap_scheme \<Rightarrow> 'a kheap_scheme option" where
  "kfree ptr s =
     (if ptr = 0 then Some s
      else case spin_lock (kheap_lock s) of
        None \<Rightarrow> None
      | Some l \<Rightarrow>
          (let block = ptr - SIZEOF_BLOCK;
               m = (kheap_mem s)(block := (kheap_mem s block)\<lparr>kb_free := 1\<rparr>)
           in case coalesce_loop (kheap_head s) m of
                None \<Rightarrow> None
              | Some m' \<Rightarrow> Some (s\<lparr>kheap_mem := m', kheap_lock := spin_unlock l\<rparr>)))"

section \<open>Frames\<close>

lemma kheap_field_cong:
  fixes s t :: "'a kheap_scheme"
  assumes "console.more t = console.more s"
  shows "kernel_end t = kernel_end s" "kheap_head t = kheap_head s" "kheap_lock t = kheap_lock s"
    "kheap_mem t = kheap_mem s" "kheap.more t = kheap.more s"
  using assms by (cases s; cases t; simp)+

lemmas kheap_console_frames [simp] =
  console_frames [THEN kheap_field_cong(1)] console_frames [THEN kheap_field_cong(2)]
  console_frames [THEN kheap_field_cong(3)] console_frames [THEN kheap_field_cong(4)]
  console_frames [THEN kheap_field_cong(5)]

lemma kmalloc_frame:
  assumes "kmalloc n s = Some (p, t)"
  shows "kheap.more t = kheap.more s" "kernel_end t = kernel_end s" "kheap_head t = kheap_head s"
  using assms by (auto simp: kmalloc_def split: if_splits option.splits)

lemma kfree_frame:
  assumes "kfree p s = Some t"
  shows "kheap.more t = kheap.more s" "kernel_end t = kernel_end s" "kheap_head t = kheap_head s"
  using assms by (auto simp: kfree_def Let_def split: if_splits option.splits)

lemma kheap_init_more [simp]: "kheap.more (kheap_init s) = kheap.more s"
  by (simp add: kheap_init_def Let_def)

lemmas kheap_frames = console_frames [THEN kheap_field_cong(5)] kheap_init_more

end
