(* ===== verification/Kheap_Props.thy ===== *)
theory Kheap_Props
  imports Kheap Console_Props
begin

text \<open>
  What the kernel heap promises.  The block list in memory is related to an abstract list of
  segments that tile the heap; \<^verbatim>\<open>kmalloc\<close> and \<^verbatim>\<open>kfree\<close> are shown to return and to act on that
  list as a first-fit allocator with coalescing does.
\<close>

section \<open>Specification\<close>

text \<open>A segment: the address of its header, the size of its payload, whether it is free.\<close>

type_synonym seg = "nat \<times> nat \<times> bool"

fun heap_list :: "(u64 \<Rightarrow> kheap_block) \<Rightarrow> u64 \<Rightarrow> nat \<Rightarrow> nat \<Rightarrow> seg list \<Rightarrow> bool" where
  "heap_list m p a e [] \<longleftrightarrow> p = 0 \<and> a = e"
| "heap_list m p a e ((b, n, f) # bs) \<longleftrightarrow>
     p \<noteq> 0 \<and> unat p = a \<and> b = a \<and> unat (kb_size (m p)) = n \<and> (kb_free (m p) \<noteq> 0) = f \<and>
     heap_list m (kb_next (m p)) (a + 24 + n) e bs"

definition heap_ok :: "'a kheap_scheme \<Rightarrow> seg list \<Rightarrow> bool" where
  "heap_ok s bs \<longleftrightarrow>
     kheap_lock s = 0 \<and> unat (KHEAP_START s) + 0x400000 < 2 ^ 64 \<and>
     heap_list (kheap_mem s) (kheap_head s) (unat (KHEAP_START s)) (unat (KHEAP_START s) + 0x400000) bs"

fun first_fit :: "nat \<Rightarrow> seg list \<Rightarrow> nat \<times> seg list" where
  "first_fit n [] = (0, [])"
| "first_fit n ((a, k, f) # bs) =
     (if f \<and> n \<le> k
      then (a + 24, if 40 < k - n then (a, n, False) # (a + 24 + n, k - n - 24, True) # bs
                    else (a, k, False) # bs)
      else (case first_fit n bs of (r, bs') \<Rightarrow> (r, (a, k, f) # bs')))"

fun coalesce :: "seg list \<Rightarrow> seg list" where
  "coalesce [] = []"
| "coalesce [x] = [x]"
| "coalesce (x # y # bs) =
     (if snd (snd x) \<and> snd (snd y) then coalesce ((fst x, fst (snd x) + 24 + fst (snd y), True) # bs)
      else x # coalesce (y # bs))"

definition mark_free :: "nat \<Rightarrow> seg list \<Rightarrow> seg list" where
  "mark_free a bs = map (\<lambda>(b, n, f). (b, n, f \<or> b = a)) bs"

text \<open>No two neighbouring segments are both free.\<close>

fun merged :: "seg list \<Rightarrow> bool" where
  "merged (x # y # bs) \<longleftrightarrow> \<not> (snd (snd x) \<and> snd (snd y)) \<and> merged (y # bs)"
| "merged _ \<longleftrightarrow> True"

text \<open>The payload regions in use: start address and length.\<close>

definition live :: "seg list \<Rightarrow> (nat \<times> nat) set" where
  "live bs = {(a + 24, n) | a n. (a, n, False) \<in> set bs}"

text \<open>The segments follow one another from address \<open>a\<close> to address \<open>e\<close> without a gap.\<close>

fun tiled :: "nat \<Rightarrow> nat \<Rightarrow> seg list \<Rightarrow> bool" where
  "tiled a e [] \<longleftrightarrow> a = e"
| "tiled a e ((b, n, f) # bs) \<longleftrightarrow> b = a \<and> tiled (a + 24 + n) e bs"

text \<open>
  The interface of an allocator: \<open>regions h\<close> are the payloads in use when the heap is
  described by \<open>h\<close>.
\<close>

locale allocator =
  fixes inv :: "'s \<Rightarrow> 'h \<Rightarrow> bool"
    and alloc :: "u64 \<Rightarrow> 's \<Rightarrow> (u64 \<times> 's) option"
    and release :: "u64 \<Rightarrow> 's \<Rightarrow> 's option"
    and regions :: "'h \<Rightarrow> (nat \<times> nat) set"
    and fits :: "u64 \<Rightarrow> bool"
  assumes alloc_returns: "inv s h \<Longrightarrow> \<exists>p t h'. alloc n s = Some (p, t) \<and> inv t h' \<and>
      (if p = 0 then regions h' = regions h
       else \<exists>k. (fits n \<longrightarrow> unat n \<le> k) \<and> (unat p, k) \<notin> regions h \<and> regions h' = insert (unat p, k) (regions h))"
    and regions_disjoint: "inv s h \<Longrightarrow> (x, j) \<in> regions h \<Longrightarrow> (y, k) \<in> regions h \<Longrightarrow> (x, j) \<noteq> (y, k) \<Longrightarrow>
      x + j \<le> y \<or> y + k \<le> x"
    and release_returns: "inv s h \<Longrightarrow> p \<noteq> 0 \<Longrightarrow> (unat p, j) \<in> regions h \<Longrightarrow>
      \<exists>t h'. release p s = Some t \<and> inv t h' \<and> regions h' = regions h - {(unat p, j)}"
begin

lemma alloc_fresh:
  assumes "inv s h" "alloc n s = Some (p, t)" "p \<noteq> 0" "fits n"
  shows "\<exists>h' k. inv t h' \<and> unat n \<le> k \<and> regions h' = insert (unat p, k) (regions h) \<and>
    (\<forall>(x, j) \<in> regions h. x + j \<le> unat p \<or> unat p + k \<le> x)"
proof -
  from alloc_returns [OF assms(1), of n] assms(2-4) obtain h' k where
    h': "inv t h'" "unat n \<le> k" "(unat p, k) \<notin> regions h" "regions h' = insert (unat p, k) (regions h)"
    by auto
  have "x + j \<le> unat p \<or> unat p + k \<le> x" if "(x, j) \<in> regions h" for x j
    using regions_disjoint [OF h'(1), of x j "unat p" k] h'(3,4) that by auto
  with h' show ?thesis by blast
qed

lemma alloc_release:
  assumes "inv s h" "alloc n s = Some (p, t)" "p \<noteq> 0"
  shows "\<exists>u h'. release p t = Some u \<and> inv u h' \<and> regions h' = regions h"
proof -
  from alloc_returns [OF assms(1), of n] assms(2,3) obtain h' k where
    h': "inv t h'" "(unat p, k) \<notin> regions h" "regions h' = insert (unat p, k) (regions h)"
    by auto
  with release_returns [OF h'(1) assms(3), of k] show ?thesis by auto
qed

end

section \<open>The walk over the block list\<close>

lemma heap_list_le: "heap_list m p a e bs \<Longrightarrow> a \<le> e"
  by (induction m p a e bs rule: heap_list.induct) auto

lemma heap_list_unique: "heap_list m p a e bs \<Longrightarrow> heap_list m p a e cs \<Longrightarrow> bs = cs"
proof (induction bs arbitrary: p a cs)
  case Nil
  then show ?case by (cases cs) auto
next
  case (Cons x bs)
  then show ?case by (cases cs; cases x; cases "hd cs") auto
qed

lemma heap_list_frame:
  "heap_list m p a e bs \<Longrightarrow> (\<And>x::u64. a \<le> unat x \<Longrightarrow> m' x = m x) \<Longrightarrow> heap_list m' p a e bs"
  by (induction m p a e bs rule: heap_list.induct) auto

lemma word_eq_unat: "(x = y) \<longleftrightarrow> unat x = unat (y :: 'a::len word)"
  by (rule word_unat_eq_iff)

lemma kmalloc_take_split:
  assumes "40 < kb_size (m p) - n" "p + SIZEOF_BLOCK + n = q" "q \<noteq> p"
  shows "kmalloc_take p n m =
    m(q := \<lparr>kb_size = kb_size (m p) - n - SIZEOF_BLOCK, kb_next = kb_next (m p), kb_free = 1\<rparr>,
      p := (m p)\<lparr>kb_size := n, kb_next := q, kb_free := 0\<rparr>)"
  using assms by (simp add: kmalloc_take_def Let_def)

lemma kmalloc_take_whole:
  "\<not> 40 < kb_size (m p) - n \<Longrightarrow> kmalloc_take p n m = m(p := (m p)\<lparr>kb_free := 0\<rparr>)"
  by (simp add: kmalloc_take_def)

lemma kmalloc_take_spec:
  assumes hl: "heap_list m p a e ((b, k, f) # bs)" and e: "e < 2 ^ 64"
    and fit: "kb_free (m p) \<noteq> 0" "n \<le> kb_size (m p)"
  shows "heap_list (kmalloc_take p n m) p a e (snd (first_fit (unat n) ((b, k, f) # bs))) \<and>
    (\<forall>x. unat x < a \<longrightarrow> kmalloc_take p n m x = m x)"
proof -
  from hl have p: "p \<noteq> 0" "unat p = a" "b = a" "unat (kb_size (m p)) = k" "f"
    and tl: "heap_list m (kb_next (m p)) (a + 24 + k) e bs" using fit by auto
  have le: "unat n \<le> k" using fit(2) p(4) by (simp add: word_le_nat_alt)
  have ae: "a + 24 + k \<le> e" using tl by (rule heap_list_le)
  have rem: "unat (kb_size (m p) - n) = k - unat n" using fit(2) p(4) by (simp add: unat_sub)
  define q where "q = p + SIZEOF_BLOCK + n"
  have q: "unat q = a + 24 + unat n"
    using p le ae e by (simp add: q_def unat_add_small)
  then have qp: "q \<noteq> p" "q \<noteq> 0" using p by (auto simp: word_eq_unat)
  have big: "40 < kb_size (m p) - n \<longleftrightarrow> 40 < k - unat n"
    by (simp add: word_less_nat_alt rem)
  show ?thesis
  proof (cases "40 < k - unat n")
    case True
    note take_eq = kmalloc_take_split [of m p n q, OF big [THEN iffD2, OF True] q_def [symmetric] qp(1)]
    have rem24: "unat (kb_size (m p) - n - SIZEOF_BLOCK) = k - unat n - 24"
      using True rem by (subst unat_sub) (simp_all add: word_le_nat_alt)
    have "heap_list (kmalloc_take p n m) (kb_next (m p)) (a + 24 + k) e bs"
      using tl
    proof (rule heap_list_frame)
      fix x :: u64 assume "a + 24 + k \<le> unat x"
      then have "x \<noteq> p" "x \<noteq> q" using p q True le by auto
      then show "kmalloc_take p n m x = m x" by (simp add: take_eq)
    qed
    then have "heap_list (kmalloc_take p n m) (kb_next (m p)) (a + 24 + unat n + 24 + (k - unat n - 24)) e bs"
      using True by (simp add: add.assoc)
    then have "heap_list (kmalloc_take p n m) q (a + 24 + unat n) e ((a + 24 + unat n, k - unat n - 24, True) # bs)"
      using qp q rem24 by (simp add: take_eq)
    then have "heap_list (kmalloc_take p n m) p a e ((a, unat n, False) # (a + 24 + unat n, k - unat n - 24, True) # bs)"
      using p by (simp add: take_eq)
    then show ?thesis using True p le q by (auto simp: take_eq simp del: heap_list.simps)
  next
    case False
    have "heap_list (kmalloc_take p n m) (kb_next (m p)) (a + 24 + k) e bs"
      using tl by (rule heap_list_frame) (use p False big in \<open>auto simp: kmalloc_take_whole\<close>)
    then show ?thesis using False p le big by (auto simp: kmalloc_take_whole)
  qed
qed

lemma kmalloc_loop_spec:
  assumes "heap_list m p a e bs" "e < 2 ^ 64"
  shows "\<exists>m'. kmalloc_loop p n m = Some (of_nat (fst (first_fit (unat n) bs)), m') \<and>
     (\<forall>x. unat x < a \<longrightarrow> m' x = m x) \<and> heap_list m' p a e (snd (first_fit (unat n) bs))"
  using assms
proof (induction bs arbitrary: p a)
  case Nil
  then show ?case by (subst kmalloc_loop.simps) auto
next
  case (Cons x bs)
  obtain b k f where x: "x = (b, k, f)" by (cases x)
  with Cons.prems have p: "p \<noteq> 0" "unat p = a" "b = a" "unat (kb_size (m p)) = k" "(kb_free (m p) \<noteq> 0) = f"
    and tl: "heap_list m (kb_next (m p)) (a + 24 + k) e bs" by auto
  show ?case
  proof (cases "kb_free (m p) \<noteq> 0 \<and> n \<le> kb_size (m p)")
    case True
    have "kmalloc_loop p n m = Some (p + SIZEOF_BLOCK, kmalloc_take p n m)"
      using True p(1) by (subst kmalloc_loop.simps) simp
    moreover have "fst (first_fit (unat n) (x # bs)) = a + 24" 
      using True p x by (simp add: word_le_nat_alt)
    moreover have "of_nat (a + 24) = p + SIZEOF_BLOCK" using p(2) by auto
    ultimately show ?thesis
      using True kmalloc_take_spec [OF Cons.prems(1) [unfolded x] Cons.prems(2), of n] x
      by (auto simp del: heap_list.simps first_fit.simps of_nat_add)
  next
    case False
    from Cons.IH [OF tl Cons.prems(2)] obtain m' where m':
      "kmalloc_loop (kb_next (m p)) n m = Some (of_nat (fst (first_fit (unat n) bs)), m')"
      "\<forall>x. unat x < a + 24 + k \<longrightarrow> m' x = m x"
      "heap_list m' (kb_next (m p)) (a + 24 + k) e (snd (first_fit (unat n) bs))" by blast
    have "\<not> (f \<and> unat n \<le> k)" using False p by (simp add: word_le_nat_alt)
    then show ?thesis using False p m' x
      by (subst kmalloc_loop.simps) (auto simp: split_def)
  qed
qed


section \<open>Freeing and coalescing\<close>

lemma heap_list_mark:
  "heap_list m p a e bs \<Longrightarrow> heap_list (m(c := (m c)\<lparr>kb_free := 1\<rparr>)) p a e (mark_free (unat c) bs)"
proof (induction m p a e bs rule: heap_list.induct)
  case (2 m p a e b n f bs)
  then have "b = unat c \<longleftrightarrow> p = c" by (auto simp: word_eq_unat)
  with 2 show ?case by (cases "p = c") (auto simp: mark_free_def)
qed (simp add: mark_free_def)

lemma coalesce_loop_spec:
  assumes "heap_list m p a e bs" "e < 2 ^ 64"
  shows "\<exists>m'. coalesce_loop p m = Some m' \<and> (\<forall>x. unat x < a \<longrightarrow> m' x = m x) \<and>
     heap_list m' p a e (coalesce bs)"
  using assms
proof (induction bs arbitrary: m p a rule: coalesce.induct)
  case 1
  then show ?case by (subst coalesce_loop.simps) auto
next
  case (2 x)
  then show ?case by (cases x) (subst coalesce_loop.simps, auto)
next
  case (3 x y bs)
  obtain b k f c n g where xy: "x = (b, k, f)" "y = (c, n, g)" by (metis prod_cases3)
  let ?q = "kb_next (m p)"
  from 3 xy have p: "p \<noteq> 0" "unat p = a" "b = a" "unat (kb_size (m p)) = k" "(kb_free (m p) \<noteq> 0) = f"
    and q: "?q \<noteq> 0" "unat ?q = a + 24 + k" "c = a + 24 + k" "unat (kb_size (m ?q)) = n" "(kb_free (m ?q) \<noteq> 0) = g"
    and tl: "heap_list m (kb_next (m ?q)) (a + 24 + k + 24 + n) e bs" by auto
  show ?case
  proof (cases "f \<and> g")
    case True
    let ?m = "m(p := (m p)\<lparr>kb_size := kb_size (m p) + (SIZEOF_BLOCK + kb_size (m ?q)), kb_next := kb_next (m ?q)\<rparr>)"
    have "a + 24 + k + 24 + n \<le> e" using tl by (rule heap_list_le)
    then have sz: "unat (kb_size (m p) + (SIZEOF_BLOCK + kb_size (m ?q))) = k + 24 + n"
      using p q 3(4) by (simp add: unat_add_small)
    have "heap_list ?m (kb_next (m ?q)) (a + 24 + k + 24 + n) e bs"
      using tl by (rule heap_list_frame) (use p in auto)
    then have hl: "heap_list ?m p a e ((b, k + 24 + n, True) # bs)"
      using p q sz True by (simp add: add.assoc)
    define m1 where "m1 = ?m"
    have "snd (snd x) \<and> snd (snd y)" using True xy by simp
    from 3(1) [OF this, of m1 p a] hl 3(4) xy obtain m' where
      m': "coalesce_loop p m1 = Some m'" "\<forall>x. unat x < a \<longrightarrow> m' x = m1 x"
      "heap_list m' p a e (coalesce ((b, k + 24 + n, True) # bs))"
      unfolding m1_def [symmetric] by (auto simp del: heap_list.simps)
    have low: "\<forall>x. unat x < a \<longrightarrow> m' x = m x" using m'(2) p by (auto simp: m1_def)
    have "coalesce_loop p m = coalesce_loop p ?m"
      using p q True by (subst coalesce_loop.simps) (simp add: Let_def)
    then have "coalesce_loop p m = Some m'" using m'(1) by (simp add: m1_def)
    moreover have "coalesce (x # y # bs) = coalesce ((b, k + 24 + n, True) # bs)" using True xy by simp
    ultimately show ?thesis using m'(3) low by (auto simp del: heap_list.simps coalesce.simps)
  next
    case False
    from 3(3) xy have tl': "heap_list m ?q (a + 24 + k) e (y # bs)" using p by simp
    from 3(2) [OF _ tl' 3(4)] False xy obtain m' where
      m': "coalesce_loop ?q m = Some m'" "\<forall>x. unat x < a + 24 + k \<longrightarrow> m' x = m x"
      "heap_list m' ?q (a + 24 + k) e (coalesce (y # bs))" by auto
    moreover have "coalesce_loop p m = coalesce_loop ?q m"
      using p q False by (subst coalesce_loop.simps) (auto simp: Let_def)
    moreover have "m' p = m p" using m'(2) p by simp
    ultimately show ?thesis using False xy p by (intro exI [of _ m']) auto
  qed
qed

lemma kmalloc_spec:
  assumes "heap_ok s bs" "sz \<noteq> 0"
  shows "\<exists>t. kmalloc sz s = Some (of_nat (fst (first_fit (unat (align16 sz)) bs)), t) \<and>
    heap_ok t (snd (first_fit (unat (align16 sz)) bs))"
proof -
  from assms(1) obtain m where
    "kmalloc_loop (kheap_head s) (align16 sz) (kheap_mem s) = Some (of_nat (fst (first_fit (unat (align16 sz)) bs)), m)"
    "heap_list m (kheap_head s) (unat (KHEAP_START s)) (unat (KHEAP_START s) + 0x400000)
       (snd (first_fit (unat (align16 sz)) bs))"
    using kmalloc_loop_spec [of "kheap_mem s"] unfolding heap_ok_def by blast
  then show ?thesis using assms by (simp add: kmalloc_def heap_ok_def KHEAP_START_def)
qed

lemma kfree_spec:
  assumes "heap_ok s bs" "p \<noteq> 0"
  shows "\<exists>t. kfree p s = Some t \<and> heap_ok t (coalesce (mark_free (unat (p - SIZEOF_BLOCK)) bs))"
proof -
  let ?c = "p - SIZEOF_BLOCK"
  let ?m = "(kheap_mem s)(?c := (kheap_mem s ?c)\<lparr>kb_free := 1\<rparr>)"
  have "heap_list ?m (kheap_head s) (unat (KHEAP_START s)) (unat (KHEAP_START s) + 0x400000)
      (mark_free (unat ?c) bs)"
    using assms(1) unfolding heap_ok_def by (intro heap_list_mark) simp
  then obtain m where "coalesce_loop (kheap_head s) ?m = Some m"
    "heap_list m (kheap_head s) (unat (KHEAP_START s)) (unat (KHEAP_START s) + 0x400000)
       (coalesce (mark_free (unat ?c) bs))"
    using coalesce_loop_spec [of ?m] assms(1) unfolding heap_ok_def by blast
  then show ?thesis using assms by (simp add: kfree_def Let_def heap_ok_def KHEAP_START_def)
qed


section \<open>Segments\<close>

lemma heap_list_tiled: "heap_list m p a e bs \<Longrightarrow> tiled a e bs"
  by (induction m p a e bs rule: heap_list.induct) auto

lemma tiled_bounds: "tiled a e bs \<Longrightarrow> (b, n, f) \<in> set bs \<Longrightarrow> a \<le> b \<and> b + 24 + n \<le> e"
proof (induction a e bs rule: tiled.induct)
  case (2 a e c k g bs)
  have "tiled a' e bs \<Longrightarrow> a' \<le> e" for a' bs
    by (induction a' e bs rule: tiled.induct) auto
  with 2 show ?case by fastforce
qed simp

lemma tiled_apart:
  "tiled a e bs \<Longrightarrow> (b, n, f) \<in> set bs \<Longrightarrow> (c, k, g) \<in> set bs \<Longrightarrow>
   (b, n, f) = (c, k, g) \<or> b + 24 + n \<le> c \<or> c + 24 + k \<le> b"
proof (induction a e bs rule: tiled.induct)
  case (2 a e d j h bs)
  then show ?case using tiled_bounds [of "a + 24 + j" e bs] by fastforce
qed simp

lemma live_disjoint:
  assumes "tiled a e bs" "(x, n) \<in> live bs" "(y, k) \<in> live bs" "(x, n) \<noteq> (y, k)"
  shows "x + n \<le> y \<or> y + k \<le> x"
  using assms tiled_apart [OF assms(1)] by (fastforce simp: live_def)

lemma live_Cons:
  "live ((a, n, f) # bs) = (if f then live bs else insert (a + 24, n) (live bs))"
  by (auto simp: live_def)

lemma live_Nil [simp]: "live [] = {}"
  by (simp add: live_def)

lemma live_bounds: "tiled a e bs \<Longrightarrow> (x, n) \<in> live bs \<Longrightarrow> a + 24 \<le> x \<and> x + n \<le> e"
  using tiled_bounds by (fastforce simp: live_def)

lemma first_fit_none: "fst (first_fit n bs) = 0 \<Longrightarrow> snd (first_fit n bs) = bs"
  by (induction n bs rule: first_fit.induct) (auto simp: split_def split: if_splits)

lemma first_fit_live:
  assumes "tiled a e bs" "fst (first_fit n bs) \<noteq> 0"
  shows "\<exists>k. n \<le> k \<and> (fst (first_fit n bs), k) \<notin> live bs \<and>
     live (snd (first_fit n bs)) = insert (fst (first_fit n bs), k) (live bs) \<and>
     a + 24 \<le> fst (first_fit n bs) \<and> fst (first_fit n bs) + k \<le> e"
  using assms
proof (induction bs arbitrary: a)
  case (Cons x bs)
  obtain b k f where x: "x = (b, k, f)" by (cases x)
  then have b: "b = a" and tl: "tiled (a + 24 + k) e bs" using Cons.prems by auto
  show ?case
  proof (cases "f \<and> n \<le> k")
    case True
    have "(a + 24, j) \<notin> live bs" for j using live_bounds [OF tl] by fastforce
    moreover have "a + 24 + k \<le> e"
      using tiled_bounds [OF Cons.prems(1), of b k f] x b by simp
    ultimately show ?thesis using True x b
      by (cases "40 < k - n") (auto simp: live_Cons)
  next
    case False
    with Cons.prems x have "fst (first_fit n bs) \<noteq> 0" by (auto simp: split_def)
    from Cons.IH [OF tl this] obtain j where
      "n \<le> j" "(fst (first_fit n bs), j) \<notin> live bs"
      "live (snd (first_fit n bs)) = insert (fst (first_fit n bs), j) (live bs)"
      "a + 24 + k + 24 \<le> fst (first_fit n bs)" "fst (first_fit n bs) + j \<le> e" by blast
    with False x b show ?thesis
      by (intro exI [of _ j]) (auto simp: split_def live_Cons)
  qed
qed simp

lemma live_coalesce [simp]: "live (coalesce bs) = live bs"
proof (induction bs rule: coalesce.induct)
  case (3 x y bs)
  then show ?case by (cases x; cases y) (auto simp: live_Cons)
qed simp_all

lemma coalesce_hd: "bs \<noteq> [] \<Longrightarrow> coalesce bs \<noteq> [] \<and> snd (snd (hd (coalesce bs))) = snd (snd (hd bs))"
  by (induction bs rule: coalesce.induct) auto

lemma merged_coalesce: "merged (coalesce bs)"
proof (induction bs rule: coalesce.induct)
  case (3 x y bs)
  show ?case
  proof (cases "snd (snd x) \<and> snd (snd y)")
    case False
    with 3 have "merged (coalesce (y # bs))" by simp
    moreover obtain z zs where "coalesce (y # bs) = z # zs" "snd (snd z) = snd (snd y)"
      using coalesce_hd [of "y # bs"] by (cases "coalesce (y # bs)") auto
    ultimately show ?thesis using False by auto
  qed (use 3 in simp)
qed simp_all

lemma coalesce_merged: "merged bs \<Longrightarrow> coalesce bs = bs"
  by (induction bs rule: coalesce.induct) auto

lemma live_mark_free: "live (mark_free a bs) = {(x, n) \<in> live bs. x \<noteq> a + 24}"
  by (induction bs) (auto simp: live_Cons mark_free_def split: if_splits)

lemma mark_free_absent: "(\<And>b n f. (b, n, f) \<in> set bs \<Longrightarrow> b \<noteq> a) \<Longrightarrow> mark_free a bs = bs"
  by (induction bs) (auto simp: mark_free_def)

lemma first_fit_release:
  assumes "tiled a e bs" "merged bs" "fst (first_fit n bs) \<noteq> 0"
  shows "coalesce (mark_free (fst (first_fit n bs) - 24) (snd (first_fit n bs))) = bs \<and>
    snd (snd (hd (mark_free (fst (first_fit n bs) - 24) (snd (first_fit n bs))))) = snd (snd (hd bs)) \<and>
    mark_free (fst (first_fit n bs) - 24) (snd (first_fit n bs)) \<noteq> [] \<and> a + 24 \<le> fst (first_fit n bs)"
  using assms
proof (induction bs arbitrary: a)
  case (Cons x bs)
  obtain b k f where x: "x = (b, k, f)" by (cases x)
  then have b: "b = a" and tl: "tiled (a + 24 + k) e bs" using Cons.prems by auto
  have mg: "merged bs" using Cons.prems(2) by (cases bs) auto
  show ?case
  proof (cases "f \<and> n \<le> k")
    case True
    have "mark_free a bs = bs" using tiled_bounds [OF tl] by (intro mark_free_absent) fastforce
    moreover have "coalesce ((a, k, True) # bs) = (a, k, True) # bs"
      using Cons.prems(2) True x b by (intro coalesce_merged) simp
    ultimately show ?thesis using True x b
      by (cases "40 < k - n") (auto simp: mark_free_def)
  next
    case False
    let ?r = "fst (first_fit n bs)"
    let ?ys = "mark_free (?r - 24) (snd (first_fit n bs))"
    from False Cons.prems x have r: "?r \<noteq> 0" by (auto simp: split_def)
    from Cons.IH [OF tl mg r] have IH: "coalesce ?ys = bs" "snd (snd (hd ?ys)) = snd (snd (hd bs))"
      "?ys \<noteq> []" "a + 24 + k + 24 \<le> ?r" by auto
    then obtain y ys where ys: "?ys = y # ys" by (cases ?ys) auto
    have ne: "bs \<noteq> []" using r by auto
    have "mark_free (?r - 24) (x # snd (first_fit n bs)) = x # ?ys"
      using IH(4) x b by (auto simp: mark_free_def)
    moreover have "coalesce (x # ?ys) = x # bs"
    proof -
      have "\<not> (snd (snd x) \<and> snd (snd y))"
        using IH(2) ys ne Cons.prems(2) by (cases bs) auto
      then show ?thesis using ys IH(1) by auto
    qed
    ultimately show ?thesis using False x b IH(4) by (auto simp: split_def)
  qed
qed simp


section \<open>The allocator interface\<close>

definition no_wrap :: "u64 \<Rightarrow> bool" where
  "no_wrap n \<longleftrightarrow> unat n + 15 < 2 ^ 64"

lemma heap_ok_tiled:
  assumes "heap_ok s bs"
  shows "tiled (unat (KHEAP_START s)) (unat (KHEAP_START s) + 0x400000) bs"
    "unat (KHEAP_START s) + 0x400000 < 2 ^ 64"
  using assms heap_list_tiled by (auto simp: heap_ok_def)

lemma align16_nat:
  assumes "no_wrap n"
  shows "unat (align16 n) = (unat n + 15) div 16 * 16"
  using assms unat_align_up [of n 4] by (simp add: no_wrap_def align16_def mask_4)

lemma align16_ge: "no_wrap n \<Longrightarrow> unat n \<le> unat (align16 n)"
  using align_up_ge [of 16 "unat n"] by (simp add: align16_nat)

lemma kmalloc_returns:
  assumes "heap_ok s bs"
  shows "\<exists>p t bs'. kmalloc n s = Some (p, t) \<and> heap_ok t bs' \<and>
     (if p = 0 then live bs' = live bs
      else \<exists>k. (no_wrap n \<longrightarrow> unat n \<le> k) \<and> (unat p, k) \<notin> live bs \<and> live bs' = insert (unat p, k) (live bs))"
proof (cases "n = 0")
  case True
  then show ?thesis using assms by (auto simp: kmalloc_def)
next
  case False
  let ?r = "fst (first_fit (unat (align16 n)) bs)" and ?bs = "snd (first_fit (unat (align16 n)) bs)"
  from kmalloc_spec [OF assms False] obtain t where
    t: "kmalloc n s = Some (of_nat ?r, t)" "heap_ok t ?bs" by blast
  show ?thesis
  proof (cases "?r = 0")
    case True
    with t first_fit_none [OF True] show ?thesis by auto
  next
    case False
    from first_fit_live [OF heap_ok_tiled(1) [OF assms] this] obtain k where k:
      "unat (align16 n) \<le> k" "(?r, k) \<notin> live bs" "live ?bs = insert (?r, k) (live bs)"
      "?r + k \<le> unat (KHEAP_START s) + 0x400000" by auto
    then have r: "unat (of_nat ?r :: u64) = ?r"
      using heap_ok_tiled(2) [OF assms] by (intro unat_of_nat_small) simp
    moreover have "(of_nat ?r :: u64) \<noteq> 0" using r False by (metis unat_0)
    moreover have "no_wrap n \<longrightarrow> unat n \<le> k" using k(1) align16_ge by (meson order_trans)
    ultimately show ?thesis using t k(2,3) by (auto simp del: of_nat_eq_0_iff)
  qed
qed

lemma kfree_returns:
  assumes "heap_ok s bs" "p \<noteq> 0" "(unat p, j) \<in> live bs"
  shows "\<exists>t bs'. kfree p s = Some t \<and> heap_ok t bs' \<and> live bs' = live bs - {(unat p, j)}"
proof -
  note tiled = heap_ok_tiled(1) [OF assms(1)]
  have "24 \<le> unat p" using live_bounds [OF tiled assms(3)] by simp
  then have c: "unat (p - SIZEOF_BLOCK) + 24 = unat p"
    by (subst unat_sub) (simp_all add: word_le_nat_alt)
  have "k = j" if "(unat p, k) \<in> live bs" for k
    using that assms(3) tiled_apart [OF tiled] by (fastforce simp: live_def)
  then have "live (mark_free (unat (p - SIZEOF_BLOCK)) bs) = live bs - {(unat p, j)}"
    by (auto simp: live_mark_free c)
  with kfree_spec [OF assms(1,2)] show ?thesis by fastforce
qed

interpretation kheap: allocator heap_ok kmalloc kfree live no_wrap
proof
  show "\<exists>p t h'. kmalloc n s = Some (p, t) \<and> heap_ok t h' \<and>
      (if p = 0 then live h' = live h
       else \<exists>k. (no_wrap n \<longrightarrow> unat n \<le> k) \<and> (unat p, k) \<notin> live h \<and> live h' = insert (unat p, k) (live h))"
    if "heap_ok s h" for s :: "'a kheap_scheme" and h n using that by (rule kmalloc_returns)
  show "x + j \<le> y \<or> y + k \<le> x"
    if "heap_ok s h" "(x, j) \<in> live h" "(y, k) \<in> live h" "(x, j) \<noteq> (y, k)"
    for s :: "'a kheap_scheme" and h x j y k
    using live_disjoint [OF heap_ok_tiled(1)] that by blast
  show "\<exists>t h'. kfree p s = Some t \<and> heap_ok t h' \<and> live h' = live h - {(unat p, j)}"
    if "heap_ok s h" "p \<noteq> 0" "(unat p, j) \<in> live h" for s :: "'a kheap_scheme" and h p j
    using that by (rule kfree_returns)
qed


section \<open>Properties\<close>

lemma KHEAP_START_nat:
  assumes "unat (kernel_end s) + 0x1000 \<le> 2 ^ 64"
  shows "unat (KHEAP_START s) = (unat (kernel_end s) + 0xFFF) div 0x1000 * 0x1000"
  using assms unat_align_up [of "kernel_end s" 12] by (simp add: KHEAP_START_def mask_12)

text \<open>A linker layout the kernel can run with: the image ends above 0 and below 256 TiB.\<close>

definition sane_layout :: "'a kheap_scheme \<Rightarrow> bool" where
  "sane_layout s \<longleftrightarrow> 0 < unat (kernel_end s) \<and> unat (kernel_end s) < 2 ^ 48"

lemma sane_layout_start:
  assumes "sane_layout s"
  shows "0 < unat (KHEAP_START s)" "unat (KHEAP_START s) < 2 ^ 49" "unat (KHEAP_START s) mod 0x1000 = 0"
  using assms align_up_ge [of "0x1000" "unat (kernel_end s)"] align_up_less [of "0x1000" "unat (kernel_end s)"]
  by (simp_all add: KHEAP_START_nat sane_layout_def)

definition fresh_segs :: "'a kheap_scheme \<Rightarrow> seg list" where
  "fresh_segs s = [(unat (KHEAP_START s), 0x400000 - 24, True)]"

lemma kheap_init_ok:
  assumes "sane_layout s"
  shows "heap_ok (kheap_init s) (fresh_segs s)"
proof -
  have start: "KHEAP_START (kheap_init s) = KHEAP_START s"
    by (simp add: KHEAP_START_def kheap_init_def Let_def)
  have "KHEAP_START s \<noteq> 0" using sane_layout_start(1) [OF assms] by auto
  with sane_layout_start [OF assms] show ?thesis
    by (simp add: heap_ok_def start fresh_segs_def)
      (simp add: kheap_init_def Let_def KHEAP_END_def spinlock_init_def)
qed

text \<open>The heap of a kernel image that ends at 1 MiB + 0x5800, for the witnesses.\<close>

definition sample_heap :: kheap where
  "sample_heap =
     kheap_init (console.extend cold_console
       \<lparr>kernel_end = 0x105800, kheap_head = 0, kheap_lock = 0,
        kheap_mem = (\<lambda>_. \<lparr>kb_size = 0, kb_next = 0, kb_free = 0\<rparr>)\<rparr>)"


lemma sample_heap_ok: "heap_ok sample_heap [(0x106000, 0x3FFFE8, True)]"
proof -
  let ?s = "console.extend cold_console
       \<lparr>kernel_end = 0x105800, kheap_head = 0, kheap_lock = 0,
        kheap_mem = (\<lambda>_. \<lparr>kb_size = 0, kb_next = 0, kb_free = 0\<rparr>)\<rparr> :: kheap"
  have k: "kernel_end ?s = 0x105800" by (simp add: console.defs)
  then have "sane_layout ?s" by (simp add: sane_layout_def)
  moreover have "unat (KHEAP_START ?s) = 0x106000" by (simp add: KHEAP_START_nat k)
  ultimately show ?thesis using kheap_init_ok [of ?s] by (simp add: sample_heap_def fresh_segs_def)
qed

text \<open>
  \<^verbatim>\<open>kheap_init\<close> leaves one free block that covers the whole 4 MiB heap but for its header,
  with the lock free.
\<close>

theorem kheap_init_establishes:
  assumes "sane_layout s"
  shows "heap_ok (kheap_init s) [(unat (KHEAP_START s), 0x400000 - 24, True)]"
  using kheap_init_ok [OF assms] by (simp add: fresh_segs_def)

theorem kheap_init_establishes_witness:
  "heap_ok (kheap_init sample_heap) [(0x106000, 0x400000 - 24, True)]"
proof -
  have k: "kernel_end sample_heap = 0x105800"
    by (simp add: sample_heap_def kheap_init_def Let_def console.defs)
  then have "unat (KHEAP_START sample_heap) = 0x106000" by (simp add: KHEAP_START_nat)
  moreover have "sane_layout sample_heap" by (simp add: sane_layout_def k)
  ultimately show ?thesis using kheap_init_establishes [of sample_heap] by simp
qed

text \<open>
  C2: \<^verbatim>\<open>kmalloc\<close> returns, and refines first fit on the list of segments: the pointer and the new
  heap are those of \<^term>\<open>first_fit\<close> for the size rounded up to 16.
\<close>

theorem kmalloc_refines_first_fit:
  assumes "heap_ok s bs" "sz \<noteq> 0" "first_fit (unat (align16 sz)) bs = (r, bs')"
  shows "\<exists>t. kmalloc sz s = Some (of_nat r, t) \<and> heap_ok t bs'"
  using kmalloc_spec [OF assms(1,2)] assms(3) by simp

theorem kmalloc_refines_first_fit_witness:
  "\<exists>t. kmalloc 100 sample_heap = Some (0x106018, t) \<and>
     heap_ok t [(0x106000, 112, False), (0x106088, 0x3FFF60, True)]"
proof -
  have "unat (align16 100) = 112" by (simp add: align16_def)
  then have "first_fit (unat (align16 100)) [(0x106000, 0x3FFFE8, True)] =
      (0x106018, [(0x106000, 112, False), (0x106088, 0x3FFF60, True)])" by simp
  from kmalloc_refines_first_fit [OF sample_heap_ok _ this] show ?thesis by simp
qed

text \<open>
  C3: a pointer \<^verbatim>\<open>kmalloc\<close> returns is the start of a region of at least the requested size
  that does not overlap any region in use; nothing else becomes or ceases to be in use.
\<close>

theorem kmalloc_fresh_region:
  assumes "heap_ok s bs" "kmalloc n s = Some (p, t)" "p \<noteq> 0" "no_wrap n"
  shows "\<exists>bs' k. heap_ok t bs' \<and> unat n \<le> k \<and> live bs' = insert (unat p, k) (live bs) \<and>
    (\<forall>(x, j) \<in> live bs. x + j \<le> unat p \<or> unat p + k \<le> x)"
  using assms by (rule kheap.alloc_fresh)

theorem kmalloc_fresh_region_witness:
  "\<exists>t bs' k. kmalloc 100 sample_heap = Some (0x106018, t) \<and> heap_ok t bs' \<and> 100 \<le> k \<and>
     live bs' = {(0x106018, k)}"
proof -
  have a: "unat (align16 100) = 112" by (simp add: align16_def)
  from kmalloc_spec [OF sample_heap_ok, of 100] a obtain t where
    t: "kmalloc 100 sample_heap = Some (0x106018, t)" by auto
  have "no_wrap 100" by (simp add: no_wrap_def)
  from kmalloc_fresh_region [OF sample_heap_ok t _ this] t show ?thesis by (auto simp: live_def)
qed

text \<open>
  C4: \<^verbatim>\<open>kfree\<close> of a live region returns, removes exactly that region from those in use, and
  leaves no two neighbouring free blocks.
\<close>

theorem kfree_releases:
  assumes "heap_ok s bs" "p \<noteq> 0" "(unat p, n) \<in> live bs"
  shows "\<exists>t bs'. kfree p s = Some t \<and> heap_ok t bs' \<and> merged bs' \<and> live bs' = live bs - {(unat p, n)}"
proof -
  from kfree_returns [OF assms] obtain t bs' where
    t: "kfree p s = Some t" "live bs' = live bs - {(unat p, n)}" "heap_ok t bs'" by blast
  let ?c = "coalesce (mark_free (unat (p - SIZEOF_BLOCK)) bs)"
  from kfree_spec [OF assms(1,2)] t(1) have c: "heap_ok t ?c" by auto
  then have "?c = bs'" using t(3) heap_list_unique unfolding heap_ok_def by blast
  with c t merged_coalesce show ?thesis by metis
qed


theorem kfree_releases_witness:
  "\<exists>s bs. (unat (0x106018 :: u64), 112) \<in> live bs \<and>
     (\<exists>t bs'. kfree 0x106018 s = Some (t :: kheap) \<and> heap_ok t bs' \<and> merged bs' \<and> live bs' = {})"
proof -
  have a: "unat (align16 100) = 112" by (simp add: align16_def)
  from kmalloc_spec [OF sample_heap_ok, of 100] a obtain s where
    s: "heap_ok (s :: kheap) [(0x106000, 112, False), (0x106088, 0x3FFF60, True)]" by auto
  have l: "live [(0x106000, 112, False), (0x106088, 0x3FFF60, True)] = {(unat (0x106018 :: u64), 112)}"
    by (simp add: live_Cons)
  with kfree_releases [OF s, of "0x106018" 112] show ?thesis by fastforce
qed

text \<open>
  Allocating a block and freeing it again gives back the very same list of segments,
  when no two neighbours were free before.
\<close>

theorem kmalloc_kfree_roundtrip:
  assumes "heap_ok s bs" "merged bs" "kmalloc n s = Some (p, t)" "p \<noteq> 0"
  shows "\<exists>u. kfree p t = Some u \<and> heap_ok u bs"
proof -
  let ?f = "first_fit (unat (align16 n)) bs"
  have n: "n \<noteq> 0" using assms(3,4) by (auto simp: kmalloc_def)
  from kmalloc_spec [OF assms(1) n] assms(3) have p: "p = of_nat (fst ?f)" and t: "heap_ok t (snd ?f)"
    by auto
  have r: "fst ?f \<noteq> 0"
  proof
    assume "fst ?f = 0"
    then have "p = 0" using p by simp
    with assms(4) show False ..
  qed
  note tiled = heap_ok_tiled [OF assms(1)]
  from first_fit_live [OF tiled(1) r] tiled(2) have "fst ?f < 2 ^ 64" "24 \<le> fst ?f" by auto
  then have "unat (p - SIZEOF_BLOCK) = fst ?f - 24"
    unfolding p by (subst unat_sub) (simp_all add: word_le_nat_alt unat_of_nat_small)
  then show ?thesis
    using kfree_spec [OF t assms(4)] first_fit_release [OF tiled(1) assms(2) r] by simp
qed

theorem kmalloc_kfree_roundtrip_witness:
  "\<exists>t u. kmalloc 100 sample_heap = Some (0x106018, t) \<and> kfree 0x106018 t = Some u \<and>
     heap_ok u [(0x106000, 0x3FFFE8, True)]"
proof -
  have a: "unat (align16 100) = 112" by (simp add: align16_def)
  from kmalloc_spec [OF sample_heap_ok, of 100] a obtain t where
    t: "kmalloc 100 sample_heap = Some (0x106018, t)" by auto
  from kmalloc_kfree_roundtrip [OF sample_heap_ok _ t] t show ?thesis by auto
qed

text \<open>
  A request within 15 bytes of the largest 64-bit size wraps to 0 when it is rounded up;
  on a fresh heap \<^verbatim>\<open>kmalloc\<close> then returns a valid pointer to a region of no bytes at all.
\<close>

theorem kmalloc_huge_request_wraps:
  assumes "sane_layout s" "\<not> no_wrap n"
  shows "\<exists>t. kmalloc n (kheap_init s) = Some (KHEAP_START s + 24, t) \<and>
    heap_ok t [(unat (KHEAP_START s), 0, False), (unat (KHEAP_START s) + 24, 0x400000 - 48, True)]"
proof -
  have "unat n + 15 \<ge> 2 ^ 64" using assms(2) by (simp add: no_wrap_def)
  then have n: "n \<noteq> 0" by auto
  have "align16 n = 0"
  proof -
    have lt: "unat n < 2 ^ 64" using unsigned_less [of n] by simp
    have "unat (n + 15) = (unat n + 15) mod 2 ^ 64" by (simp add: unat_word_ariths)
    also have "\<dots> = unat n + 15 - 2 ^ 64"
      using \<open>unat n + 15 \<ge> 2 ^ 64\<close> lt by (simp add: le_mod_geq)
    finally have "unat (n + 15) < 16" using lt by simp
    then have "unat ((n + 15) AND NOT (mask 4)) = 0" by (simp only: unat_and_not_mask) simp
    then have "(n + 15) AND NOT (mask 4) = 0" by (simp only: unat_eq_zero)
    then show ?thesis by (simp add: align16_def mask_eq_exp_minus_1)
  qed
  then have "first_fit (unat (align16 n)) (fresh_segs s) = (unat (KHEAP_START s) + 24,
      [(unat (KHEAP_START s), 0, False), (unat (KHEAP_START s) + 24, 0x400000 - 48, True)])"
    by (simp add: fresh_segs_def)
  moreover have "of_nat (unat (KHEAP_START s) + 24) = KHEAP_START s + 24" by simp
  ultimately show ?thesis using kmalloc_spec [OF kheap_init_ok [OF assms(1)] n]
    by (simp del: of_nat_add)
qed

theorem kmalloc_huge_request_wraps_witness:
  "\<exists>t. kmalloc 0xFFFFFFFFFFFFFFFF (kheap_init sample_heap) = Some (KHEAP_START sample_heap + 24, t)"
proof -
  have "kernel_end sample_heap = 0x105800"
    by (simp add: sample_heap_def kheap_init_def Let_def console.defs)
  then have "sane_layout sample_heap" by (simp add: sane_layout_def)
  moreover have "\<not> no_wrap 0xFFFFFFFFFFFFFFFF" by (simp add: no_wrap_def)
  ultimately show ?thesis using kmalloc_huge_request_wraps by blast
qed

text \<open>
  The header is 24 bytes long, so the first block handed out is not aligned to 16 bytes:
  its address is 8 modulo 16.
\<close>

theorem kmalloc_first_block_misaligned:
  assumes "sane_layout s" "0 < unat n" "unat n \<le> 0x100000"
  shows "\<exists>p t. kmalloc n (kheap_init s) = Some (p, t) \<and> p \<noteq> 0 \<and> unat p mod 16 = 8"
proof -
  note start = sane_layout_start [OF assms(1)]
  have nw: "no_wrap n" using assms(3) by (simp add: no_wrap_def)
  have "unat (align16 n) < unat n + 16"
    using align_up_less [of 16 "unat n"] by (simp add: align16_nat [OF nw])
  then have "fst (first_fit (unat (align16 n)) (fresh_segs s)) = unat (KHEAP_START s) + 24"
    using assms(3) by (simp add: fresh_segs_def)
  moreover have "n \<noteq> 0" using assms(2) by auto
  ultimately have "\<exists>t. kmalloc n (kheap_init s) = Some (of_nat (unat (KHEAP_START s) + 24), t)"
    using kmalloc_spec [OF kheap_init_ok [OF assms(1)]] by metis
  moreover have u: "unat (of_nat (unat (KHEAP_START s) + 24) :: u64) = unat (KHEAP_START s) + 24"
    using start(2) by (intro unat_of_nat_small) simp
  moreover have "(unat (KHEAP_START s) + 24) mod 16 = 8"
  proof -
    obtain k where "unat (KHEAP_START s) = 0x1000 * k" using start(3) by (auto simp: mod_eq_0_iff_dvd)
    then have "unat (KHEAP_START s) + 24 = 8 + 16 * (256 * k + 1)" by simp
    then show ?thesis by (simp only: mod_mult_self2) simp
  qed
  moreover have "(of_nat (unat (KHEAP_START s) + 24) :: u64) \<noteq> 0" using u by (metis add_is_0 unat_0 zero_neq_numeral)
  ultimately show ?thesis by metis
qed

theorem kmalloc_first_block_misaligned_witness:
  "\<exists>p t. kmalloc 64 (kheap_init sample_heap) = Some (p, t) \<and> p \<noteq> 0 \<and> unat p mod 16 = 8"
proof -
  have "kernel_end sample_heap = 0x105800"
    by (simp add: sample_heap_def kheap_init_def Let_def console.defs)
  then have "sane_layout sample_heap" by (simp add: sane_layout_def)
  from kmalloc_first_block_misaligned [OF this, of 64] show ?thesis by simp
qed

end
