(* ===== verification/Mm.thy ===== *)
theory Mm
  imports Kheap
begin

text \<open>
  Physical page allocation and paging, \<^verbatim>\<open>mm/mm.c\<close>.  Page tables live in physical memory that
  the kernel reaches through the identity mapping set up by \<^verbatim>\<open>boot/boot.asm\<close>: \<open>pmem\<close> maps
  the address of an eight-byte table entry to its value, and \<^verbatim>\<open>tbl[i]\<close> is the entry at
  \<open>tbl + 8 * i\<close>.  \<open>boot_pml4\<close> is the address of the symbol of that name.
\<close>

record mm = kheap +
  phys_bitmap :: "u64 \<Rightarrow> u8"
  pmem :: "u64 \<Rightarrow> u64"
  boot_pml4 :: u64

abbreviation (input) "PAGE_SIZE \<equiv> (0x1000 :: u64)"
abbreviation (input) "USER_STACK_TOP \<equiv> (0x7FFFF0000000 :: u64)"
abbreviation (input) "PTE_PRESENT \<equiv> (1 :: u64)"
abbreviation (input) "PTE_WRITABLE \<equiv> (2 :: u64)"
abbreviation (input) "PTE_USER \<equiv> (4 :: u64)"
abbreviation (input) "PTE_HUGE \<equiv> (0x80 :: u64)"
abbreviation (input) "PTE_ADDR_MASK \<equiv> (0x000FFFFFFFFFF000 :: u64)"
abbreviation (input) "MAX_PHYS_PAGES \<equiv> (0x8000 :: u64)"

section \<open>The physical page bitmap\<close>

definition bitmap_set :: "u64 \<Rightarrow> (u64 \<Rightarrow> u8) \<Rightarrow> (u64 \<Rightarrow> u8)" where
  "bitmap_set i bm = bm(i div 8 := bm (i div 8) OR push_bit (unat (i mod 8)) 1)"

definition bitmap_clear :: "u64 \<Rightarrow> (u64 \<Rightarrow> u8) \<Rightarrow> (u64 \<Rightarrow> u8)" where
  "bitmap_clear i bm = bm(i div 8 := bm (i div 8) AND NOT (push_bit (unat (i mod 8)) 1))"

definition bitmap_test :: "u64 \<Rightarrow> (u64 \<Rightarrow> u8) \<Rightarrow> bool" where
  "bitmap_test i bm \<longleftrightarrow> bm (i div 8) AND push_bit (unat (i mod 8)) 1 \<noteq> 0"

function find_free_from :: "u64 \<Rightarrow> (u64 \<Rightarrow> u8) \<Rightarrow> u64" where
  "find_free_from i bm =
     (if i < MAX_PHYS_PAGES then (if \<not> bitmap_test i bm then i else find_free_from (i + 1) bm) else - 1)"
  by pat_completeness auto
termination
proof (relation "measure (\<lambda>(i, bm). 0x8000 - unat i)")
  fix i :: u64 and bm :: "u64 \<Rightarrow> u8"
  assume "i < MAX_PHYS_PAGES" "\<not> \<not> bitmap_test i bm"
  then show "((i + 1, bm), i, bm) \<in> measure (\<lambda>(i, bm). 0x8000 - unat i)"
    by (simp add: word_less_nat_alt unat_add_small)
qed simp

declare find_free_from.simps [simp del]

definition find_free_page :: "'a mm_scheme \<Rightarrow> u64" where
  "find_free_page s = find_free_from 0 (phys_bitmap s)"

definition pmm_alloc_page :: "'a mm_scheme \<Rightarrow> u64 \<times> 'a mm_scheme" where
  "pmm_alloc_page s =
     (let idx = find_free_page s
      in if idx = - 1 then (0, console_puts ''[PMM] Out of physical memory\<newline>'' s)
         else (idx * PAGE_SIZE, s\<lparr>phys_bitmap := bitmap_set idx (phys_bitmap s)\<rparr>))"

definition pmm_free_page :: "u64 \<Rightarrow> 'a mm_scheme \<Rightarrow> 'a mm_scheme" where
  "pmm_free_page addr s =
     (if addr AND (PAGE_SIZE - 1) \<noteq> 0 then s
      else (let idx = addr div PAGE_SIZE
            in if MAX_PHYS_PAGES \<le> idx then s
               else s\<lparr>phys_bitmap := bitmap_clear idx (phys_bitmap s)\<rparr>))"

section \<open>Page tables\<close>

definition pml4_index :: "u64 \<Rightarrow> u64" where
  "pml4_index addr = drop_bit 39 addr AND 0x1FF"

definition pdpt_index :: "u64 \<Rightarrow> u64" where
  "pdpt_index addr = drop_bit 30 addr AND 0x1FF"

definition pd_index :: "u64 \<Rightarrow> u64" where
  "pd_index addr = drop_bit 21 addr AND 0x1FF"

definition pt_index :: "u64 \<Rightarrow> u64" where
  "pt_index addr = drop_bit 12 addr AND 0x1FF"

text \<open>The address of entry \<open>i\<close> of the table at \<open>tbl\<close>.\<close>

definition cell :: "u64 \<Rightarrow> u64 \<Rightarrow> u64" where
  "cell tbl i = tbl + 8 * i"

definition zero_page :: "u64 \<Rightarrow> (u64 \<Rightarrow> u64) \<Rightarrow> (u64 \<Rightarrow> u64)" where
  "zero_page tbl m = fold (\<lambda>i m. m(cell tbl (of_nat i) := 0)) [0..<512] m"

definition alloc_table :: "'a mm_scheme \<Rightarrow> u64 \<times> 'a mm_scheme" where
  "alloc_table s =
     (case pmm_alloc_page s of (phys, s1) \<Rightarrow>
        if phys = 0 then (0, s1)
        else (phys, s1\<lparr>pmem := zero_page phys (pmem s1)\<rparr>))"

text \<open>
  One level of the walk in \<^verbatim>\<open>mm_map_page\<close>: the table that entry \<open>i\<close> of \<open>tbl\<close> points to,
  allocated when the entry is not present.  The result 0 is the early return.
\<close>

definition next_table :: "u64 \<Rightarrow> u64 \<Rightarrow> u64 \<Rightarrow> 'a mm_scheme \<Rightarrow> u64 \<times> 'a mm_scheme" where
  "next_table tbl i flags s =
     (if pmem s (cell tbl i) AND PTE_PRESENT = 0
      then (case alloc_table s of (t, s1) \<Rightarrow>
              if t = 0 then (0, s1)
              else (t, s1\<lparr>pmem := (pmem s1)(cell tbl i :=
                        ((t OR PTE_PRESENT) OR PTE_WRITABLE) OR (flags AND PTE_USER))\<rparr>))
      else (pmem s (cell tbl i) AND PTE_ADDR_MASK, s))"

text \<open>The last level adds the check for a huge page, which the code makes on absent entries only.\<close>

definition next_pt :: "u64 \<Rightarrow> u64 \<Rightarrow> u64 \<Rightarrow> 'a mm_scheme \<Rightarrow> u64 \<times> 'a mm_scheme" where
  "next_pt tbl i flags s =
     (if pmem s (cell tbl i) AND PTE_PRESENT = 0 \<and> pmem s (cell tbl i) AND PTE_HUGE \<noteq> 0
      then (0, console_puts ''[MM] ERROR: Cannot map over huge page\<newline>'' s)
      else next_table tbl i flags s)"

definition mm_map_page :: "u64 \<Rightarrow> u64 \<Rightarrow> u64 \<Rightarrow> u64 \<Rightarrow> 'a mm_scheme \<Rightarrow> 'a mm_scheme" where
  "mm_map_page pml4 virt phys flags s =
     (if pml4 = 0 then s
      else if virt AND (PAGE_SIZE - 1) \<noteq> 0 \<or> phys AND (PAGE_SIZE - 1) \<noteq> 0 then s
      else case next_table pml4 (pml4_index virt) flags s of (pdpt, s1) \<Rightarrow>
        if pdpt = 0 \<and> pmem s (cell pml4 (pml4_index virt)) AND PTE_PRESENT = 0 then s1
        else case next_table pdpt (pdpt_index virt) flags s1 of (pd, s2) \<Rightarrow>
          if pd = 0 \<and> pmem s1 (cell pdpt (pdpt_index virt)) AND PTE_PRESENT = 0 then s2
          else case next_pt pd (pd_index virt) flags s2 of (pt, s3) \<Rightarrow>
            if pt = 0 \<and> pmem s2 (cell pd (pd_index virt)) AND PTE_PRESENT = 0 then s3
            else emit (Invlpg virt)
                   (s3\<lparr>pmem := (pmem s3)(cell pt (pt_index virt) := (phys OR flags) OR PTE_PRESENT)\<rparr>))"

definition mm_get_kernel_pml4 :: "'a mm_scheme \<Rightarrow> u64" where
  "mm_get_kernel_pml4 s = boot_pml4 s"

definition mm_create_user_pml4 :: "'a mm_scheme \<Rightarrow> u64" where
  "mm_create_user_pml4 s = boot_pml4 s"

section \<open>The boot page tables\<close>

text \<open>The page tables that \<^verbatim>\<open>boot/boot.asm\<close> builds, with the PDPT and the PD right after the PML4.\<close>

definition boot_clear :: "u64 \<Rightarrow> (u64 \<Rightarrow> u64) \<Rightarrow> (u64 \<Rightarrow> u64)" where
  "boot_clear pml4 m = fold (\<lambda>i m. m(cell pml4 (of_nat i) := 0)) [0..<2048] m"

definition boot_paging :: "u64 \<Rightarrow> (u64 \<Rightarrow> u64) \<Rightarrow> (u64 \<Rightarrow> u64)" where
  "boot_paging pml4 m =
     (let pdpt = pml4 + 0x1000; pd = pml4 + 0x2000
      in (boot_clear pml4 m)
           (cell pml4 0 := pdpt OR 7, cell pdpt 0 := pd OR 7, cell pd 0 := 0x87, cell pd 1 := 0x200087))"

section \<open>Initialisation\<close>

definition mark_low_pages :: "(u64 \<Rightarrow> u8) \<Rightarrow> (u64 \<Rightarrow> u8)" where
  "mark_low_pages bm = fold (\<lambda>i. bitmap_set (of_nat i)) [0..<512] bm"

definition mm_map_user_stack :: "'a mm_scheme \<Rightarrow> 'a mm_scheme" where
  "mm_map_user_stack s =
     (case pmm_alloc_page (console_puts ''[MM] Mapping user stack page...\<newline>'' s) of (usp_phys, s1) \<Rightarrow>
        if usp_phys \<noteq> 0
        then (let usp_va = USER_STACK_TOP - PAGE_SIZE;
                  s2 = mm_map_page (mm_get_kernel_pml4 s1) usp_va usp_phys
                         ((PTE_PRESENT OR PTE_WRITABLE) OR PTE_USER) s1
              in console_puts ''\<newline>'' (console_put_hex usp_va
                   (console_puts ''     User stack mapped at: '' s2)))
        else console_puts ''     Out of memory for user stack\<newline>'' s1)"

definition mm_init :: "'a mm_scheme \<Rightarrow> 'a mm_scheme" where
  "mm_init s =
     (let s1 = console_puts ''[MM] Initializing memory...\<newline>'' s;
          s2 = s1\<lparr>phys_bitmap := mark_low_pages (phys_bitmap s1)\<rparr>;
          s3 = console_puts ''\<newline>'' (console_put_dec MAX_PHYS_PAGES (console_puts ''     Physical pages: '' s2))
      in console_puts ''[MM] Ready\<newline>'' (mm_map_user_stack (kheap_init s3)))"

section \<open>Frames\<close>

lemma mm_field_cong:
  fixes s t :: "'a mm_scheme"
  assumes "kheap.more t = kheap.more s"
  shows "phys_bitmap t = phys_bitmap s" "pmem t = pmem s" "boot_pml4 t = boot_pml4 s"
    "mm.more t = mm.more s"
  using assms by (cases s; cases t; simp)+

lemmas mm_kheap_frames [simp] =
  kheap_frames [THEN mm_field_cong(1)] kheap_frames [THEN mm_field_cong(2)]
  kheap_frames [THEN mm_field_cong(3)] kheap_frames [THEN mm_field_cong(4)]

lemma pmm_frames [simp]:
  "mm.more (snd (pmm_alloc_page s)) = mm.more s" "boot_pml4 (snd (pmm_alloc_page s)) = boot_pml4 s"
  "pmem (snd (pmm_alloc_page s)) = pmem s"
  "mm.more (pmm_free_page a s) = mm.more s" "boot_pml4 (pmm_free_page a s) = boot_pml4 s"
  "pmem (pmm_free_page a s) = pmem s"
  by (simp_all add: pmm_alloc_page_def pmm_free_page_def Let_def)

lemma alloc_table_frames [simp]:
  "mm.more (snd (alloc_table s)) = mm.more s" "boot_pml4 (snd (alloc_table s)) = boot_pml4 s"
  by (simp_all add: alloc_table_def split_def)

lemma next_table_frames [simp]:
  "mm.more (snd (next_table t i f s)) = mm.more s" "boot_pml4 (snd (next_table t i f s)) = boot_pml4 s"
  "mm.more (snd (next_pt t i f s)) = mm.more s" "boot_pml4 (snd (next_pt t i f s)) = boot_pml4 s"
  by (simp_all add: next_table_def next_pt_def split_def)

lemma mm_map_page_frames [simp]:
  "mm.more (mm_map_page p v a f s) = mm.more s" "boot_pml4 (mm_map_page p v a f s) = boot_pml4 s"
  by (simp_all add: mm_map_page_def split_def)

lemma mm_init_frames [simp]:
  "mm.more (mm_init s) = mm.more s" "boot_pml4 (mm_init s) = boot_pml4 s"
  by (simp_all add: mm_init_def mm_map_user_stack_def Let_def split_def)

lemmas mm_frames = kheap_frames [THEN mm_field_cong(4)] pmm_frames(1,4) mm_map_page_frames(1) mm_init_frames(1)

end
