(* ===== verification/Mm_Props.thy ===== *)
theory Mm_Props
  imports Mm Kheap_Props "HOL-Library.Sublist"
begin

text \<open>
  Correctness of \<^verbatim>\<open>mm/mm.c\<close>.  The page bitmap is read as the set \<open>free_pages\<close>; the page
  tables are read as a tree: \<open>table_at\<close> follows a path of indices, \<open>tree_ok\<close> says that distinct
  paths lead to distinct pages that the allocator does not own, and \<open>mapping\<close> is the last-level
  entry of a virtual address.  \<open>mm_map_page\<close> is then shown to update exactly one point of
  \<open>mapping\<close>, and the boot tables and \<open>mm_init\<close> are shown to establish the invariant.
\<close>

section \<open>Specification\<close>

definition free_pages :: "'a mm_scheme \<Rightarrow> nat set" where
  "free_pages s = {i. i < 0x8000 \<and> \<not> bitmap_test (of_nat i) (phys_bitmap s)}"

definition page_addr :: "nat \<Rightarrow> u64" where
  "page_addr i = of_nat i * PAGE_SIZE"

definition page_aligned :: "u64 \<Rightarrow> bool" where
  "page_aligned a \<longleftrightarrow> a AND 0xFFF = 0"

text \<open>An entry that points to a lower table: present and not a huge page.\<close>

definition links :: "u64 \<Rightarrow> bool" where
  "links e \<longleftrightarrow> e AND PTE_PRESENT \<noteq> 0 \<and> e AND PTE_HUGE = 0"

text \<open>The table that a path of indices leads to.\<close>

fun table_at :: "(u64 \<Rightarrow> u64) \<Rightarrow> u64 \<Rightarrow> u64 list \<Rightarrow> u64 option" where
  "table_at m t [] = Some t"
| "table_at m t (i # p) =
     (if links (m (cell t i)) then table_at m (m (cell t i) AND PTE_ADDR_MASK) p else None)"

text \<open>Paths to tables: at most three indices below 512.\<close>

definition table_path :: "u64 list \<Rightarrow> bool" where
  "table_path p \<longleftrightarrow> length p \<le> 3 \<and> (\<forall>i \<in> set p. i < 512)"

text \<open>The tables form a tree of distinct pages, none of which the page allocator may hand out.\<close>

definition tree_ok :: "(u64 \<Rightarrow> u64) \<Rightarrow> u64 \<Rightarrow> nat set \<Rightarrow> bool" where
  "tree_ok m r free \<longleftrightarrow>
     (\<forall>p t. table_path p \<longrightarrow> table_at m r p = Some t \<longrightarrow>
        page_aligned t \<and> t \<noteq> 0 \<and> unat t div 0x1000 \<notin> free) \<and>
     (\<forall>p q t. table_path p \<longrightarrow> table_path q \<longrightarrow> table_at m r p = Some t \<longrightarrow> table_at m r q = Some t \<longrightarrow> p = q)"

text \<open>Entry \<open>i\<close> of the table at path \<open>p\<close>, 0 when there is no such table.\<close>

definition entry_at :: "(u64 \<Rightarrow> u64) \<Rightarrow> u64 \<Rightarrow> u64 list \<Rightarrow> u64 \<Rightarrow> u64" where
  "entry_at m r p i = (case table_at m r p of None \<Rightarrow> 0 | Some t \<Rightarrow> m (cell t i))"

text \<open>The entry that the code builds for a new table.\<close>

abbreviation table_entry :: "u64 \<Rightarrow> u64 \<Rightarrow> u64" where
  "table_entry t flags \<equiv> ((t OR PTE_PRESENT) OR PTE_WRITABLE) OR (flags AND PTE_USER)"

definition pt_ok :: "u64 \<Rightarrow> 'a mm_scheme \<Rightarrow> bool" where
  "pt_ok r s \<longleftrightarrow> tree_ok (pmem s) r (free_pages s) \<and> 0 \<notin> free_pages s"

definition linked :: "u64 \<Rightarrow> u64 list \<Rightarrow> u64 \<Rightarrow> 'a mm_scheme \<Rightarrow> 'a mm_scheme \<Rightarrow> bool" where
  "linked r p u s s' \<longleftrightarrow> pt_ok r s' \<and>
     (\<forall>q. table_path q \<longrightarrow> table_at (pmem s') r q = (if q = p then Some u else table_at (pmem s) r q)) \<and>
     (\<forall>q j. table_path q \<longrightarrow> j < 512 \<longrightarrow> q @ [j] \<noteq> p \<longrightarrow>
        entry_at (pmem s') r q j = entry_at (pmem s) r q j) \<and>
     card (free_pages s) = card (free_pages s') + (if table_at (pmem s) r p = None then 1 else 0) \<and>
     free_pages s' \<subseteq> free_pages s"

text \<open>Only free pages are taken, and no entry above the last level becomes a huge page.\<close>

definition grows :: "u64 \<Rightarrow> 'a mm_scheme \<Rightarrow> 'a mm_scheme \<Rightarrow> bool" where
  "grows r s s' \<longleftrightarrow> free_pages s' \<subseteq> free_pages s \<and>
     (\<forall>q j. table_path (q @ [j]) \<longrightarrow> entry_at (pmem s) r q j AND PTE_HUGE = 0 \<longrightarrow>
        entry_at (pmem s') r q j AND PTE_HUGE = 0)"

definition vpath :: "u64 \<Rightarrow> u64 list" where
  "vpath v = [pml4_index v, pdpt_index v, pd_index v]"

text \<open>The last-level entry that translates a virtual address.\<close>

definition mapping :: "(u64 \<Rightarrow> u64) \<Rightarrow> u64 \<Rightarrow> u64 \<Rightarrow> u64" where
  "mapping m r v = entry_at m r (vpath v) (pt_index v)"

definition same_page :: "u64 \<Rightarrow> u64 \<Rightarrow> bool" where
  "same_page v w \<longleftrightarrow> vpath v = vpath w \<and> pt_index v = pt_index w"

definition no_huge :: "(u64 \<Rightarrow> u64) \<Rightarrow> u64 \<Rightarrow> u64 \<Rightarrow> bool" where
  "no_huge m r v \<longleftrightarrow> (\<forall>k < 3. entry_at m r (take k (vpath v)) (vpath v ! k) AND PTE_HUGE = 0)"

text \<open>How many tables are missing on the way to \<open>v\<close>.\<close>

definition missing :: "(u64 \<Rightarrow> u64) \<Rightarrow> u64 \<Rightarrow> u64 \<Rightarrow> nat" where
  "missing m r v = (\<Sum>k = 1..3. if table_at m r (take k (vpath v)) = None then 1 else 0)"

text \<open>The state of the walk after its tables up to path \<open>p\<close> exist, compared with the start.\<close>

definition walked :: "u64 \<Rightarrow> u64 list \<Rightarrow> u64 \<Rightarrow> 'a mm_scheme \<Rightarrow> 'a mm_scheme \<Rightarrow> bool" where
  "walked r p u s s' \<longleftrightarrow> pt_ok r s' \<and> grows r s s' \<and> table_at (pmem s') r p = Some u \<and>
     (\<forall>q. table_path q \<longrightarrow> length p < length q \<longrightarrow> table_at (pmem s') r q = table_at (pmem s) r q) \<and>
     (\<forall>q j. table_path q \<longrightarrow> j < 512 \<longrightarrow> length p \<le> length q \<longrightarrow>
        entry_at (pmem s') r q j = entry_at (pmem s) r q j)"

definition boot_layout :: "u64 \<Rightarrow> bool" where
  "boot_layout pml4 \<longleftrightarrow> page_aligned pml4 \<and> 0x100000 \<le> pml4 \<and> pml4 + 0x4000 \<le> 0x200000 \<and> pml4 < 0x200000"

text \<open>The translation of a virtual address by the processor's four-level page walk, with 2 MiB pages.\<close>

definition translate :: "(u64 \<Rightarrow> u64) \<Rightarrow> u64 \<Rightarrow> u64 \<Rightarrow> u64 option" where
  "translate m r v =
     (let e4 = m (cell r (pml4_index v));
          e3 = m (cell (e4 AND PTE_ADDR_MASK) (pdpt_index v));
          e2 = m (cell (e3 AND PTE_ADDR_MASK) (pd_index v));
          e1 = m (cell (e2 AND PTE_ADDR_MASK) (pt_index v))
      in if e4 AND PTE_PRESENT = 0 \<or> e3 AND PTE_PRESENT = 0 \<or> e2 AND PTE_PRESENT = 0 then None
         else if e2 AND PTE_HUGE \<noteq> 0 then Some ((e2 AND 0x000FFFFFFFE00000) OR (v AND 0x1FFFFF))
         else if e1 AND PTE_PRESENT = 0 then None
         else Some ((e1 AND PTE_ADDR_MASK) OR (v AND 0xFFF)))"

text \<open>The state that the boot code hands to \<^verbatim>\<open>mm_init\<close>: its page tables and a cleared bitmap.\<close>

definition boot_state :: "'a mm_scheme \<Rightarrow> bool" where
  "boot_state s \<longleftrightarrow> boot_layout (boot_pml4 s) \<and> (\<exists>m. pmem s = boot_paging (boot_pml4 s) m) \<and> phys_bitmap s = (\<lambda>_. 0)"

definition pages_from :: "nat \<Rightarrow> nat set" where
  "pages_from n = {i. n \<le> i \<and> i < 0x8000}"

section \<open>The free pages\<close>

locale page_pool =
  fixes pool :: "'s \<Rightarrow> nat set"
    and alloc :: "'s \<Rightarrow> u64 \<times> 's"
    and release :: "u64 \<Rightarrow> 's \<Rightarrow> 's"
  assumes finite_pool: "finite (pool s)"
    and alloc_none: "pool s = {} \<Longrightarrow> fst (alloc s) = 0 \<and> pool (snd (alloc s)) = {}"
    and alloc_least: "pool s \<noteq> {} \<Longrightarrow>
      fst (alloc s) = page_addr (Min (pool s)) \<and> pool (snd (alloc s)) = pool s - {Min (pool s)}"
    and release_page: "i < 0x8000 \<Longrightarrow> pool (release (page_addr i) s) = insert i (pool s)"
    and pool_bound: "pool s \<subseteq> {..<0x8000}"
begin

lemma alloc_release: "pool s \<noteq> {} \<Longrightarrow> alloc s = (a, t) \<Longrightarrow> pool (release a t) = pool s"
  using alloc_least [of s] release_page [of "Min (pool s)" t] pool_bound [of s] Min_in [OF finite_pool, of s]
  by auto

lemma alloc_card: "pool s \<noteq> {} \<Longrightarrow> alloc s = (a, t) \<Longrightarrow> card (pool t) = card (pool s) - 1"
  using alloc_least [of s] Min_in [OF finite_pool, of s] by (simp add: finite_pool)

end

lemma bit_index: "unat (i mod 8 :: u64) < 8"
  by (simp add: unat_mod)

lemma bitmap_test_bit: "bitmap_test i bm \<longleftrightarrow> bit (bm (i div 8)) (unat (i mod 8))"
  by (simp add: bitmap_test_def and_exp_eq_0_iff_not_bit)

lemma index_eq: "(i :: u64) = j \<longleftrightarrow> i div 8 = j div 8 \<and> unat (i mod 8) = unat (j mod 8)"
  by (metis word_mod_div_equality word_unat_eq_iff)

lemma bitmap_test_set [simp]: "bitmap_test i (bitmap_set j bm) \<longleftrightarrow> i = j \<or> bitmap_test i bm"
  using bit_index [of i] bit_index [of j] unfolding index_eq [of i j]
  by (auto simp: bitmap_test_bit bitmap_set_def bit_simps)

lemma bitmap_test_clear [simp]: "bitmap_test i (bitmap_clear j bm) \<longleftrightarrow> i \<noteq> j \<and> bitmap_test i bm"
  using bit_index [of i] bit_index [of j] unfolding index_eq [of i j]
  by (auto simp: bitmap_test_bit bitmap_clear_def bit_simps)

lemma find_free_from_spec:
  "find_free_from i bm = k \<Longrightarrow>
   (k = - 1 \<and> (\<forall>j. i \<le> j \<longrightarrow> j < MAX_PHYS_PAGES \<longrightarrow> bitmap_test j bm)) \<or>
   (i \<le> k \<and> k < MAX_PHYS_PAGES \<and> \<not> bitmap_test k bm \<and> (\<forall>j. i \<le> j \<longrightarrow> j < k \<longrightarrow> bitmap_test j bm))"
proof (induction i bm rule: find_free_from.induct)
  case (1 i bm)
  have next_le: "i + 1 \<le> j \<longleftrightarrow> i \<le> j \<and> i \<noteq> j" if "i < MAX_PHYS_PAGES" for j
    using that unat_add_small [of i 1] by (auto simp: word_le_nat_alt word_less_nat_alt word_unat_eq_iff)
  show ?case
  proof (cases "i < MAX_PHYS_PAGES \<and> bitmap_test i bm")
    case True
    then have "find_free_from (i + 1) bm = k" using 1(2) by (simp add: find_free_from.simps [of i])
    from 1(1) [OF _ _ this] True show ?thesis by (auto simp: next_le)
  next
    case False
    then show ?thesis using 1(2) by (auto simp: find_free_from.simps [of i] split: if_splits)
  qed
qed

lemma unat_page [simp]: "i < 0x8000 \<Longrightarrow> unat (of_nat i :: u64) = i"
  by (simp add: unat_of_nat_small)

lemma free_pages_unat: "unat k \<in> free_pages s \<longleftrightarrow> k < MAX_PHYS_PAGES \<and> \<not> bitmap_test k (phys_bitmap s)"
  by (simp add: free_pages_def word_less_nat_alt)

lemma finite_free_pages [simp]: "finite (free_pages s)"
  by (simp add: free_pages_def)

lemma free_pages_bound: "i \<in> free_pages s \<Longrightarrow> i < 0x8000"
  by (simp add: free_pages_def)

lemma find_free_page_cases:
  "if free_pages s = {} then find_free_page s = - 1
   else find_free_page s = of_nat (Min (free_pages s)) \<and> find_free_page s \<noteq> - 1"
proof (cases "find_free_page s = - 1")
  case True
  then have "\<forall>j. j < MAX_PHYS_PAGES \<longrightarrow> bitmap_test j (phys_bitmap s)"
    using find_free_from_spec [of 0 "phys_bitmap s"] unfolding find_free_page_def by fastforce
  then have "free_pages s = {}" by (auto simp: free_pages_def word_less_nat_alt)
  with True show ?thesis by simp
next
  case False
  define k where "k = find_free_page s"
  with False have k: "unat k \<in> free_pages s" and before: "\<And>j. j < k \<Longrightarrow> bitmap_test j (phys_bitmap s)"
    using find_free_from_spec [of 0 "phys_bitmap s" k] by (auto simp: find_free_page_def free_pages_unat)
  have "unat k \<le> i" if "i \<in> free_pages s" for i
    using that before [of "of_nat i"] free_pages_bound [OF that]
    by (fastforce simp: free_pages_def word_less_nat_alt not_le [symmetric])
  with k have "Min (free_pages s) = unat k" by (intro Min_eqI) auto
  with k False show ?thesis by (auto simp: k_def)
qed

lemma page_addr_0 [simp]: "i < 0x8000 \<Longrightarrow> page_addr i = 0 \<longleftrightarrow> i = 0"
  by (simp add: page_addr_def word_unat_eq_iff unat_mult_small)

lemma unat_page_addr: "i < 0x8000 \<Longrightarrow> unat (page_addr i) = i * 0x1000"
  by (simp add: page_addr_def unat_mult_small)

lemma pmm_alloc_page_none: "free_pages s = {} \<Longrightarrow>
  pmm_alloc_page s = (0, console_puts ''[PMM] Out of physical memory\<newline>'' s)"
  using find_free_page_cases [of s] by (simp add: pmm_alloc_page_def)

lemma pmm_alloc_page_some: "free_pages s \<noteq> {} \<Longrightarrow>
  pmm_alloc_page s = (page_addr (Min (free_pages s)),
    s\<lparr>phys_bitmap := bitmap_set (of_nat (Min (free_pages s))) (phys_bitmap s)\<rparr>)"
  using find_free_page_cases [of s] by (auto simp: pmm_alloc_page_def page_addr_def Let_def)

lemma of_nat_page_eq: "i < 0x8000 \<Longrightarrow> j < 0x8000 \<Longrightarrow> (of_nat i :: u64) = of_nat j \<longleftrightarrow> i = j"
  by (rule of_nat_inj_small) simp_all

lemma free_pages_cong: "phys_bitmap t = phys_bitmap s \<Longrightarrow> free_pages t = free_pages s"
  by (simp add: free_pages_def)

lemma free_pages_frames [simp]:
  "free_pages (console_puts cs s) = free_pages s" "free_pages (console_put_hex v s) = free_pages s"
  "free_pages (emit e s) = free_pages s" "free_pages (s\<lparr>pmem := m\<rparr>) = free_pages s"
  by (simp_all add: free_pages_def)

lemma free_pages_set: "i < 0x8000 \<Longrightarrow>
  free_pages (s\<lparr>phys_bitmap := bitmap_set (of_nat i) (phys_bitmap s)\<rparr>) = free_pages s - {i}"
  by (auto simp: free_pages_def of_nat_page_eq)

lemma free_pages_clear: "i < 0x8000 \<Longrightarrow>
  free_pages (s\<lparr>phys_bitmap := bitmap_clear (of_nat i) (phys_bitmap s)\<rparr>) = insert i (free_pages s)"
  by (auto simp: free_pages_def of_nat_page_eq)

lemma pmm_free_page_addr: "i < 0x8000 \<Longrightarrow>
  pmm_free_page (page_addr i) s = s\<lparr>phys_bitmap := bitmap_clear (of_nat i) (phys_bitmap s)\<rparr>"
proof -
  assume i: "i < 0x8000"
  have "unat (page_addr i AND 0xFFF) = 0"
    unfolding mask_12 take_bit_eq_mask [symmetric] by (simp add: unat_take_bit_mod unat_page_addr i)
  then have "page_addr i AND 0xFFF = 0" by (simp add: unat_eq_zero)
  moreover have "page_addr i div PAGE_SIZE = of_nat i"
    by (rule word_unat_eq_iff [THEN iffD2]) (simp add: unat_div unat_page_addr i)
  ultimately show ?thesis using i by (simp add: pmm_free_page_def Let_def word_le_nat_alt)
qed

interpretation pmm: page_pool free_pages pmm_alloc_page pmm_free_page
proof
  fix s :: "'a mm_scheme" and i :: nat
  show "finite (free_pages s)" by simp
  show "free_pages s \<subseteq> {..<0x8000}" using free_pages_bound by auto
  show "free_pages s = {} \<Longrightarrow> fst (pmm_alloc_page s) = 0 \<and> free_pages (snd (pmm_alloc_page s)) = {}"
    by (simp add: pmm_alloc_page_none)
  assume "free_pages s \<noteq> {}"
  then show "fst (pmm_alloc_page s) = page_addr (Min (free_pages s)) \<and>
     free_pages (snd (pmm_alloc_page s)) = free_pages s - {Min (free_pages s)}"
    by (simp add: pmm_alloc_page_some free_pages_set free_pages_bound [OF Min_in])
next
  fix s :: "'a mm_scheme" and i :: nat
  assume "i < 0x8000"
  then show "free_pages (pmm_free_page (page_addr i) s) = insert i (free_pages s)"
    by (simp add: pmm_free_page_addr free_pages_clear)
qed

section \<open>Page tables as a tree\<close>

lemma table_at_snoc:
  "table_at m r (p @ [i]) =
   (case table_at m r p of None \<Rightarrow> None
    | Some t \<Rightarrow> if links (m (cell t i)) then Some (m (cell t i) AND PTE_ADDR_MASK) else None)"
  by (induction p arbitrary: r) auto

declare table_at.simps(2) [simp del]

lemma table_path_snoc: "table_path (p @ [i]) \<longleftrightarrow> length p < 3 \<and> i < 512 \<and> table_path p"
  by (auto simp: table_path_def)

lemma aligned_dvd: "page_aligned a \<longleftrightarrow> 0x1000 dvd unat a"
proof -
  have "page_aligned a \<longleftrightarrow> unat (take_bit 12 a) = 0"
    unfolding page_aligned_def mask_12 take_bit_eq_mask unat_eq_zero ..
  then show ?thesis by (simp add: unat_take_bit_mod dvd_eq_mod_eq_0)
qed

lemma unat_cell:
  assumes "page_aligned t" "i < 512"
  shows "unat (cell t i) = unat t + 8 * unat i"
proof -
  from assms(1) obtain k where k: "unat t = 0x1000 * k" by (auto simp: aligned_dvd)
  have "unat t < 2 ^ 64" using unsigned_less [of t] by simp
  with k have "unat t + 0x1000 \<le> 2 ^ 64" by simp
  moreover have "unat i < 512" using assms(2) by (simp add: word_less_nat_alt)
  moreover from this have "unat (8 * i) = 8 * unat i" by (simp add: unat_mult_small)
  ultimately show ?thesis unfolding cell_def by (subst unat_add_small) simp_all
qed

lemma table_cell_inj:
  assumes "page_aligned t" "i < 512" "page_aligned u" "j < 512"
  shows "cell t i = cell u j \<longleftrightarrow> t = u \<and> i = j"
proof
  assume "cell t i = cell u j"
  then have eq: "unat t + 8 * unat i = unat u + 8 * unat j" using assms by (metis unat_cell)
  from assms obtain k l where kl: "unat t = 0x1000 * k" "unat u = 0x1000 * l"
    by (metis aligned_dvd dvdE)
  have "8 * unat i < 0x1000" "8 * unat j < 0x1000" using assms by (simp_all add: word_less_nat_alt)
  with eq kl have "k = l \<and> 8 * unat i = 8 * unat j"
    by (metis row_col_inj mult.commute)
  with kl show "t = u \<and> i = j" by (simp add: word_unat_eq_iff)
qed simp

lemma cell_page: "page_aligned t \<Longrightarrow> i < 512 \<Longrightarrow> unat (cell t i) div 0x1000 = unat t div 0x1000"
  by (auto simp: unat_cell aligned_dvd word_less_nat_alt)

section \<open>What a store does to the tree\<close>

lemma table_at_cong:
  assumes "\<And>q i t. table_path (q @ [i]) \<Longrightarrow> prefix (q @ [i]) p \<Longrightarrow> table_at m r q = Some t \<Longrightarrow> m' (cell t i) = m (cell t i)"
    and "table_path p"
  shows "table_at m' r p = table_at m r p"
  using assms
proof (induction p rule: rev_induct)
  case (snoc i p)
  have "table_at m' r p = table_at m r p"
    using snoc.prems by (intro snoc.IH) (auto simp: table_path_snoc)
  moreover have "m' (cell t i) = m (cell t i)" if "table_at m r p = Some t" for t
    using snoc.prems that by auto
  ultimately show ?case by (auto simp: table_at_snoc split: option.splits)
qed simp

lemma tree_cell_eq:
  assumes "tree_ok m r free" "table_path p" "table_path q" "table_at m r p = Some t" "table_at m r q = Some u"
    "i < 512" "j < 512"
  shows "cell t i = cell u j \<longleftrightarrow> p = q \<and> i = j"
  using assms unfolding tree_ok_def by (metis table_cell_inj option.inject)

lemma table_at_store:
  assumes "tree_ok m r free" "table_path p0" "i0 < 512" "table_at m r p0 = Some t0"
    "table_path p" "\<not> prefix (p0 @ [i0]) p"
  shows "table_at (m(cell t0 i0 := e)) r p = table_at m r p"
proof (rule table_at_cong [OF _ assms(5)])
  fix q i t
  assume "table_path (q @ [i])" "prefix (q @ [i]) p" "table_at m r q = Some t"
  moreover from this assms have "q @ [i] \<noteq> p0 @ [i0]" by auto
  ultimately show "(m(cell t0 i0 := e)) (cell t i) = m (cell t i)"
    using assms tree_cell_eq [OF assms(1), of q p0 t t0 i i0] by (auto simp: table_path_snoc)
qed

lemma page_addr_aligned [simp]: "i < 0x8000 \<Longrightarrow> page_aligned (page_addr i)"
  by (simp add: aligned_dvd unat_page_addr)

lemma table_entry_read:
  assumes "page_aligned t" "unat t < 2 ^ 52"
  shows "links (table_entry t f)" "table_entry t f AND PTE_ADDR_MASK = t"
proof -
  have low: "\<not> bit t n" if "n < 12" for n
  proof -
    have "take_bit 12 t = 0" using assms(1) by (simp add: page_aligned_def mask_12 take_bit_eq_mask)
    then show ?thesis using that by (metis bit_take_bit_iff bit_0_eq bot_apply bot_bool_def)
  qed
  have high: "\<not> bit t n" if "52 \<le> n" for n
  proof -
    have "take_bit 52 t = t" using assms(2) by (simp add: word_unat_eq_iff unat_take_bit_mod)
    then show ?thesis using that by (metis bit_take_bit_iff not_le)
  qed
  have four: "bit (4 :: u64) n \<longleftrightarrow> n = 2" for n
    using bit_exp_iff [of 2 n, where 'a = u64] by auto
  have mask: "PTE_ADDR_MASK = push_bit 12 (mask 40)" by (simp add: mask_eq_exp_minus_1)
  show "table_entry t f AND PTE_ADDR_MASK = t"
  proof (rule bit_word_eqI)
    fix n assume "n < LENGTH(64)"
    show "bit (table_entry t f AND PTE_ADDR_MASK) n \<longleftrightarrow> bit t n"
      using low [of n] high [of n] four [of n]
      by (cases "n < 12"; cases "52 \<le> n") (auto simp: mask bit_simps)
  qed
  have "bit (table_entry t f) 0" by (simp add: bit_simps)
  moreover have "\<not> bit (table_entry t f) 7" using low [of 7] by (simp add: bit_simps)
  ultimately show "links (table_entry t f)"
    using and_exp_eq_0_iff_not_bit [of "table_entry t f" 0] and_exp_eq_0_iff_not_bit [of "table_entry t f" 7]
    by (simp add: links_def)
qed

lemma index_of_nat: "i < 512 \<Longrightarrow> \<exists>n < 512. i = (of_nat n :: u64)"
  by (intro exI [of _ "unat i"]) (simp add: word_less_nat_alt)

lemma zero_page_cell:
  assumes "page_aligned t" "page_aligned u" "i < 512"
  shows "zero_page t m (cell u i) = (if u = t then 0 else m (cell u i))"
proof -
  have idx: "(of_nat n :: u64) < 512" if "n < 512" for n
    using that by (simp add: word_less_nat_alt unat_of_nat_small)
  have inj: "inj_on (\<lambda>n. cell t (of_nat n)) (set [0..<512])"
    by (auto simp: inj_on_def table_cell_inj [OF assms(1) idx assms(1) idx] of_nat_inj_small)
  obtain n where n: "n < 512" "i = of_nat n" using index_of_nat [OF assms(3)] by auto
  show ?thesis
    unfolding zero_page_def
  proof (cases "u = t")
    case True
    with n fold_upd_hit [OF _ inj, of n "\<lambda>_. 0" m] show "fold (\<lambda>i m. m(cell t (of_nat i) := 0)) [0..<512] m (cell u i) = (if u = t then 0 else m (cell u i))"
      by (simp del: upt_rec_numeral)
  next
    case False
    then have "cell u i \<notin> (\<lambda>n. cell t (of_nat n)) ` set [0..<512]"
      by (auto simp: table_cell_inj [OF assms(2,3,1) idx])
    with False show "fold (\<lambda>i m. m(cell t (of_nat i) := 0)) [0..<512] m (cell u i) = (if u = t then 0 else m (cell u i))"
      by (simp add: fold_upd_other del: fun_upd_apply upt_rec_numeral)
  qed
qed

lemma tree_okD:
  assumes "tree_ok m r F" "table_path p" "table_at m r p = Some t"
  shows "page_aligned t" "t \<noteq> 0" "unat t div 0x1000 \<notin> F"
  using assms unfolding tree_ok_def by blast+

lemma tree_ok_cong:
  assumes "tree_ok m r F" "\<And>p. table_path p \<Longrightarrow> table_at m' r p = table_at m r p"
  shows "tree_ok m' r F"
  using assms unfolding tree_ok_def by metis

lemma tree_ok_mono: "tree_ok m r F \<Longrightarrow> G \<subseteq> F \<Longrightarrow> tree_ok m r G"
  unfolding tree_ok_def by blast

lemma page_addr_page: "k < 0x8000 \<Longrightarrow> unat (page_addr k) div 0x1000 = k"
  by (simp add: unat_page_addr)

lemma tree_zero:
  assumes "tree_ok m r F" "k \<in> F" "k < 0x8000" "table_path p" "table_at m r p = Some t" "i < 512"
  shows "zero_page (page_addr k) m (cell t i) = m (cell t i)"
  using tree_okD [OF assms(1,4,5)] assms(2,3,6) by (auto simp: zero_page_cell page_addr_page)

lemma tree_zero_tables:
  assumes "tree_ok m r F" "k \<in> F" "k < 0x8000" "table_path p"
  shows "table_at (zero_page (page_addr k) m) r p = table_at m r p"
  by (rule table_at_cong [OF _ assms(4)])
    (auto simp: table_path_snoc intro: tree_zero [OF assms(1-3)])

lemma zero_page_linked:
  assumes "page_aligned t0" "i0 < 512" "page_aligned t" "i < 512" "t \<noteq> t0"
  shows "((zero_page t m)(cell t0 i0 := e)) (cell t i) = 0"
proof -
  have "cell t i \<noteq> cell t0 i0" using assms by (simp add: table_cell_inj)
  then show ?thesis using assms by (simp add: zero_page_cell)
qed

lemma tree_link_other:
  assumes tree: "tree_ok m r F" and path: "table_path (p0 @ [i0])" and at: "table_at m r p0 = Some t0"
    and absent: "m (cell t0 i0) AND PTE_PRESENT = 0" and k: "k \<in> F" "k < 0x8000"
    and m': "m' = (zero_page (page_addr k) m)(cell t0 i0 := e)"
    and p: "table_path p" "\<not> prefix (p0 @ [i0]) p"
  shows "table_at m' r p = table_at m r p"
proof -
  let ?z = "zero_page (page_addr k) m"
  have same: "table_at ?z r q = table_at m r q" if "table_path q" for q
    using tree_zero_tables [OF tree k that] .
  have "table_at (?z(cell t0 i0 := e)) r p = table_at ?z r p"
    using path at p tree_ok_cong [OF tree same] by (intro table_at_store [where free = F]) (auto simp: same table_path_snoc)
  then show ?thesis using same [OF p(1)] m' by simp
qed

lemma tree_link_tables:
  assumes tree: "tree_ok m r F" and path: "table_path (p0 @ [i0])" and at: "table_at m r p0 = Some t0"
    and absent: "m (cell t0 i0) AND PTE_PRESENT = 0" and k: "k \<in> F" "k < 0x8000"
    and m': "m' = (zero_page (page_addr k) m)(cell t0 i0 := table_entry (page_addr k) f)"
    and p: "table_path p"
  shows "table_at m' r p = (if p = p0 @ [i0] then Some (page_addr k) else table_at m r p)"
proof (cases "prefix (p0 @ [i0]) p")
  case False
  with tree_link_other [OF tree path at absent k m' p] show ?thesis by auto
next
  case True
  then obtain q where q: "p = (p0 @ [i0]) @ q" by (auto simp: prefix_def)
  have t0: "table_at m' r p0 = Some t0"
    using tree_link_other [OF tree path at absent k m', of p0] path at by (auto simp: table_path_snoc)
  have new: "table_at m' r (p0 @ [i0]) = Some (page_addr k)"
    using t0 table_entry_read [of "page_addr k" f] k(2)
    by (simp add: table_at_snoc m' unat_page_addr)
  have old: "table_at m r (p0 @ [i0]) = None" using at absent by (simp add: table_at_snoc links_def)
  have append: "table_at n r (a @ b) = (case table_at n r a of None \<Rightarrow> None | Some t \<Rightarrow> table_at n t b)" for n a b
    by (induction a arbitrary: r) (auto simp: table_at.simps)
  show ?thesis
  proof (cases q)
    case Nil
    with q new show ?thesis by simp
  next
    case (Cons j q')
    then have "j < 512" using p q by (auto simp: table_path_def)
    moreover have "page_addr k \<noteq> t0"
      using tree_okD [OF tree _ at] path k by (auto simp: table_path_snoc page_addr_page)
    ultimately have "m' (cell (page_addr k) j) = 0"
      using tree_okD(1) [OF tree _ at] path k(2)
      unfolding m' by (intro zero_page_linked) (simp_all add: table_path_snoc)
    then show ?thesis using q new old Cons append [of m' "p0 @ [i0]" q] append [of m "p0 @ [i0]" q]
      by (auto simp: links_def table_at.simps)
  qed
qed

lemma tree_link_ok:
  assumes tree: "tree_ok m r F" and path: "table_path (p0 @ [i0])" and at: "table_at m r p0 = Some t0"
    and absent: "m (cell t0 i0) AND PTE_PRESENT = 0" and k: "k \<in> F" "k < 0x8000" "k \<noteq> 0"
    and m': "m' = (zero_page (page_addr k) m)(cell t0 i0 := table_entry (page_addr k) f)"
  shows "tree_ok m' r (F - {k})"
proof -
  note tables = tree_link_tables [OF tree path at absent k(1,2) m']
  have fresh: "table_at m r p \<noteq> Some (page_addr k)" if "table_path p" for p
    using tree_okD(3) [OF tree that, of "page_addr k"] k by (auto simp: page_addr_page)
  show ?thesis
    unfolding tree_ok_def
  proof (intro conjI allI impI)
    fix p q t
    assume p: "table_path p" "table_at m' r p = Some t"
    then show "page_aligned t" "t \<noteq> 0" "unat t div 0x1000 \<notin> F - {k}"
      using tables [OF p(1)] k tree_okD [OF tree p(1)] by (auto simp: page_addr_page split: if_splits)
    assume q: "table_path q" "table_at m' r q = Some t"
    with p fresh [of p] fresh [of q] tree show "p = q"
      unfolding tables [OF p(1)] tables [OF q(1)] tree_ok_def by (auto split: if_splits)
  qed
qed

lemma tree_link_entry:
  assumes tree: "tree_ok m r F" and path: "table_path (p0 @ [i0])" and at: "table_at m r p0 = Some t0"
    and absent: "m (cell t0 i0) AND PTE_PRESENT = 0" and k: "k \<in> F" "k < 0x8000"
    and m': "m' = (zero_page (page_addr k) m)(cell t0 i0 := table_entry (page_addr k) f)"
    and p: "table_path p" "i < 512" "p @ [i] \<noteq> p0 @ [i0]"
  shows "entry_at m' r p i = entry_at m r p i"
proof -
  have p0: "table_path p0" "i0 < 512" using path by (auto simp: table_path_snoc)
  have none: "table_at m r (p0 @ [i0]) = None" using at absent by (simp add: table_at_snoc links_def)
  have ne: "page_addr k \<noteq> t0" using tree_okD [OF tree p0(1) at] k by (auto simp: page_addr_page)
  show ?thesis
  proof (cases "table_at m r p")
    case None
    have "m' (cell (page_addr k) i) = 0"
      using tree_okD(1) [OF tree p0(1) at] p0 p ne k unfolding m' by (intro zero_page_linked) simp_all
    with None show ?thesis using tree_link_tables [OF tree path at absent k m' p(1)]
      by (auto simp: entry_at_def)
  next
    case (Some t)
    then have "table_at m' r p = Some t" using tree_link_tables [OF tree path at absent k m' p(1)] none by auto
    moreover have "cell t i \<noteq> cell t0 i0"
      using tree_cell_eq [OF tree p(1) p0(1) Some at p(2) p0(2)] p(3) by auto
    ultimately show ?thesis
      using Some tree_zero [OF tree k p(1) Some p(2)] by (simp add: entry_at_def m')
  qed
qed

section \<open>One level of the walk\<close>

lemma alloc_table_none: "free_pages s = {} \<Longrightarrow>
  alloc_table s = (0, console_puts ''[PMM] Out of physical memory\<newline>'' s)"
  by (simp add: alloc_table_def pmm_alloc_page_none)

lemma alloc_table_some:
  assumes "free_pages s \<noteq> {}" "0 \<notin> free_pages s" "alloc_table s = (t, s')"
  obtains k where "k = Min (free_pages s)" "k \<in> free_pages s" "k < 0x8000" "k \<noteq> 0" "t = page_addr k" "t \<noteq> 0"
    "pmem s' = zero_page (page_addr k) (pmem s)" "free_pages s' = free_pages s - {k}"
proof -
  define k where "k = Min (free_pages s)"
  have k: "k \<in> free_pages s" using assms(1) by (simp add: k_def)
  then have k': "k < 0x8000" "k \<noteq> 0" using assms(2) free_pages_bound by (blast, metis)
  then have "alloc_table s = (page_addr k, s\<lparr>phys_bitmap := bitmap_set (of_nat k) (phys_bitmap s),
      pmem := zero_page (page_addr k) (pmem s)\<rparr>)"
    by (simp add: alloc_table_def pmm_alloc_page_some assms(1) k_def [symmetric])
  then show ?thesis
    using assms(3) free_pages_set [OF k'(1), of s] k k' by (intro that [of k]) (simp_all add: k_def)
qed

lemma next_table_step:
  assumes ok: "pt_ok r s" and path: "table_path (p @ [i])" and at: "table_at (pmem s) r p = Some t"
    and leaf: "entry_at (pmem s) r p i AND PTE_HUGE = 0" and next_t: "next_table t i f s = (u, s')"
  shows "if table_at (pmem s) r (p @ [i]) = None \<and> free_pages s = {}
    then u = 0 \<and> pmem s (cell t i) AND PTE_PRESENT = 0 \<and> pmem s' = pmem s \<and> free_pages s' = free_pages s
    else u \<noteq> 0 \<and> linked r (p @ [i]) u s s'"
proof (cases "pmem s (cell t i) AND PTE_PRESENT = 0")
  case False
  then have "links (pmem s (cell t i))" using leaf at by (simp add: links_def entry_at_def)
  then have u: "table_at (pmem s) r (p @ [i]) = Some u" "s' = s"
    using False next_t at by (auto simp: next_table_def table_at_snoc)
  then have "u \<noteq> 0" using ok path tree_okD(2) unfolding pt_ok_def by blast
  with u ok show ?thesis by (auto simp: linked_def)
next
  case True
  then have none: "table_at (pmem s) r (p @ [i]) = None" using at by (simp add: table_at_snoc links_def)
  show ?thesis
  proof (cases "free_pages s = {}")
    case empty: True
    with True next_t none show ?thesis
      by (auto simp: next_table_def alloc_table_none)
  next
    case False
    obtain t1 s1 where a: "alloc_table s = (t1, s1)" by force
    from alloc_table_some [OF False _ a] ok obtain k where
      k: "k \<in> free_pages s" "k < 0x8000" "k \<noteq> 0" "t1 = page_addr k" "t1 \<noteq> 0"
        "pmem s1 = zero_page (page_addr k) (pmem s)" "free_pages s1 = free_pages s - {k}"
      unfolding pt_ok_def by metis
    have s': "u = page_addr k" "pmem s' = (zero_page (page_addr k) (pmem s))(cell t i := table_entry (page_addr k) f)"
        "free_pages s' = free_pages s - {k}"
    proof -
      have "next_table t i f s = (t1, s1\<lparr>pmem := (pmem s1)(cell t i := table_entry t1 f)\<rparr>)"
        using True a k(5) by (simp add: next_table_def)
      then have "u = t1" "s' = s1\<lparr>pmem := (pmem s1)(cell t i := table_entry t1 f)\<rparr>" using next_t by simp_all
      then show "u = page_addr k" "free_pages s' = free_pages s - {k}"
        "pmem s' = (zero_page (page_addr k) (pmem s))(cell t i := table_entry (page_addr k) f)"
        using k(4,6,7) by simp_all
    qed
    from ok have tree: "tree_ok (pmem s) r (free_pages s)" "0 \<notin> free_pages s" by (simp_all add: pt_ok_def)
    note facts = tree(1) path at True k(1,2)
    have "pt_ok r s'" using tree_link_ok [OF facts k(3) s'(2)] tree(2) by (simp add: pt_ok_def s'(3))
    moreover have "card (free_pages s) = card (free_pages s') + 1"
      using card_Suc_Diff1 [OF finite_free_pages k(1)] unfolding s'(3) by linarith
    ultimately have "linked r (p @ [i]) u s s'"
      using tree_link_tables [OF facts s'(2)] tree_link_entry [OF facts s'(2)] none
      by (simp add: linked_def s'(1,3) Diff_subset)
    with False k s' show ?thesis by auto
  qed
qed

lemma index_less [simp]: "pml4_index v < 512" "pdpt_index v < 512" "pd_index v < 512" "pt_index v < 512"
proof -
  have "(x AND 0x1FF :: u64) < 512" for x
  proof -
    have "x AND 0x1FF = take_bit 9 x" by (simp add: take_bit_eq_mask mask_eq_exp_minus_1)
    then show ?thesis by (simp add: word_less_nat_alt unat_take_bit_mod)
  qed
  then show "pml4_index v < 512" "pdpt_index v < 512" "pd_index v < 512" "pt_index v < 512"
    by (simp_all add: pml4_index_def pdpt_index_def pd_index_def pt_index_def)
qed

lemma mm_leaf:
  assumes ok: "pt_ok r s" and p: "table_path p" "length p = 3" "table_at (pmem s) r p = Some t" "i < 512"
    and s': "pmem s' = (pmem s)(cell t i := e)" "free_pages s' = free_pages s"
  shows "pt_ok r s'"
    "table_path q \<Longrightarrow> j < 512 \<Longrightarrow> entry_at (pmem s') r q j = (if q @ [j] = p @ [i] then e else entry_at (pmem s) r q j)"
proof -
  have tree: "tree_ok (pmem s) r (free_pages s)" using ok by (simp add: pt_ok_def)
  have same: "table_at (pmem s') r q = table_at (pmem s) r q" if "table_path q" for q
  proof -
    have "\<not> prefix (p @ [i]) q" using p that by (auto simp: table_path_def dest: prefix_length_le)
    then show ?thesis using table_at_store [OF tree p(1,4,3) that] s' by simp
  qed
  show "pt_ok r s'" using ok tree_ok_cong [OF tree same] s' by (simp add: pt_ok_def)
  assume q: "table_path q" "j < 512"
  then show "entry_at (pmem s') r q j = (if q @ [j] = p @ [i] then e else entry_at (pmem s) r q j)"
    using same [OF q(1)] tree_cell_eq [OF tree q(1) p(1) _ p(3) q(2) p(4)] p(3)
    by (auto simp: entry_at_def s' split: option.splits)
qed

lemma missing_eq:
  "missing m r v = (if table_at m r [pml4_index v] = None then 1 else 0) +
     (if table_at m r [pml4_index v, pdpt_index v] = None then 1 else 0) +
     (if table_at m r (vpath v) = None then 1 else 0)"
  by (simp add: missing_def vpath_def numeral_3_eq_3)

lemma next_pt_eq: "pmem s (cell t i) AND PTE_HUGE = 0 \<Longrightarrow> next_pt t i f s = next_table t i f s"
  by (simp add: next_pt_def)

lemma grows_same: "pmem s' = pmem s \<Longrightarrow> free_pages s' = free_pages s \<Longrightarrow> grows r s s'"
  by (simp add: grows_def)

lemma grows_trans: "grows r s s1 \<Longrightarrow> grows r s1 s2 \<Longrightarrow> grows r s s2"
  by (auto simp: grows_def)

lemma grows_linked:
  assumes "linked r p u s s'"
  shows "grows r s s'"
  unfolding grows_def
proof (intro conjI allI impI)
  show "free_pages s' \<subseteq> free_pages s" using assms by (simp add: linked_def)
  fix q j assume q: "table_path (q @ [j])" "entry_at (pmem s) r q j AND PTE_HUGE = 0"
  show "entry_at (pmem s') r q j AND PTE_HUGE = 0"
  proof (cases "q @ [j] = p")
    case True
    then have "table_at (pmem s') r (q @ [j]) = Some u" using assms q(1) by (simp add: linked_def)
    then show ?thesis by (auto simp: entry_at_def table_at_snoc links_def split: option.splits if_splits)
  next
    case False
    then show ?thesis using assms q by (simp add: linked_def table_path_snoc)
  qed
qed

lemma grows_huge: "grows r s s' \<Longrightarrow> no_huge (pmem s) r v \<Longrightarrow> no_huge (pmem s') r v"
proof -
  assume g: "grows r s s'" and h: "no_huge (pmem s) r v"
  have "table_path (take k (vpath v) @ [vpath v ! k])" if "k < 3" for k
  proof -
    have "take k (vpath v) @ [vpath v ! k] = take (Suc k) (vpath v)"
      using that by (intro take_Suc_conv_app_nth [symmetric]) (simp add: vpath_def)
    moreover have "table_path (vpath v)" by (simp add: table_path_def vpath_def)
    ultimately show ?thesis by (auto simp: table_path_def dest: in_set_takeD)
  qed
  with g h show ?thesis by (simp add: grows_def no_huge_def)
qed

lemma walked_start: "pt_ok r s \<Longrightarrow> walked r [] r s s"
  by (simp add: walked_def grows_same)

lemma walked_linked:
  assumes "walked r p t s s1" "table_path (p @ [i])" "linked r (p @ [i]) u s1 s2"
  shows "walked r (p @ [i]) u s s2"
  unfolding walked_def
proof (intro conjI allI impI)
  show "pt_ok r s2" "table_at (pmem s2) r (p @ [i]) = Some u"
    using assms(2,3) by (simp_all add: linked_def)
  show "grows r s s2" using assms(1) grows_linked [OF assms(3)] grows_trans by (auto simp: walked_def)
  fix q and j :: u64
  assume q: "table_path q"
  show "table_at (pmem s2) r q = table_at (pmem s) r q" if "length (p @ [i]) < length q"
    using assms that q by (auto simp: walked_def linked_def)
  assume j: "j < 512" and len: "length (p @ [i]) \<le> length q"
  then have "q @ [j] \<noteq> p @ [i]" by auto
  with j q assms(3) have "entry_at (pmem s2) r q j = entry_at (pmem s1) r q j" unfolding linked_def by blast
  with assms(1) j q len show "entry_at (pmem s2) r q j = entry_at (pmem s) r q j" by (auto simp: walked_def)
qed

lemma walked_step:
  assumes w: "walked r p t s s1" and path: "table_path (p @ [i])"
    and leaf: "entry_at (pmem s) r p i AND PTE_HUGE = 0" and next_t: "next_table t i f s1 = (u, s2)"
  shows "if table_at (pmem s) r (p @ [i]) = None \<and> free_pages s1 = {}
    then u = 0 \<and> pmem s1 (cell t i) AND PTE_PRESENT = 0 \<and> pmem s2 = pmem s1 \<and> free_pages s2 = free_pages s1
    else u \<noteq> 0 \<and> walked r (p @ [i]) u s s2 \<and>
      card (free_pages s1) = card (free_pages s2) + (if table_at (pmem s) r (p @ [i]) = None then 1 else 0)"
proof -
  have w': "pt_ok r s1" "table_at (pmem s1) r p = Some t"
    "table_at (pmem s1) r (p @ [i]) = table_at (pmem s) r (p @ [i])"
    "entry_at (pmem s1) r p i = entry_at (pmem s) r p i"
    using w path by (simp_all add: walked_def table_path_snoc)
  from next_table_step [OF w'(1) path w'(2) _ next_t] leaf walked_linked [OF w path]
  show ?thesis unfolding w' by (auto simp: linked_def w' split: if_splits)
qed

lemma pt_ok_cong: "pmem t = pmem s \<Longrightarrow> free_pages t = free_pages s \<Longrightarrow> pt_ok r t = pt_ok r s"
  by (simp add: pt_ok_def)

lemma walked_mapping: "walked r p u s s1 \<Longrightarrow> length p \<le> 3 \<Longrightarrow> mapping (pmem s1) r w = mapping (pmem s) r w"
  by (simp add: walked_def mapping_def vpath_def table_path_def)

lemma walked_ok: "walked r p u s s1 \<Longrightarrow> pt_ok r s1"
  by (simp add: walked_def)

lemma walked_grows: "walked r p u s s1 \<Longrightarrow> grows r s s1"
  by (simp add: walked_def)

lemma walked_grows_same:
  "walked r p u s s1 \<Longrightarrow> pmem s2 = pmem s1 \<Longrightarrow> free_pages s2 = free_pages s1 \<Longrightarrow> grows r s s2"
  using grows_trans [OF walked_grows grows_same] by blast

lemma walked_huge:
  assumes "walked r p t s s1" "entry_at (pmem s) r p i AND PTE_HUGE = 0" "table_path p" "i < 512"
  shows "pmem s1 (cell t i) AND PTE_HUGE = 0"
  using assms by (auto simp: walked_def entry_at_def split: option.splits)

lemma mm_map_page_mapping:
  assumes ok: "pt_ok r s" and al: "page_aligned v" "page_aligned phys" and huge: "no_huge (pmem s) r v"
    and s': "s' = mm_map_page r v phys f s"
  shows "pt_ok r s' \<and> grows r s s' \<and>
    (if missing (pmem s) r v \<le> card (free_pages s)
     then (\<forall>w. mapping (pmem s') r w = (if same_page v w then (phys OR f) OR PTE_PRESENT else mapping (pmem s) r w)) \<and>
       card (free_pages s') = card (free_pages s) - missing (pmem s) r v
     else \<forall>w. mapping (pmem s') r w = mapping (pmem s) r w)"
proof -
  let ?a = "pml4_index v" and ?b = "pdpt_index v" and ?c = "pd_index v"
  have leaf: "entry_at (pmem s) r [] ?a AND PTE_HUGE = 0" "entry_at (pmem s) r [?a] ?b AND PTE_HUGE = 0"
    "entry_at (pmem s) r [?a, ?b] ?c AND PTE_HUGE = 0"
    using huge unfolding no_huge_def vpath_def by (simp_all add: All_less_Suc numeral_3_eq_3)
  have paths: "table_path ([] @ [?a])" "table_path ([?a] @ [?b])" "table_path ([?a, ?b] @ [?c])"
    by (simp_all add: table_path_def)
  have r: "r \<noteq> 0" using ok tree_okD(2) [of "pmem s" r "free_pages s" "[]"] by (simp add: pt_ok_def table_path_def)
  obtain t1 s1 where n1: "next_table r ?a f s = (t1, s1)" by force
  obtain t2 s2 where n2: "next_table t1 ?b f s1 = (t2, s2)" by force
  obtain t3 s3 where n3: "next_table t2 ?c f s2 = (t3, s3)" by force
  note w1 = walked_step [OF walked_start [OF ok] paths(1) leaf(1) n1]
  have args: "\<not> (v AND (PAGE_SIZE - 1) \<noteq> 0 \<or> phys AND (PAGE_SIZE - 1) \<noteq> 0)"
    using al by (simp add: page_aligned_def)
  show ?thesis
  proof (cases "table_at (pmem s) r [?a] = None \<and> free_pages s = {}")
    case True
    with w1 have "s' = s1" "pmem s1 = pmem s" "free_pages s1 = free_pages s"
      using s' args r n1 by (simp_all add: mm_map_page_def)
    with True ok show ?thesis by (simp add: pt_ok_cong [of s1 s] missing_eq grows_same)
  next
    case False
    with w1 have t1: "t1 \<noteq> 0" "walked r [?a] t1 s s1"
        "card (free_pages s) = card (free_pages s1) + (if table_at (pmem s) r [?a] = None then 1 else 0)"
      by auto
    note w2 = walked_step [OF t1(2) paths(2) leaf(2) n2]
    show ?thesis
    proof (cases "table_at (pmem s) r [?a, ?b] = None \<and> free_pages s1 = {}")
      case True
      with w2 have "s' = s2" "pmem s2 = pmem s1" "free_pages s2 = free_pages s1"
        using s' args r n1 n2 t1(1) by (simp_all add: mm_map_page_def)
      with True walked_ok [OF t1(2)] walked_mapping [OF t1(2)] t1(3) show ?thesis
        by (simp add: pt_ok_cong [of s2 s1] missing_eq mapping_def walked_grows_same [OF t1(2)])
    next
      case False
      with w2 have t2: "t2 \<noteq> 0" "walked r [?a, ?b] t2 s s2"
          "card (free_pages s1) = card (free_pages s2) + (if table_at (pmem s) r [?a, ?b] = None then 1 else 0)"
        by auto
      note w3 = walked_step [OF t2(2) paths(3) leaf(3) n3]
      have n3': "next_pt t2 ?c f s2 = (t3, s3)"
        using next_pt_eq [OF walked_huge [OF t2(2) leaf(3)]] n3 by (simp add: table_path_def)
      show ?thesis
      proof (cases "table_at (pmem s) r (vpath v) = None \<and> free_pages s2 = {}")
        case True
        with w3 have "s' = s3" "pmem s3 = pmem s2" "free_pages s3 = free_pages s2"
          using s' args r n1 n2 n3' t1(1) t2(1) by (simp_all add: mm_map_page_def vpath_def)
        with True walked_ok [OF t2(2)] walked_mapping [OF t2(2)] t1(3) t2(3) show ?thesis
          by (simp add: pt_ok_cong [of s3 s2] missing_eq mapping_def walked_grows_same [OF t2(2)])
      next
        case False
        then have t3: "t3 \<noteq> 0" "walked r (vpath v) t3 s s3"
          "card (free_pages s2) = card (free_pages s3) + (if table_at (pmem s) r (vpath v) = None then 1 else 0)"
          using w3 by (auto simp: vpath_def split: if_splits)
        have "s' = emit (Invlpg v) (s3\<lparr>pmem := (pmem s3)(cell t3 (pt_index v) := (phys OR f) OR PTE_PRESENT)\<rparr>)"
          using s' args r n1 n2 n3' t1(1) t2(1) t3(1) by (simp add: mm_map_page_def)
        then have "pmem s' = (pmem s3)(cell t3 (pt_index v) := (phys OR f) OR PTE_PRESENT)" "free_pages s' = free_pages s3"
          by (simp_all add: free_pages_def)
        note leaf' = mm_leaf [OF walked_ok [OF t3(2)] _ _ _ _ this]
        have path: "table_path (vpath w)" "length (vpath w) = 3" for w
          by (simp_all add: table_path_def vpath_def)
        have at: "table_at (pmem s3) r (vpath v) = Some t3" using t3(2) by (simp add: walked_def)
        have grows_leaf: "grows r s s'"
        proof (rule grows_trans [OF walked_grows [OF t3(2)]])
          show "grows r s3 s'"
            using leaf'(2) [OF path at index_less(4)] \<open>free_pages s' = free_pages s3\<close> path(2) [of v]
            by (simp add: grows_def table_path_snoc)
        qed
        have "mapping (pmem s') r w = (if same_page v w then (phys OR f) OR PTE_PRESENT else mapping (pmem s) r w)" for w
          using leaf'(2) [OF path at index_less(4) path(1) index_less(4), of w w] walked_mapping [OF t3(2), of w]
          by (simp add: mapping_def same_page_def vpath_def)
        with leaf'(1) [OF path at index_less(4)] t1(3) t2(3) t3(3) \<open>free_pages s' = free_pages s3\<close>
        show ?thesis using grows_leaf by (simp add: missing_eq)
      qed
    qed
  qed
qed

lemma boot_cleared:
  assumes "boot_layout r" "t = r + 0x1000 * of_nat k" "k < 4" "i < 512"
  shows "boot_clear r m (cell t i) = 0"
proof -
  have inj: "inj_on (\<lambda>n. cell r (of_nat n)) (set [0..<2048])"
  proof (rule inj_onI)
    fix x y assume "x \<in> set [0..<2048]" "y \<in> set [0..<2048]" and eq: "cell r (of_nat x) = cell r (of_nat y)"
    then have xy: "x < 2048" "y < 2048" by simp_all
    then have "unat (8 * of_nat x :: u64) = 8 * x" "unat (8 * of_nat y :: u64) = 8 * y"
      by (simp_all add: unat_mult_small unat_of_nat_small)
    moreover have "8 * of_nat x = (8 * of_nat y :: u64)" using eq by (simp add: cell_def)
    ultimately have "8 * x = 8 * y" by metis
    then show "x = y" by simp
  qed
  let ?n = "512 * k + unat i"
  have "unat i < 512" using assms(4) by (simp add: word_less_nat_alt)
  then have "?n < 2048" using assms(3) by linarith
  then have n: "?n \<in> set [0..<2048]" unfolding set_upt by simp
  have "cell t i = cell r (of_nat ?n)"
    by (simp add: cell_def assms(2) distrib_left)
  then show ?thesis unfolding boot_clear_def using fold_upd_hit [OF n inj, of "\<lambda>_. 0" m] by (simp only:)
qed

lemma boot_aligned:
  assumes "boot_layout r" "k < 4"
  shows "page_aligned (r + 0x1000 * of_nat k)" "unat (r + 0x1000 * of_nat k) = unat r + 0x1000 * k"
proof -
  have r: "unat r < 0x200000" using assms(1) by (simp add: boot_layout_def word_less_nat_alt)
  have "unat (0x1000 * of_nat k :: u64) = 0x1000 * k"
    using assms(2) by (simp add: unat_mult_small unat_of_nat_small)
  then show u: "unat (r + 0x1000 * of_nat k) = unat r + 0x1000 * k"
    using r assms(2) by (simp add: unat_add_small)
  show "page_aligned (r + 0x1000 * of_nat k)"
    using assms(1) by (simp add: aligned_dvd u boot_layout_def)
qed

lemma boot_entries:
  assumes "boot_layout r" "i < 512"
  shows "boot_paging r m (cell r i) = (if i = 0 then (r + 0x1000) OR 7 else 0)"
    "boot_paging r m (cell (r + 0x1000) i) = (if i = 0 then (r + 0x2000) OR 7 else 0)"
    "boot_paging r m (cell (r + 0x2000) i) = (if i = 0 then 0x87 else if i = 1 then 0x200087 else 0)"
proof -
  have al: "page_aligned r" "page_aligned (r + 0x1000)" "page_aligned (r + 0x2000)"
    using boot_aligned(1) [OF assms(1), of 0] boot_aligned(1) [OF assms(1), of 1] boot_aligned(1) [OF assms(1), of 2]
    by simp_all
  note z = boot_cleared [OF assms(1) _ _ assms(2), of _ 0] boot_cleared [OF assms(1) _ _ assms(2), of _ 1]
    boot_cleared [OF assms(1) _ _ assms(2), of _ 2]
  have idx: "(0::u64) < 512" "(1::u64) < 512" by simp_all
  show "boot_paging r m (cell r i) = (if i = 0 then (r + 0x1000) OR 7 else 0)"
    "boot_paging r m (cell (r + 0x1000) i) = (if i = 0 then (r + 0x2000) OR 7 else 0)"
    "boot_paging r m (cell (r + 0x2000) i) = (if i = 0 then 0x87 else if i = 1 then 0x200087 else 0)"
    using z al idx assms(2) unfolding boot_paging_def Let_def
    by (simp_all add: table_cell_inj)
qed

lemma boot_links:
  assumes "boot_layout r"
  shows "links ((r + 0x1000) OR 7)" "((r + 0x1000) OR 7) AND PTE_ADDR_MASK = r + 0x1000"
    "links ((r + 0x2000) OR 7)" "((r + 0x2000) OR 7) AND PTE_ADDR_MASK = r + 0x2000"
proof -
  have r: "unat r < 0x200000" using assms by (simp add: boot_layout_def word_less_nat_alt)
  have entry: "((t OR 1) OR 2) OR 4 = (t OR 7 :: u64)" for t by (simp add: or.assoc)
  show "links ((r + 0x1000) OR 7)" "((r + 0x1000) OR 7) AND PTE_ADDR_MASK = r + 0x1000"
    using table_entry_read [of "r + 0x1000" 4] boot_aligned [OF assms, of 1] r by (simp_all add: entry)
  show "links ((r + 0x2000) OR 7)" "((r + 0x2000) OR 7) AND PTE_ADDR_MASK = r + 0x2000"
    using table_entry_read [of "r + 0x2000" 4] boot_aligned [OF assms, of 2] r by (simp_all add: entry)
qed

lemma boot_tables:
  assumes "boot_layout r" "table_path p"
  shows "table_at (boot_paging r m) r p =
    (if p = [] then Some r else if p = [0] then Some (r + 0x1000) else if p = [0, 0] then Some (r + 0x2000) else None)"
proof -
  have none: "\<not> links 0" "\<not> links 0x87" "\<not> links 0x200087" by (simp_all add: links_def)
  consider "p = []" | i where "p = [i]" | i j where "p = [i, j]" | i j k where "p = [i, j, k]"
    using assms(2) by (auto simp: table_path_def numeral_3_eq_3 le_Suc_eq length_Suc_conv)
  then show ?thesis
    using assms boot_entries [OF assms(1)] boot_links [OF assms(1)] none
    by cases (simp_all add: table_at.simps table_path_def)
qed

lemma boot_tree_ok:
  assumes "boot_layout r" "\<forall>i < 512. i \<notin> F"
  shows "tree_ok (boot_paging r m) r F"
proof -
  have r: "unat r < 0x1FD000" "0 < unat r"
  proof -
    have "unat (r + 0x4000) = unat r + unat (0x4000 :: u64)" if "unat r < 0x200000"
      using that by (intro unat_add_small) simp
    then show "unat r < 0x1FD000" "0 < unat r"
      using assms(1) by (simp_all add: boot_layout_def word_less_nat_alt word_le_nat_alt)
  qed
  have u: "unat (r + 0x1000) = unat r + 0x1000" "unat (r + 0x2000) = unat r + 0x2000"
    using boot_aligned(2) [OF assms(1), of 1] boot_aligned(2) [OF assms(1), of 2] by simp_all
  have al: "page_aligned r" "page_aligned (r + 0x1000)" "page_aligned (r + 0x2000)"
    using boot_aligned(1) [OF assms(1), of 0] boot_aligned(1) [OF assms(1), of 1] boot_aligned(1) [OF assms(1), of 2]
    by simp_all
  have low: "unat r div 0x1000 < 512" "unat (r + 0x1000) div 0x1000 < 512" "unat (r + 0x2000) div 0x1000 < 512"
    using r by (simp_all add: u)
  have nz: "r \<noteq> 0" "r + 0x1000 \<noteq> 0" "r + 0x2000 \<noteq> 0" using r u by (metis add_is_0 not_gr0 unat_0)+
  show ?thesis
    unfolding tree_ok_def using al low nz assms(2) u
    by (auto simp: boot_tables [OF assms(1)] split: if_splits)
qed

lemma unat_index:
  "unat (pml4_index v) = unat v div 2 ^ 39 mod 512" "unat (pdpt_index v) = unat v div 2 ^ 30 mod 512"
  "unat (pd_index v) = unat v div 2 ^ 21 mod 512" "unat (pt_index v) = unat v div 2 ^ 12 mod 512"
proof -
  have "unat (drop_bit k v AND 0x1FF) = unat v div 2 ^ k mod 512" for k
  proof -
    have "drop_bit k v AND 0x1FF = take_bit 9 (drop_bit k v)" by (simp add: take_bit_eq_mask mask_eq_exp_minus_1)
    then show ?thesis by (simp only: unat_take_bit_mod unat_drop_bit_eq) (simp add: drop_bit_eq_div)
  qed
  then show "unat (pml4_index v) = unat v div 2 ^ 39 mod 512" "unat (pdpt_index v) = unat v div 2 ^ 30 mod 512"
  "unat (pd_index v) = unat v div 2 ^ 21 mod 512" "unat (pt_index v) = unat v div 2 ^ 12 mod 512"
    unfolding pml4_index_def pdpt_index_def pd_index_def pt_index_def by blast+
qed

lemma low_index:
  assumes "unat v < 2 ^ 48"
  shows "pml4_index v = 0 \<longleftrightarrow> unat v < 2 ^ 39"
    "unat v < 2 ^ 39 \<Longrightarrow> pdpt_index v = 0 \<longleftrightarrow> unat v < 2 ^ 30"
    "unat v < 2 ^ 30 \<Longrightarrow> pd_index v = 0 \<longleftrightarrow> unat v < 2 ^ 21"
    "unat v < 2 ^ 30 \<Longrightarrow> pd_index v = 1 \<longleftrightarrow> 2 ^ 21 \<le> unat v \<and> unat v < 2 ^ 22"
proof -
  have small: "n < 2 ^ (k + 9) \<Longrightarrow> n div 2 ^ k mod 512 = n div 2 ^ k" for n k :: nat
    by (simp add: less_mult_imp_div_less power_add mult.commute)
  show "pml4_index v = 0 \<longleftrightarrow> unat v < 2 ^ 39"
    using assms small [of "unat v" 39] by (simp add: word_unat_eq_iff unat_index div_eq_0_iff)
  show "unat v < 2 ^ 39 \<Longrightarrow> pdpt_index v = 0 \<longleftrightarrow> unat v < 2 ^ 30"
    using small [of "unat v" 30] by (simp add: word_unat_eq_iff unat_index div_eq_0_iff)
  assume "unat v < 2 ^ 30"
  then have "unat (pd_index v) = unat v div 2 ^ 21"
    using small [of "unat v" 21] by (simp add: unat_index)
  then show "pd_index v = 0 \<longleftrightarrow> unat v < 2 ^ 21" "pd_index v = 1 \<longleftrightarrow> 2 ^ 21 \<le> unat v \<and> unat v < 2 ^ 22"
    by (auto simp: word_unat_eq_iff div_nat_eqI)
qed

lemma huge_offset:
  "unat v < 2 ^ 21 \<Longrightarrow> v AND 0x1FFFFF = (v :: u64)"
  "2 ^ 21 \<le> unat v \<Longrightarrow> unat v < 2 ^ 22 \<Longrightarrow> 0x200000 OR (v AND 0x1FFFFF) = (v :: u64)"
proof -
  have mask: "v AND 0x1FFFFF = take_bit 21 v" by (simp add: take_bit_eq_mask mask_eq_exp_minus_1)
  show "unat v < 2 ^ 21 \<Longrightarrow> v AND 0x1FFFFF = v"
    unfolding mask by (simp add: word_unat_eq_iff unat_take_bit_mod)
  assume v: "2 ^ 21 \<le> unat v" "unat v < 2 ^ 22"
  have bit: "bit (0x200000 :: u64) n \<longleftrightarrow> n = 21" for n
    using bit_exp_iff [of 21 n, where 'a = u64] by auto
  have "0x200000 OR take_bit 21 v = 0x200000 + take_bit 21 v"
    using bit by (intro disjunctive_add [symmetric]) (auto simp only: bit_take_bit_iff)
  moreover have "unat (0x200000 + take_bit 21 v) = unat v"
  proof -
    have "unat v mod 2 ^ 21 = unat v - 2 ^ 21" using v by (simp add: mod_if)
    with v show ?thesis by (subst unat_add_small) (simp_all add: unat_take_bit_mod)
  qed
  ultimately show "0x200000 OR (v AND 0x1FFFFF) = v" unfolding mask by (simp add: word_unat_eq_iff)
qed

lemma boot_translate:
  assumes "boot_layout r" "v < 0x1000000000000"
  shows "translate (boot_paging r m) r v = (if v < 0x400000 then Some v else None)"
proof -
  have v: "unat v < 2 ^ 48" using assms(2) by (simp add: word_less_nat_alt)
  note e = boot_entries [OF assms(1) index_less(1), of m v] boot_entries [OF assms(1) index_less(2), of m v]
    boot_entries [OF assms(1) index_less(3), of m v]
  have "links 0 = False" by (simp add: links_def)
  consider "2 ^ 39 \<le> unat v" | "unat v < 2 ^ 39" "2 ^ 30 \<le> unat v" | "unat v < 2 ^ 30" "2 ^ 22 \<le> unat v"
    | "2 ^ 21 \<le> unat v" "unat v < 2 ^ 22" | "unat v < 2 ^ 21" by linarith
  then show ?thesis
    using low_index [OF v] e boot_links [OF assms(1)] huge_offset [of v]
    by cases (simp_all add: translate_def Let_def word_less_nat_alt links_def)
qed

lemma mark_low_pages_test: "bitmap_test (of_nat i) (mark_low_pages bm) \<longleftrightarrow> i < 512 \<or> bitmap_test (of_nat i) bm"
  if "i < 0x8000"
proof -
  have "bitmap_test x (fold (\<lambda>i. bitmap_set (of_nat i)) xs bm) \<longleftrightarrow> x \<in> of_nat ` set xs \<or> bitmap_test x bm" for x xs
    by (induction xs arbitrary: bm) auto
  moreover have "(of_nat i :: u64) \<in> of_nat ` {0..<512} \<longleftrightarrow> i < 512"
    using that by (auto simp: of_nat_page_eq)
  ultimately show ?thesis unfolding mark_low_pages_def by (simp only: set_upt)
qed

lemma pages_from_facts:
  "finite (pages_from n)" "n < 0x8000 \<Longrightarrow> pages_from n \<noteq> {}" "n < 0x8000 \<Longrightarrow> Min (pages_from n) = n"
  "pages_from n - {n} = pages_from (Suc n)" "card (pages_from n) = 0x8000 - n"
proof -
  show "finite (pages_from n)" by (simp add: pages_from_def)
  then show "n < 0x8000 \<Longrightarrow> Min (pages_from n) = n" by (intro Min_eqI) (auto simp: pages_from_def)
  show "n < 0x8000 \<Longrightarrow> pages_from n \<noteq> {}" "pages_from n - {n} = pages_from (Suc n)"
    by (auto simp: pages_from_def)
  have "pages_from n = {n..<0x8000}" by (simp only: pages_from_def atLeastLessThan_def atLeast_def lessThan_def) auto
  then show "card (pages_from n) = 0x8000 - n" by (simp only: card_atLeastLessThan)
qed

lemma free_after_mark:
  assumes "phys_bitmap s = mark_low_pages (\<lambda>_. 0)"
  shows "free_pages s = pages_from 512"
proof -
  have "bitmap_test (of_nat i) (phys_bitmap s) \<longleftrightarrow> i < 512" if "i < 0x8000" for i
    unfolding assms using that by (simp add: mark_low_pages_test) (simp add: bitmap_test_def)
  then show ?thesis by (auto simp: free_pages_def pages_from_def)
qed

lemma boot_user_stack:
  assumes "boot_layout r"
  shows "vpath 0x7FFFEFFFF000 = [255, 511, 383]" "no_huge (boot_paging r m) r 0x7FFFEFFFF000"
    "missing (boot_paging r m) r 0x7FFFEFFFF000 = 3"
proof -
  show path: "vpath 0x7FFFEFFFF000 = [255, 511, 383]"
    by (simp add: vpath_def pml4_index_def pdpt_index_def pd_index_def)
  have "table_path [255]" "table_path [255, 511]" "table_path [255, 511, 383]" "table_path []"
    by (simp_all add: table_path_def)
  then have none: "table_at (boot_paging r m) r [255] = None" "table_at (boot_paging r m) r [255, 511] = None"
    "table_at (boot_paging r m) r [255, 511, 383] = None" "table_at (boot_paging r m) r [] = Some r"
    by (simp_all add: boot_tables [OF assms])
  then show "missing (boot_paging r m) r 0x7FFFEFFFF000 = 3"
    unfolding missing_def path by (simp add: numeral_3_eq_3)
  show "no_huge (boot_paging r m) r 0x7FFFEFFFF000"
    using none boot_entries(1) [OF assms, of 255 m] unfolding no_huge_def path
    by (simp add: entry_at_def All_less_Suc numeral_3_eq_3)
qed

lemma unat_user_stack_aligned: "page_aligned 0x7FFFEFFFF000" "page_aligned 0x200000"
  by (simp_all add: page_aligned_def)

lemma mm_map_user_stack_boot:
  assumes "boot_layout (boot_pml4 s)" "pmem s = boot_paging (boot_pml4 s) m" "free_pages s = pages_from 512"
    and s': "s' = mm_map_user_stack s"
  shows "pt_ok (boot_pml4 s) s' \<and> mapping (pmem s') (boot_pml4 s) 0x7FFFEFFFF000 = 0x200007 \<and>
    card (free_pages s') = 0x8000 - 516"
proof -
  let ?r = "boot_pml4 s" and ?s0 = "console_puts ''[MM] Mapping user stack page...\<newline>'' s"
  have free0: "free_pages ?s0 = pages_from 512" using assms(3) free_pages_cong [of ?s0 s] by simp
  obtain a s1 where alloc: "pmm_alloc_page ?s0 = (a, s1)" by force
  have "a = page_addr 512" and free1: "free_pages s1 = pages_from 513"
    using pmm.alloc_least [of ?s0] alloc free0 by (simp_all add: pages_from_facts)
  then have a: "a = 0x200000" by (simp add: page_addr_def)
  have frame: "pmem s1 = pmem s" "boot_pml4 s1 = ?r"
    using pmm_frames(2,3) [of ?s0] alloc by simp_all
  have ok: "pt_ok ?r s1"
    using boot_tree_ok [OF assms(1), of "pages_from 513" m]
    by (simp add: pt_ok_def frame assms(2) free1) (simp add: pages_from_def)
  let ?s2 = "mm_map_page ?r 0x7FFFEFFFF000 0x200000 7 s1"
  have "pt_ok ?r ?s2 \<and> mapping (pmem ?s2) ?r 0x7FFFEFFFF000 = 0x200007 \<and> card (free_pages ?s2) = 0x8000 - 516"
    using mm_map_page_mapping [OF ok unat_user_stack_aligned _ refl, where f = 7] boot_user_stack(2,3) [OF assms(1), of m]
    by (simp add: frame assms(2) free1 same_page_def pages_from_facts)
  moreover have "pmem s' = pmem ?s2" "free_pages s' = free_pages ?s2"
    using alloc a frame by (simp_all add: s' mm_map_user_stack_def mm_get_kernel_pml4_def Let_def)
  ultimately show ?thesis by (simp add: pt_ok_def)
qed

lemma mm_init_boot:
  assumes "boot_state s"
  shows "pt_ok (boot_pml4 s) (mm_init s) \<and> mapping (pmem (mm_init s)) (boot_pml4 s) 0x7FFFEFFFF000 = 0x200007 \<and>
    card (free_pages (mm_init s)) = 0x8000 - 516"
proof -
  obtain m where m: "boot_layout (boot_pml4 s)" "pmem s = boot_paging (boot_pml4 s) m" "phys_bitmap s = (\<lambda>_. 0)"
    using assms by (auto simp: boot_state_def)
  define t where "t = kheap_init (console_puts ''\<newline>'' (console_put_dec MAX_PHYS_PAGES (console_puts ''     Physical pages: ''
    ((console_puts ''[MM] Initializing memory...\<newline>'' s)\<lparr>phys_bitmap := mark_low_pages (phys_bitmap s)\<rparr>))))"
  have t: "pmem t = pmem s" "boot_pml4 t = boot_pml4 s" "phys_bitmap t = mark_low_pages (\<lambda>_. 0)"
    by (simp_all add: t_def m(3))
  have init: "mm_init s = console_puts ''[MM] Ready\<newline>'' (mm_map_user_stack t)"
    by (simp add: mm_init_def t_def Let_def)
  have "pmem (mm_init s) = pmem (mm_map_user_stack t)" "free_pages (mm_init s) = free_pages (mm_map_user_stack t)"
    by (simp_all add: init)
  with mm_map_user_stack_boot [of t m, OF _ _ free_after_mark refl] m t show ?thesis
    by (simp add: pt_ok_def)
qed

lemma mm_map_page_huge:
  assumes "pmem s = boot_paging r m" "boot_layout r" "r \<noteq> 0" "page_aligned v" "page_aligned phys"
    "0x200000 \<le> v" "v < 0x400000"
  shows "mm_map_page r v phys f s = emit (Invlpg v)
    (s\<lparr>pmem := (pmem s)(0x200000 + 8 * pt_index v := (phys OR f) OR PTE_PRESENT)\<rparr>)"
proof -
  have v: "unat v < 2 ^ 48" "unat v < 2 ^ 39" "unat v < 2 ^ 30" "2 ^ 21 \<le> unat v" "unat v < 2 ^ 22"
    using assms(6,7) by (simp_all add: word_less_nat_alt word_le_nat_alt)
  then have idx: "pml4_index v = 0" "pdpt_index v = 0" "pd_index v = 1" using low_index [of v] by simp_all
  note e = boot_entries [OF assms(2), of 0 m] boot_entries [OF assms(2), of 1 m]
  show ?thesis
    using e boot_links [OF assms(2)] assms(3-5)
    by (simp add: mm_map_page_def next_pt_def next_table_def idx assms(1) page_aligned_def links_def cell_def)
qed

section \<open>Translation of a mapped page\<close>

lemma translate_mapping:
  assumes "table_at m r (vpath v) = Some t"
  shows "translate m r v = (if mapping m r v AND PTE_PRESENT = 0 then None
    else Some ((mapping m r v AND PTE_ADDR_MASK) OR (v AND 0xFFF)))"
  using assms
  by (simp add: translate_def mapping_def entry_at_def vpath_def table_at.simps links_def Let_def split: if_splits)

lemma leaf_address:
  assumes "page_aligned phys" "unat phys < 2 ^ 52" "f AND 0xFFF = f"
  shows "((phys OR f) OR PTE_PRESENT) AND PTE_ADDR_MASK = phys" "((phys OR f) OR PTE_PRESENT) AND PTE_PRESENT \<noteq> 0"
proof -
  have low: "0xFFF AND PTE_ADDR_MASK = 0" "PTE_PRESENT AND PTE_ADDR_MASK = 0" by simp_all
  have p: "phys AND PTE_ADDR_MASK = phys"
    using table_entry_read(2) [OF assms(1,2), of 0] by (simp add: bit.conj_disj_distrib2)
  have "f AND PTE_ADDR_MASK = f AND (0xFFF AND PTE_ADDR_MASK)" using assms(3) by (metis and.assoc)
  with p low show "((phys OR f) OR PTE_PRESENT) AND PTE_ADDR_MASK = phys"
    by (simp add: bit.conj_disj_distrib2)
  show "((phys OR f) OR PTE_PRESENT) AND PTE_PRESENT \<noteq> 0" by (simp add: bit.conj_disj_distrib2) 
qed

lemma KHEAP_START_range:
  assumes "0x100000 \<le> unat (kernel_end s)" "unat (kernel_end s) \<le> 0x1FF000"
  shows "unat (KHEAP_START s) \<le> 0x1FF000" "0x100000 \<le> unat (KHEAP_START s)"
proof -
  let ?e = "unat (kernel_end s) + 0xFFF"
  have "?e div 0x1000 \<le> 0x1FFFFF div 0x1000" "0x100000 div 0x1000 \<le> ?e div 0x1000"
    using assms by (intro div_le_mono; simp)+
  then show "unat (KHEAP_START s) \<le> 0x1FF000" "0x100000 \<le> unat (KHEAP_START s)"
    using assms KHEAP_START_nat [of s] by simp_all
qed

section \<open>A machine for the witnesses\<close>

definition boot_mm :: mm where
  "boot_mm = kheap.extend sample_heap
     \<lparr>phys_bitmap = (\<lambda>_. 0), pmem = boot_paging 0x101000 (\<lambda>_. 0), boot_pml4 = 0x101000\<rparr>"

definition marked_mm :: mm where
  "marked_mm = boot_mm\<lparr>phys_bitmap := mark_low_pages (\<lambda>_. 0)\<rparr>"

lemma boot_mm_fields [simp]:
  "phys_bitmap boot_mm = (\<lambda>_. 0)" "pmem boot_mm = boot_paging 0x101000 (\<lambda>_. 0)" "boot_pml4 boot_mm = 0x101000"
  "kernel_end boot_mm = 0x105800"
  by (simp_all add: boot_mm_def kheap.defs sample_heap_def kheap_init_def Let_def console.defs)

lemma sample_layout: "boot_layout 0x101000"
  by (simp add: boot_layout_def page_aligned_def)

lemma marked_mm_free: "free_pages marked_mm = pages_from 512"
  by (rule free_after_mark) (simp add: marked_mm_def)

lemma marked_mm_ok: "pt_ok 0x101000 marked_mm"
  using boot_tree_ok [OF sample_layout, of "pages_from 512"] marked_mm_free
  by (simp add: pt_ok_def marked_mm_def) (simp add: pages_from_def)

section \<open>Allocating a page and mapping it\<close>

text \<open>The step that page faults, \<^verbatim>\<open>sys_brk\<close>, \<^verbatim>\<open>sys_mmap\<close> and the ELF loader share.\<close>

lemma pmm_alloc_pt:
  assumes "pt_ok r s" "free_pages s \<noteq> {}" "pmm_alloc_page s = (phys, t)"
  shows "pt_ok r t" "pmem t = pmem s" "phys = page_addr (Min (free_pages s))" "phys \<noteq> 0" "page_aligned phys"
    "unat phys < 2 ^ 52" "card (free_pages t) + 1 = card (free_pages s)" "boot_pml4 t = boot_pml4 s"
proof -
  note a = pmm.alloc_least [OF assms(2)] assms(3)
  then show p: "phys = page_addr (Min (free_pages s))" by simp
  have ft: "free_pages t = free_pages s - {Min (free_pages s)}" using a by simp
  have m: "Min (free_pages s) \<in> free_pages s" using Min_in [OF _ assms(2)] by simp
  then have lt: "Min (free_pages s) < 0x8000" by (simp add: free_pages_def)
  show pm: "pmem t = pmem s" "boot_pml4 t = boot_pml4 s" using pmm_alloc_page_some [OF assms(2)] assms(3) by auto
  show "pt_ok r t" using assms(1) ft pm tree_ok_mono [of "pmem s" r "free_pages s" "free_pages t"] by (auto simp: pt_ok_def)
  have "Min (free_pages s) \<noteq> 0" using m assms(1) by (metis pt_ok_def)
  then show "phys \<noteq> 0" using p lt by simp
  have u: "unat phys = Min (free_pages s) * 0x1000" using unat_page_addr [OF lt] p by simp
  then show "unat phys < 2 ^ 52" using lt by simp
  show "page_aligned phys"
  proof -
    have "unat (phys AND 0xFFF) = unat phys mod 2 ^ 12"
      using unat_take_bit_mod [of 12 phys] by (simp add: take_bit_eq_mask mask_12)
    then show ?thesis using u by (simp add: page_aligned_def unat_eq_0 [symmetric])
  qed
  show "card (free_pages t) + 1 = card (free_pages s)"
    using card_Suc_Diff1 [OF _ m] ft by simp
qed

lemma alloc_map_page:
  assumes "pt_ok r s" "page_aligned v" "no_huge (pmem s) r v" "missing (pmem s) r v < card (free_pages s)" "f AND 0xFFF = f"
    and "pmm_alloc_page s = (phys, s1)"
  shows "phys = page_addr (Min (free_pages s))" "phys \<noteq> 0" "pt_ok r (mm_map_page r v phys f s1)"
    "\<forall>w. mapping (pmem (mm_map_page r v phys f s1)) r w = (if same_page v w then (phys OR f) OR PTE_PRESENT else mapping (pmem s) r w)"
    "card (free_pages (mm_map_page r v phys f s1)) = card (free_pages s) - 1 - missing (pmem s) r v"
    "translate (pmem (mm_map_page r v phys f s1)) r v = Some phys"
proof -
  have ne: "free_pages s \<noteq> {}" using assms(4) by auto
  note a = pmm_alloc_pt [OF assms(1) ne assms(6)]
  show "phys = page_addr (Min (free_pages s))" "phys \<noteq> 0" by (fact a)+
  have huge: "no_huge (pmem s1) r v" and miss: "missing (pmem s1) r v \<le> card (free_pages s1)"
    using assms(3,4) a(2,7) by simp_all
  note m = mm_map_page_mapping [OF a(1) assms(2) a(5) huge refl, of f]
  then show "pt_ok r (mm_map_page r v phys f s1)" by simp
  show map: "\<forall>w. mapping (pmem (mm_map_page r v phys f s1)) r w = (if same_page v w then (phys OR f) OR PTE_PRESENT else mapping (pmem s) r w)"
    "card (free_pages (mm_map_page r v phys f s1)) = card (free_pages s) - 1 - missing (pmem s) r v"
    using m miss a(2,7) by simp_all
  let ?m = "pmem (mm_map_page r v phys f s1)"
  have e: "mapping ?m r v = (phys OR f) OR PTE_PRESENT" using map(1) by (simp add: same_page_def)
  moreover have "(phys OR f) OR PTE_PRESENT \<noteq> 0" using leaf_address(2) [OF a(5,6) assms(5)] by force
  ultimately obtain t where t: "table_at ?m r (vpath v) = Some t"
    by (auto simp: mapping_def entry_at_def split: option.splits)
  show "translate ?m r v = Some phys"
    using translate_mapping [OF t] e leaf_address [OF a(5,6) assms(5)] assms(2) by (simp add: page_aligned_def)
qed

section \<open>Properties\<close>

text \<open>
  C5: \<^verbatim>\<open>pmm_alloc_page\<close> hands out the lowest free page, takes exactly that page out of the pool, and
  \<^verbatim>\<open>pmm_free_page\<close> of its result restores the pool.
\<close>

theorem pmm_alloc_release:
  assumes "free_pages s \<noteq> {}" "pmm_alloc_page s = (a, t)"
  shows "a = page_addr (Min (free_pages s)) \<and> free_pages t = free_pages s - {Min (free_pages s)} \<and>
    free_pages (pmm_free_page a t) = free_pages s"
  using pmm.alloc_least [OF assms(1)] pmm.alloc_release [OF assms] assms(2) by simp

theorem pmm_alloc_release_witness:
  "fst (pmm_alloc_page marked_mm) = 0x200000 \<and>
   free_pages (pmm_free_page 0x200000 (snd (pmm_alloc_page marked_mm))) = pages_from 512"
  using pmm_alloc_release [of marked_mm "fst (pmm_alloc_page marked_mm)" "snd (pmm_alloc_page marked_mm)"]
  by (simp add: marked_mm_free pages_from_facts page_addr_def) metis

text \<open>
  C1: with well-formed tables, \<^verbatim>\<open>mm_map_page\<close> of an aligned page that no huge page covers changes the
  mapping of that page and of no other, using one free page per missing table; when fewer are
  free than tables are missing it changes no mapping.  The tables stay well-formed either way.
\<close>

theorem mm_map_page_refines:
  assumes "pt_ok r s" "page_aligned v" "page_aligned phys" "no_huge (pmem s) r v"
  shows "pt_ok r (mm_map_page r v phys f s) \<and>
    (if missing (pmem s) r v \<le> card (free_pages s)
     then (\<forall>w. mapping (pmem (mm_map_page r v phys f s)) r w =
             (if same_page v w then (phys OR f) OR PTE_PRESENT else mapping (pmem s) r w)) \<and>
       card (free_pages (mm_map_page r v phys f s)) = card (free_pages s) - missing (pmem s) r v
     else \<forall>w. mapping (pmem (mm_map_page r v phys f s)) r w = mapping (pmem s) r w)"
  using mm_map_page_mapping [OF assms refl, where f = f] by blast

theorem mm_map_page_refines_witness:
  "mapping (pmem (mm_map_page 0x101000 0x7FFFEFFFF000 0x200000 7 marked_mm)) 0x101000 0x7FFFEFFFF000 = 0x200007 \<and>
   card (free_pages (mm_map_page 0x101000 0x7FFFEFFFF000 0x200000 7 marked_mm)) = 0x8000 - 515"
  using mm_map_page_refines [OF marked_mm_ok unat_user_stack_aligned, of 7] marked_mm_free
    boot_user_stack(2,3) [OF sample_layout, of "\<lambda>_. 0"]
  by (simp add: marked_mm_def same_page_def pages_from_facts)

text \<open>
  After \<^verbatim>\<open>mm_map_page\<close> with flags in the low twelve bits and enough free pages, the processor's
  page walk takes the virtual page to the physical page.
\<close>

theorem mm_map_page_translates:
  assumes "pt_ok r s" "page_aligned v" "page_aligned phys" "no_huge (pmem s) r v"
    "missing (pmem s) r v \<le> card (free_pages s)" "unat phys < 2 ^ 52" "f AND 0xFFF = f"
  shows "translate (pmem (mm_map_page r v phys f s)) r v = Some phys"
proof -
  let ?m = "pmem (mm_map_page r v phys f s)"
  have e: "mapping ?m r v = (phys OR f) OR PTE_PRESENT"
    using mm_map_page_mapping [OF assms(1-4) refl, of f] assms(5) by (simp add: same_page_def)
  moreover have "(phys OR f) OR PTE_PRESENT \<noteq> 0" using leaf_address(2) [OF assms(3,6,7)] by force
  ultimately obtain t where t: "table_at ?m r (vpath v) = Some t"
    by (auto simp: mapping_def entry_at_def split: option.splits)
  show ?thesis
    using translate_mapping [OF t] e leaf_address [OF assms(3,6,7)] assms(2)
    by (simp add: page_aligned_def)
qed

theorem mm_map_page_translates_witness:
  "translate (pmem (mm_map_page 0x101000 0x7FFFEFFFF000 0x200000 7 marked_mm)) 0x101000 0x7FFFEFFFF000 = Some 0x200000"
  using boot_user_stack(2,3) [OF sample_layout, of "\<lambda>_. 0"] marked_mm_free
  by (intro mm_map_page_translates [OF marked_mm_ok unat_user_stack_aligned])
    (simp_all add: marked_mm_def pages_from_facts)

text \<open>
  C6: from the state the boot code leaves, \<^verbatim>\<open>mm_init\<close> establishes the invariant of the page tables
  and maps the page under \<^verbatim>\<open>USER_STACK_TOP\<close> with user and write permission.  The frame it gets is
  the one at 2 MiB, because only the first 2 MiB are marked as used; when the image ends between
  1 MiB and 2 MiB that frame lies inside the kernel heap.
\<close>

theorem mm_init_user_stack:
  assumes "boot_state s" "0x100000 \<le> unat (kernel_end s)" "unat (kernel_end s) \<le> 0x1FF000"
  shows "pt_ok (boot_pml4 s) (mm_init s) \<and>
    mapping (pmem (mm_init s)) (boot_pml4 s) (USER_STACK_TOP - PAGE_SIZE) = 0x200000 OR 7 \<and>
    card (free_pages (mm_init s)) = 0x8000 - 516 \<and>
    KHEAP_START s < 0x200000 \<and> 0x200000 < KHEAP_END s"
proof -
  have "unat (KHEAP_START s) \<le> 0x1FF000" "0x100000 \<le> unat (KHEAP_START s)"
    by (rule KHEAP_START_range [OF assms(2,3)])+
  then have "KHEAP_START s < 0x200000" "0x200000 < KHEAP_END s"
    by (simp_all add: KHEAP_END_def word_less_nat_alt unat_add_small)
  with mm_init_boot [OF assms(1)] show ?thesis by simp
qed

theorem mm_init_user_stack_witness:
  "mapping (pmem (mm_init boot_mm)) 0x101000 0x7FFFEFFFF000 = 0x200007 \<and>
   KHEAP_START boot_mm < 0x200000 \<and> 0x200000 < KHEAP_END boot_mm"
proof -
  have "boot_state boot_mm" using sample_layout by (auto simp: boot_state_def)
  from mm_init_user_stack [OF this] show ?thesis by simp
qed

text \<open>
  The boot tables map exactly the first 4 MiB, each address to itself.  A kernel image that ends
  above 1 MiB therefore has a heap whose end is not mapped.
\<close>

theorem boot_identity_map:
  assumes "boot_layout r" "v < 0x1000000000000" "0x100000 \<le> unat (kernel_end s)" "unat (kernel_end s) \<le> 0x1FF000"
  shows "translate (boot_paging r m) r v = (if v < 0x400000 then Some v else None) \<and>
    translate (boot_paging r m) r (KHEAP_END s - 1) = None"
proof -
  have "unat (KHEAP_START s) \<le> 0x1FF000" "0x100000 \<le> unat (KHEAP_START s)"
    by (rule KHEAP_START_range [OF assms(3,4)])+
  moreover have "KHEAP_END s - 1 = KHEAP_START s + 0x3FFFFF" by (simp add: KHEAP_END_def)
  ultimately have "unat (KHEAP_END s - 1) = unat (KHEAP_START s) + 0x3FFFFF"
    by (simp add: unat_add_small)
  with \<open>unat (KHEAP_START s) \<le> 0x1FF000\<close> \<open>0x100000 \<le> unat (KHEAP_START s)\<close>
  have "KHEAP_END s - 1 < 0x1000000000000" "\<not> KHEAP_END s - 1 < 0x400000"
    by (simp_all add: word_less_nat_alt)
  then show ?thesis using boot_translate [OF assms(1)] assms(2) by simp
qed

theorem boot_identity_map_witness:
  "translate (boot_paging 0x101000 (\<lambda>_. 0)) 0x101000 0x3FFFFF = Some 0x3FFFFF \<and>
   translate (boot_paging 0x101000 (\<lambda>_. 0)) 0x101000 (KHEAP_END boot_mm - 1) = None"
  using boot_identity_map [OF sample_layout, of "0x3FFFFF" boot_mm "\<lambda>_. 0"] by simp

text \<open>
  The check for huge pages never fires on a page that is present: mapping an address between
  2 MiB and 4 MiB under the boot tables stores the entry into the huge page itself, at
  \<^verbatim>\<open>0x200000 + 8 * pt_index(virt)\<close>, and reports nothing.
\<close>

theorem mm_map_page_over_huge:
  assumes "pmem s = boot_paging r m" "boot_layout r" "page_aligned v" "page_aligned phys" "0x200000 \<le> v" "v < 0x400000"
  shows "mm_map_page r v phys f s = emit (Invlpg v)
    (s\<lparr>pmem := (pmem s)(0x200000 + 8 * pt_index v := (phys OR f) OR PTE_PRESENT)\<rparr>)"
proof -
  have "r \<noteq> 0" using assms(2) by (auto simp: boot_layout_def)
  with mm_map_page_huge [OF assms(1,2) _ assms(3-)] show ?thesis .
qed

theorem mm_map_page_over_huge_witness:
  "pmem (mm_map_page 0x101000 0x300000 0x500000 3 boot_mm) 0x200800 = 0x500003"
  using mm_map_page_over_huge [of boot_mm "0x101000" "\<lambda>_. 0" "0x300000" "0x500000" 3] sample_layout
  by (simp add: page_aligned_def pt_index_def)

end
