(* ===== verification/Keyboard.thy ===== *)
theory Keyboard
  imports Mm
begin

text \<open>
  The PS/2 keyboard driver, \<^verbatim>\<open>drivers/keyboard.c\<close>: the ring buffer of typed characters, the
  translation of scan codes with its modifier keys, and the echo on the console.
\<close>

record keyboard_buffer_t =
  buffer :: "u32 \<Rightarrow> char"
  head :: u32
  tail :: u32
  count :: u32

record keyboard = mm +
  kb_buffer :: keyboard_buffer_t
  shift_pressed :: bool
  ctrl_pressed :: bool
  caps_lock :: bool
  extended_key :: bool

abbreviation (input) "KEYBOARD_BUFFER_SIZE \<equiv> (256 :: u32)"
abbreviation (input) "KEY_BACKSPACE \<equiv> (0x0E :: u8)"
abbreviation (input) "KEY_LCTRL \<equiv> (0x1D :: u8)"
abbreviation (input) "KEY_LSHIFT \<equiv> (0x2A :: u8)"
abbreviation (input) "KEY_RSHIFT \<equiv> (0x36 :: u8)"
abbreviation (input) "KEY_CAPSLOCK \<equiv> (0x3A :: u8)"
abbreviation (input) "KEY_EXTENDED \<equiv> (0xE0 :: u8)"
abbreviation (input) "KEY_UP \<equiv> (0x48 :: u8)"
abbreviation (input) "KEY_DOWN \<equiv> (0x50 :: u8)"
abbreviation (input) "KEY_LEFT \<equiv> (0x4B :: u8)"
abbreviation (input) "KEY_RIGHT \<equiv> (0x4D :: u8)"
abbreviation (input) "KEYCODE_UP \<equiv> CHR 0x80"
abbreviation (input) "KEYCODE_DOWN \<equiv> CHR 0x81"
abbreviation (input) "KEYCODE_LEFT \<equiv> CHR 0x82"
abbreviation (input) "KEYCODE_RIGHT \<equiv> CHR 0x83"

definition scancode_ascii_lower :: "char list" where
  "scancode_ascii_lower =
     [CHR 0x00, CHR 0x1B] @ ''1234567890-='' @ [CHR 0x08, CHR 0x09] @ ''qwertyuiop[]'' @ [CHR 0x0A, CHR 0x00] @
     ''asdfghjkl;'' @ [CHR 0x27, CHR 0x60, CHR 0x00, CHR 0x5C] @ ''zxcvbnm,./'' @
     [CHR 0x00, CHR ''*'', CHR 0x00, CHR '' ''] @ replicate 70 (CHR 0x00)"

definition scancode_ascii_upper :: "char list" where
  "scancode_ascii_upper =
     [CHR 0x00, CHR 0x1B] @ ''!@#$%^&*()_+'' @ [CHR 0x08, CHR 0x09] @ ''QWERTYUIOP{}'' @ [CHR 0x0A, CHR 0x00] @
     ''ASDFGHJKL:'' @ [CHR 0x22, CHR ''~'', CHR 0x00, CHR ''|''] @ ''ZXCVBNM<>?'' @
     [CHR 0x00, CHR ''*'', CHR 0x00, CHR '' ''] @ replicate 70 (CHR 0x00)"

definition scancode_to_ascii :: "u8 \<Rightarrow> bool \<Rightarrow> 'a keyboard_scheme \<Rightarrow> char" where
  "scancode_to_ascii scancode shift s =
     (if 128 \<le> scancode then CHR 0x00
      else (let upper = (shift \<noteq> caps_lock s)
            in if upper then scancode_ascii_upper ! unat scancode else scancode_ascii_lower ! unat scancode))"

section \<open>The ring buffer\<close>

definition keyboard_buffer_push :: "char \<Rightarrow> 'a keyboard_scheme \<Rightarrow> bool \<times> 'a keyboard_scheme" where
  "keyboard_buffer_push c s =
     (case save_flags_cli s of (flags, s1) \<Rightarrow>
        let b = kb_buffer s1
        in if count b < KEYBOARD_BUFFER_SIZE
           then (True, restore_flags flags (s1\<lparr>kb_buffer := b\<lparr>buffer := (buffer b)(head b := c),
                   head := (head b + 1) mod KEYBOARD_BUFFER_SIZE, count := count b + 1\<rparr>\<rparr>))
           else (False, restore_flags flags s1))"

text \<open>The popped character is \<^verbatim>\<open>*c\<close>, which is written only on success.\<close>

definition keyboard_buffer_pop :: "'a keyboard_scheme \<Rightarrow> char option \<times> 'a keyboard_scheme" where
  "keyboard_buffer_pop s =
     (case save_flags_cli s of (flags, s1) \<Rightarrow>
        let b = kb_buffer s1
        in if 0 < count b
           then (Some (buffer b (tail b)), restore_flags flags (s1\<lparr>kb_buffer :=
                   b\<lparr>tail := (tail b + 1) mod KEYBOARD_BUFFER_SIZE, count := count b - 1\<rparr>\<rparr>))
           else (None, restore_flags flags s1))"

definition keyboard_buffer_available :: "'a keyboard_scheme \<Rightarrow> u32 \<times> 'a keyboard_scheme" where
  "keyboard_buffer_available s =
     (case save_flags_cli s of (flags, s1) \<Rightarrow> (count (kb_buffer s1), restore_flags flags s1))"

definition keyboard_buffer_backspace :: "'a keyboard_scheme \<Rightarrow> bool \<times> 'a keyboard_scheme" where
  "keyboard_buffer_backspace s =
     (case save_flags_cli s of (flags, s1) \<Rightarrow>
        let b = kb_buffer s1; last = (head b + KEYBOARD_BUFFER_SIZE - 1) mod KEYBOARD_BUFFER_SIZE
        in if 0 < count b \<and> buffer b last \<noteq> CHR 0x0A
           then (True, restore_flags flags (s1\<lparr>kb_buffer := b\<lparr>head := last, count := count b - 1\<rparr>\<rparr>))
           else (False, restore_flags flags s1))"

section \<open>Scan codes\<close>

definition push_arrow :: "u8 \<Rightarrow> 'a keyboard_scheme \<Rightarrow> 'a keyboard_scheme" where
  "push_arrow key s =
     (if key = KEY_UP then snd (keyboard_buffer_push KEYCODE_UP s)
      else if key = KEY_DOWN then snd (keyboard_buffer_push KEYCODE_DOWN s)
      else if key = KEY_LEFT then snd (keyboard_buffer_push KEYCODE_LEFT s)
      else if key = KEY_RIGHT then snd (keyboard_buffer_push KEYCODE_RIGHT s)
      else s)"

definition press_key :: "u8 \<Rightarrow> 'a keyboard_scheme \<Rightarrow> 'a keyboard_scheme" where
  "press_key key s =
     (if key = KEY_BACKSPACE
      then (case keyboard_buffer_backspace s of (ok, s1) \<Rightarrow>
              if ok then console_putchar CHR 0x08 (console_putchar CHR '' '' (console_putchar CHR 0x08 s1)) else s1)
      else (let c = scancode_to_ascii key (shift_pressed s) s
            in if c = CHR 0x00 then s
               else if ctrl_pressed s \<and> (c = CHR ''l'' \<or> c = CHR ''L'') then console_clear s
               else (case keyboard_buffer_push c s of (ok, s1) \<Rightarrow> if ok then console_putchar c s1 else s1)))"

text \<open>\<^verbatim>\<open>keyboard_handle_scancode\<close> after it has split the scan code into key and release bit.\<close>

definition key_event :: "bool \<Rightarrow> u8 \<Rightarrow> 'a keyboard_scheme \<Rightarrow> 'a keyboard_scheme" where
  "key_event release key s =
     (if extended_key s
      then (let s1 = s\<lparr>extended_key := False\<rparr> in if release then s1 else push_arrow key s1)
      else if key = KEY_LSHIFT \<or> key = KEY_RSHIFT then s\<lparr>shift_pressed := \<not> release\<rparr>
      else if key = KEY_LCTRL then s\<lparr>ctrl_pressed := \<not> release\<rparr>
      else if key = KEY_CAPSLOCK \<and> \<not> release then s\<lparr>caps_lock := \<not> caps_lock s\<rparr>
      else if release then s
      else press_key key s)"

definition keyboard_handle_scancode :: "u8 \<Rightarrow> 'a keyboard_scheme \<Rightarrow> 'a keyboard_scheme" where
  "keyboard_handle_scancode scancode s =
     (if scancode = KEY_EXTENDED then s\<lparr>extended_key := True\<rparr>
      else key_event (scancode AND 0x80 \<noteq> 0) (scancode AND 0x7F) s)"

definition keyboard_get_shift :: "'a keyboard_scheme \<Rightarrow> bool" where
  "keyboard_get_shift s = shift_pressed s"

definition keyboard_get_ctrl :: "'a keyboard_scheme \<Rightarrow> bool" where
  "keyboard_get_ctrl s = ctrl_pressed s"

section \<open>Initialisation\<close>

text \<open>The controller is drained until its status says that no byte waits, which may never happen.\<close>

partial_function (option) drain_controller :: "'a keyboard_scheme \<Rightarrow> 'a keyboard_scheme option" where
  "drain_controller s =
     (case inb 0x64 s of (status, s1) \<Rightarrow>
        if status AND 1 \<noteq> 0 then drain_controller (snd (inb 0x60 s1)) else Some s1)"

definition keyboard_init :: "'a keyboard_scheme \<Rightarrow> 'a keyboard_scheme option" where
  "keyboard_init s =
     (let s1 = s\<lparr>kb_buffer := (kb_buffer s)\<lparr>head := 0, tail := 0, count := 0\<rparr>,
                 shift_pressed := False, ctrl_pressed := False, caps_lock := False\<rparr>
      in case drain_controller s1 of
           None \<Rightarrow> None
         | Some s2 \<Rightarrow> Some (console_puts ''[KBD] Keyboard initialized\<newline>'' s2))"

section \<open>Frames\<close>

lemma keyboard_field_cong:
  fixes s t :: "'a keyboard_scheme"
  assumes "mm.more t = mm.more s"
  shows "kb_buffer t = kb_buffer s" "shift_pressed t = shift_pressed s" "ctrl_pressed t = ctrl_pressed s"
    "caps_lock t = caps_lock s" "extended_key t = extended_key s" "keyboard.more t = keyboard.more s"
  using assms by (cases s; cases t; simp)+

lemmas keyboard_mm_frames [simp] =
  mm_frames [THEN keyboard_field_cong(1)] mm_frames [THEN keyboard_field_cong(2)]
  mm_frames [THEN keyboard_field_cong(3)] mm_frames [THEN keyboard_field_cong(4)]
  mm_frames [THEN keyboard_field_cong(5)] mm_frames [THEN keyboard_field_cong(6)]

lemma save_flags_pair: "save_flags_cli s = (iflag s, cli s)"
  by (simp add: save_flags_cli_def)

lemmas keyboard_op_defs = keyboard_buffer_push_def keyboard_buffer_pop_def keyboard_buffer_available_def
  keyboard_buffer_backspace_def save_flags_pair Let_def

lemma keyboard_op_frames [simp]:
  "keyboard.more (snd (keyboard_buffer_push c s)) = keyboard.more s"
  "keyboard.more (snd (keyboard_buffer_pop s)) = keyboard.more s"
  "keyboard.more (snd (keyboard_buffer_available s)) = keyboard.more s"
  "keyboard.more (snd (keyboard_buffer_backspace s)) = keyboard.more s"
  by (simp_all add: keyboard_op_defs)

lemma push_arrow_frame [simp]: "keyboard.more (push_arrow k s) = keyboard.more s"
  by (simp add: push_arrow_def)

lemma press_key_frame [simp]: "keyboard.more (press_key k s) = keyboard.more s"
  unfolding press_key_def Let_def split_def by simp

lemma key_event_frame [simp]: "keyboard.more (key_event r k s) = keyboard.more s"
  by (simp add: key_event_def)

lemma keyboard_handle_frame [simp]: "keyboard.more (keyboard_handle_scancode sc s) = keyboard.more s"
  by (simp add: keyboard_handle_scancode_def)

lemma drain_controller_frame:
  assumes "drain_controller s = Some t"
  shows "mm.more t = mm.more s \<and> iflag t = iflag s"
proof (rule drain_controller.raw_induct [where P = "\<lambda>s t. mm.more t = mm.more s \<and> iflag t = iflag s", OF _ assms])
  fix drain and s t :: "'a keyboard_scheme"
  assume IH: "\<And>s t. drain s = Some t \<Longrightarrow> mm.more t = mm.more s \<and> iflag t = iflag s"
    and eq: "(case inb 0x64 s of (status, s1) \<Rightarrow>
        if status AND 1 \<noteq> 0 then drain (snd (inb 0x60 s1)) else Some s1) = Some t"
  show "mm.more t = mm.more s \<and> iflag t = iflag s"
    using eq IH [of "snd (inb 0x60 (snd (inb 0x64 s)))" t] by (auto simp: split_def split: if_splits)
qed

lemma keyboard_init_frame: "keyboard_init s = Some t \<Longrightarrow> keyboard.more t = keyboard.more s"
  by (auto simp: keyboard_init_def Let_def split: option.splits dest!: drain_controller_frame [THEN conjunct1, THEN keyboard_field_cong(6)])

lemmas keyboard_frames = mm_frames [THEN keyboard_field_cong(6)] keyboard_op_frames keyboard_handle_frame

end
