(* ===== verification/Keyboard_Props.thy ===== *)
theory Keyboard_Props
  imports Keyboard Mm_Props
begin

text \<open>
  Correctness of \<^verbatim>\<open>drivers/keyboard.c\<close>.  The ring buffer implements a bounded first-in first-out
  queue (locale \<open>bounded_fifo\<close>), and the scan code handler refines an abstract keyboard made of a
  queue and four modifier flags.
\<close>

section \<open>Specification\<close>

definition kb_ok :: "keyboard_buffer_t \<Rightarrow> bool" where
  "kb_ok b \<longleftrightarrow> head b < 256 \<and> tail b < 256 \<and> count b \<le> 256 \<and> head b = (tail b + count b) mod 256"

text \<open>The characters in the ring, the oldest first.\<close>

definition kb_queue :: "keyboard_buffer_t \<Rightarrow> char list" where
  "kb_queue b = map (\<lambda>i. buffer b ((tail b + of_nat i) mod 256)) [0..<unat (count b)]"

text \<open>What the driver promises: a queue and four modifier flags.\<close>

record kb_spec =
  typed :: "char list"
  shift :: bool
  ctrl :: bool
  caps :: bool
  ext :: bool

definition kb_abs :: "'a keyboard_scheme \<Rightarrow> kb_spec" where
  "kb_abs s = \<lparr>typed = kb_queue (kb_buffer s), shift = shift_pressed s, ctrl = ctrl_pressed s,
     caps = caps_lock s, ext = extended_key s\<rparr>"

definition enqueue :: "char \<Rightarrow> kb_spec \<Rightarrow> kb_spec" where
  "enqueue c a = (if length (typed a) < 256 then a\<lparr>typed := typed a @ [c]\<rparr> else a)"

definition rub_out :: "kb_spec \<Rightarrow> kb_spec" where
  "rub_out a = (if typed a \<noteq> [] \<and> last (typed a) \<noteq> CHR 0x0A then a\<lparr>typed := butlast (typed a)\<rparr> else a)"

definition glyph :: "u8 \<Rightarrow> kb_spec \<Rightarrow> char" where
  "glyph key a = (if shift a \<noteq> caps a then scancode_ascii_upper ! unat key else scancode_ascii_lower ! unat key)"

definition arrow :: "u8 \<Rightarrow> char option" where
  "arrow key = map_of [(0x48, CHR 0x80), (0x50, CHR 0x81), (0x4B, CHR 0x82), (0x4D, CHR 0x83)] key"

definition spec_press :: "u8 \<Rightarrow> kb_spec \<Rightarrow> kb_spec" where
  "spec_press key a =
     (if key = 0x0E then rub_out a
      else if glyph key a = CHR 0x00 \<or> ctrl a \<and> glyph key a \<in> {CHR ''l'', CHR ''L''} then a
      else enqueue (glyph key a) a)"

definition spec_key :: "bool \<Rightarrow> u8 \<Rightarrow> kb_spec \<Rightarrow> kb_spec" where
  "spec_key release key a =
     (if ext a then (case arrow key of
          Some c \<Rightarrow> if release then a\<lparr>ext := False\<rparr> else enqueue c (a\<lparr>ext := False\<rparr>)
        | None \<Rightarrow> a\<lparr>ext := False\<rparr>)
      else if key \<in> {0x2A, 0x36} then a\<lparr>shift := \<not> release\<rparr>
      else if key = 0x1D then a\<lparr>ctrl := \<not> release\<rparr>
      else if release then a
      else if key = 0x3A then a\<lparr>caps := \<not> caps a\<rparr>
      else spec_press key a)"

definition spec_scancode :: "u8 \<Rightarrow> kb_spec \<Rightarrow> kb_spec" where
  "spec_scancode sc a =
     (if sc = 0xE0 then a\<lparr>ext := True\<rparr> else spec_key (sc AND 0x80 \<noteq> 0) (sc AND 0x7F) a)"

text \<open>The key that types a character without modifiers, and the scan codes of a text.\<close>

definition key_of :: "char \<Rightarrow> u8" where
  "key_of c = of_nat (length (takeWhile (\<lambda>x. x \<noteq> c) scancode_ascii_lower))"

definition typeable :: "char \<Rightarrow> bool" where
  "typeable c \<longleftrightarrow> c \<in> set scancode_ascii_lower \<and> c \<noteq> CHR 0x00 \<and> c \<noteq> CHR 0x08"

definition strokes :: "string \<Rightarrow> u8 list" where
  "strokes text = concat (map (\<lambda>c. [key_of c, key_of c OR 0x80]) text)"

primrec read_keys :: "nat \<Rightarrow> 'a keyboard_scheme \<Rightarrow> char option list \<times> 'a keyboard_scheme" where
  "read_keys 0 s = ([], s)"
| "read_keys (Suc n) s =
     (case keyboard_buffer_pop s of (r, t) \<Rightarrow> case read_keys n t of (rs, u) \<Rightarrow> (r # rs, u))"

text \<open>How often the data port has been read, for the controllers of the liveness property.\<close>

definition data_reads :: "cpu_event list \<Rightarrow> nat" where
  "data_reads tr = length (filter (\<lambda>e. case e of InB p v \<Rightarrow> p = 0x60 | _ \<Rightarrow> False) tr)"

text \<open>A controller that reports a waiting byte until \<open>n\<close> bytes have been read.\<close>

definition holds_bytes :: "nat \<Rightarrow> (cpu_event list \<Rightarrow> u16 \<Rightarrow> u16) \<Rightarrow> bool" where
  "holds_bytes n d \<longleftrightarrow> (\<forall>tr. (ucast (d tr 0x64) :: u8) AND 1 \<noteq> 0 \<longleftrightarrow> data_reads tr < n)"

definition cold_keyboard :: keyboard where
  "cold_keyboard = mm.extend marked_mm
     \<lparr>kb_buffer = \<lparr>buffer = (\<lambda>_. CHR 0x00), head = 0, tail = 0, count = 0\<rparr>, shift_pressed = False,
      ctrl_pressed = False, caps_lock = False, extended_key = False\<rparr>"

section \<open>Bounded queues\<close>

locale bounded_fifo =
  fixes inv :: "'s \<Rightarrow> bool"
    and items :: "'s \<Rightarrow> 'c list"
    and cap :: nat
    and push :: "'c \<Rightarrow> 's \<Rightarrow> bool \<times> 's"
    and pop :: "'s \<Rightarrow> 'c option \<times> 's"
  assumes push_law: "inv s \<Longrightarrow> push c s = (ok, t) \<Longrightarrow>
      inv t \<and> ok = (length (items s) < cap) \<and> items t = (if ok then items s @ [c] else items s)"
    and pop_law: "inv s \<Longrightarrow> pop s = (r, t) \<Longrightarrow> inv t \<and>
      (case items s of [] \<Rightarrow> r = None \<and> items t = [] | x # xs \<Rightarrow> r = Some x \<and> items t = xs)"
begin

definition push_all :: "'c list \<Rightarrow> 's \<Rightarrow> 's" where
  "push_all cs s = fold (\<lambda>c s. snd (push c s)) cs s"

primrec pop_all :: "nat \<Rightarrow> 's \<Rightarrow> 'c option list \<times> 's" where
  "pop_all 0 s = ([], s)"
| "pop_all (Suc n) s = (case pop s of (r, t) \<Rightarrow> case pop_all n t of (rs, u) \<Rightarrow> (r # rs, u))"

lemma push_all_items:
  "inv s \<Longrightarrow> length (items s) + length cs \<le> cap \<Longrightarrow> inv (push_all cs s) \<and> items (push_all cs s) = items s @ cs"
proof (induction cs arbitrary: s)
  case (Cons c cs)
  obtain ok t where t: "push c s = (ok, t)" by force
  with push_law [OF Cons.prems(1) t] Cons.prems(2) have "inv t" "items t = items s @ [c]" by auto
  with Cons.IH [of t] Cons.prems(2) t show ?case by (simp add: push_all_def)
qed (simp add: push_all_def)

lemma pop_all_items:
  "inv s \<Longrightarrow> n \<le> length (items s) \<Longrightarrow>
   fst (pop_all n s) = map Some (take n (items s)) \<and> inv (snd (pop_all n s)) \<and> items (snd (pop_all n s)) = drop n (items s)"
proof (induction n arbitrary: s)
  case (Suc n)
  obtain r t where t: "pop s = (r, t)" by force
  from Suc.prems(2) obtain x xs where xs: "items s = x # xs" by (cases "items s") auto
  with pop_law [OF Suc.prems(1) t] have "inv t" "r = Some x" "items t = xs" by auto
  with Suc.IH [of t] Suc.prems(2) xs t show ?case by (auto split: prod.splits)
qed simp

lemma fifo:
  "inv s \<Longrightarrow> items s = [] \<Longrightarrow> length cs \<le> cap \<Longrightarrow> fst (pop_all (length cs) (push_all cs s)) = map Some cs"
  using push_all_items [of s cs] pop_all_items [of "push_all cs s" "length cs"] by simp

end

section \<open>The ring buffer\<close>

lemma ring_mod: "unat ((a + b) mod 256 :: u32) = (unat a + unat b) mod 256"
  if "unat a + unat b < 2 ^ 32" for a b :: u32
  using that by (simp add: unat_mod unat_add_small)

lemma kb_ok_nat:
  "kb_ok b \<longleftrightarrow> unat (head b) < 256 \<and> unat (tail b) < 256 \<and> unat (count b) \<le> 256 \<and>
     unat (head b) = (unat (tail b) + unat (count b)) mod 256"
proof -
  have "head b = (tail b + count b) mod 256 \<longleftrightarrow> unat (head b) = (unat (tail b) + unat (count b)) mod 256"
    if "unat (tail b) < 256" "unat (count b) \<le> 256"
    using that ring_mod [of "tail b" "count b"] by (simp add: word_unat_eq_iff)
  then show ?thesis by (auto simp: kb_ok_def word_less_nat_alt word_le_nat_alt)
qed

lemma ring_slot:
  assumes "unat (tail b) < 256" "i \<le> 256"
  shows "unat ((tail b + of_nat i) mod 256) = (unat (tail b) + i) mod 256"
  using assms ring_mod [of "tail b" "of_nat i"] by (simp add: unat_of_nat_small)

lemma kb_push_items:
  assumes "kb_ok b" "count b < 256"
    and b': "b' = b\<lparr>buffer := (buffer b)(head b := c), head := (head b + 1) mod 256, count := count b + 1\<rparr>"
  shows "kb_ok b' \<and> kb_queue b' = kb_queue b @ [c]"
proof -
  note ok = assms(1) [unfolded kb_ok_nat]
  have cnt: "unat (count b) < 256" "unat (count b + 1) = unat (count b) + 1"
    using assms(2) by (simp_all add: word_less_nat_alt unat_add_small)
  have hd: "unat ((head b + 1) mod 256) = (unat (head b) + 1) mod 256"
    using ok ring_mod [of "head b" 1] by simp
  have "kb_ok b'" using ok cnt hd by (simp add: kb_ok_nat b') (simp add: mod_Suc_eq)
  moreover have "(tail b + of_nat i) mod 256 \<noteq> head b" if "i < unat (count b)" for i
    using that ok cnt ring_slot [of b i] ring_slot_ne [of i "unat (count b)" 256 "unat (tail b)"]
    by (metis less_imp_le less_trans not_add_less2 not_less add.commute trans_less_add2)
  moreover have "(tail b + of_nat (unat (count b))) mod 256 = head b"
    using assms(1) by (simp add: kb_ok_def)
  ultimately show ?thesis by (simp add: kb_queue_def b' cnt)
qed

lemma kb_pop_items:
  assumes "kb_ok b" "0 < count b" and b': "b' = b\<lparr>tail := (tail b + 1) mod 256, count := count b - 1\<rparr>"
  shows "kb_ok b' \<and> kb_queue b = buffer b (tail b) # kb_queue b'"
proof -
  note ok = assms(1) [unfolded kb_ok_nat]
  obtain n where n: "unat (count b) = Suc n"
    using assms(2) by (metis not0_implies_Suc unat_gt_0 less_irrefl word_gt_0)
  then have n': "unat (count b - 1) = n" using assms(2) by (simp add: unat_minus_one word_gt_0)
  have tl: "unat ((tail b + 1) mod 256) = (unat (tail b) + 1) mod 256"
    using ok ring_mod [of "tail b" 1] by simp
  have slot: "((tail b + 1) mod 256 + of_nat i) mod 256 = (tail b + of_nat (Suc i)) mod 256" if "i < n" for i
  proof -
    have "Suc (unat (tail b)) mod 256 < 256" by simp
    then have "Suc (unat (tail b)) mod 256 + i < 4294967296" using that n ok by linarith
    then show ?thesis
      using that ok n tl ring_slot [of b "Suc i"] ring_mod [of "(tail b + 1) mod 256" "of_nat i"]
        by (simp add: word_unat_eq_iff unat_of_nat_small mod_Suc_eq mod_simps)
  qed
  have "kb_ok b'" using ok n n' tl by (simp add: kb_ok_nat b' mod_simps)
  moreover have "tail b mod 256 = tail b" using ok by (simp add: word_unat_eq_iff unat_mod)
  moreover have "map f [0..<Suc n] = f 0 # map (\<lambda>i. f (Suc i)) [0..<n]" for f :: "nat \<Rightarrow> char"
    by (simp add: upt_conv_Cons map_Suc_upt [symmetric] del: upt_Suc)
  ultimately show ?thesis
    by (simp add: kb_queue_def b' n n' slot del: upt_Suc)
qed

lemma kb_back_items:
  assumes "kb_ok b" "0 < count b" and l: "l = (head b + 256 - 1) mod 256"
    and b': "b' = b\<lparr>head := l, count := count b - 1\<rparr>"
  shows "kb_ok b' \<and> kb_queue b = kb_queue b' @ [buffer b l]"
proof -
  note ok = assms(1) [unfolded kb_ok_nat]
  obtain n where n: "unat (count b) = Suc n"
    using assms(2) by (metis not0_implies_Suc unat_gt_0 less_irrefl word_gt_0)
  then have n': "unat (count b - 1) = n" using assms(2) by (simp add: unat_minus_one word_gt_0)
  have "head b + 256 - 1 = head b + 255" by simp
  then have "unat l = (unat (head b) + 255) mod 256"
    using ok ring_mod [of "head b" 255] by (simp only: l) simp
  also have "\<dots> = ((unat (tail b) + Suc n) mod 256 + 255) mod 256" using ok n by simp
  also have "\<dots> = (unat (tail b) + n) mod 256" by (simp add: mod_add_left_eq)
  finally have lst: "unat l = (unat (tail b) + n) mod 256" .
  then have "l = (tail b + of_nat n) mod 256"
    using ok n ring_slot [of b n] by (simp add: word_unat_eq_iff)
  moreover have "kb_ok b'" using ok n n' lst by (simp add: kb_ok_nat b')
  ultimately show ?thesis by (simp add: kb_queue_def b' n n')
qed

interpretation kb_ring: bounded_fifo "\<lambda>s. kb_ok (kb_buffer s)" "\<lambda>s. kb_queue (kb_buffer s)" 256
  keyboard_buffer_push keyboard_buffer_pop
proof
  fix s t :: "'a keyboard_scheme" and c ok
  assume s: "kb_ok (kb_buffer s)"
  have len: "length (kb_queue (kb_buffer s)) < 256 \<longleftrightarrow> count (kb_buffer s) < 256"
    by (simp add: kb_queue_def word_less_nat_alt)
  assume "keyboard_buffer_push c s = (ok, t)"
  then show "kb_ok (kb_buffer t) \<and> ok = (length (kb_queue (kb_buffer s)) < 256) \<and>
      kb_queue (kb_buffer t) = (if ok then kb_queue (kb_buffer s) @ [c] else kb_queue (kb_buffer s))"
    using kb_push_items [OF s _ refl, of c] s len
    by (auto simp: keyboard_op_defs split: if_splits)
next
  fix s t :: "'a keyboard_scheme" and r
  assume s: "kb_ok (kb_buffer s)" and p: "keyboard_buffer_pop s = (r, t)"
  show "kb_ok (kb_buffer t) \<and> (case kb_queue (kb_buffer s) of [] \<Rightarrow> r = None \<and> kb_queue (kb_buffer t) = []
      | x # xs \<Rightarrow> r = Some x \<and> kb_queue (kb_buffer t) = xs)"
  proof (cases "0 < count (kb_buffer s)")
    case True
    with p kb_pop_items [OF s True refl] show ?thesis by (auto simp: keyboard_op_defs)
  next
    case False
    then have "count (kb_buffer s) = 0" by (simp add: word_gt_0)
    with p s show ?thesis by (auto simp: keyboard_op_defs kb_queue_def)
  qed
qed

section \<open>The scan code machine\<close>

lemma kb_abs_console [simp]:
  "kb_abs (console_putchar c s) = kb_abs s" "kb_abs (console_clear s) = kb_abs s"
  by (simp_all add: kb_abs_def)

lemma push_abs:
  assumes "kb_ok (kb_buffer s)" "keyboard_buffer_push c s = (ok, t)"
  shows "kb_ok (kb_buffer t) \<and> kb_abs t = enqueue c (kb_abs s)"
proof -
  have "shift_pressed t = shift_pressed s" "ctrl_pressed t = ctrl_pressed s" "caps_lock t = caps_lock s"
    "extended_key t = extended_key s"
    using assms(2) by (auto simp: keyboard_op_defs split: if_splits)
  with kb_ring.push_law [OF assms] show ?thesis by (auto simp: kb_abs_def enqueue_def)
qed

lemma back_abs:
  assumes "kb_ok (kb_buffer s)" "keyboard_buffer_backspace s = (ok, t)"
  shows "kb_ok (kb_buffer t) \<and> kb_abs t = rub_out (kb_abs s)"
proof (cases "0 < count (kb_buffer s)")
  case True
  from kb_back_items [OF assms(1) True refl refl] assms True show ?thesis
    by (auto simp: keyboard_op_defs kb_abs_def rub_out_def split: if_splits)
next
  case False
  then have "count (kb_buffer s) = 0" by (simp add: word_gt_0)
  then show ?thesis using assms by (auto simp: keyboard_op_defs kb_abs_def rub_out_def kb_queue_def)
qed

lemma press_abs:
  assumes "kb_ok (kb_buffer s)" "key < 128"
  shows "kb_ok (kb_buffer (press_key key s)) \<and> kb_abs (press_key key s) = spec_press key (kb_abs s)"
proof -
  have g: "scancode_to_ascii key (shift_pressed s) s = glyph key (kb_abs s)" "ctrl_pressed s = ctrl (kb_abs s)"
    using assms(2) by (simp_all add: scancode_to_ascii_def glyph_def kb_abs_def not_le [symmetric])
  obtain ok1 t1 where b: "keyboard_buffer_backspace s = (ok1, t1)" by force
  obtain ok2 t2 where p: "keyboard_buffer_push (glyph key (kb_abs s)) s = (ok2, t2)" by force
  show ?thesis
    using back_abs [OF assms(1) b] push_abs [OF assms(1) p] assms(1)
    unfolding press_key_def spec_press_def g b p Let_def by auto
qed

lemma push_arrow_abs:
  assumes "kb_ok (kb_buffer s)"
  shows "kb_ok (kb_buffer (push_arrow key s)) \<and>
    kb_abs (push_arrow key s) = (case arrow key of Some c \<Rightarrow> enqueue c (kb_abs s) | None \<Rightarrow> kb_abs s)"
  using push_abs [OF assms prod.collapse [symmetric]] assms by (simp add: push_arrow_def arrow_def)

lemma key_event_abs:
  assumes "kb_ok (kb_buffer s)" "key < 128"
  shows "kb_ok (kb_buffer (key_event release key s)) \<and> kb_abs (key_event release key s) = spec_key release key (kb_abs s)"
proof (cases "extended_key s")
  case True
  let ?s = "s\<lparr>extended_key := False\<rparr>"
  have "kb_abs ?s = (kb_abs s)\<lparr>ext := False\<rparr>" "ext (kb_abs s)" using True by (simp_all add: kb_abs_def)
  with push_arrow_abs [of ?s key] assms True show ?thesis
    by (simp add: key_event_def spec_key_def Let_def split: option.split)
next
  case False
  then have "\<not> ext (kb_abs s)" by (simp add: kb_abs_def)
  with False press_abs [OF assms] assms(1) show ?thesis
    by (auto simp: key_event_def spec_key_def) (simp_all add: kb_abs_def)
qed

lemma handle_abs:
  assumes "kb_ok (kb_buffer s)"
  shows "kb_ok (kb_buffer (keyboard_handle_scancode sc s)) \<and>
    kb_abs (keyboard_handle_scancode sc s) = spec_scancode sc (kb_abs s)"
proof -
  have "sc AND 0x7F < 128"
  proof -
    have "sc AND 0x7F = take_bit 7 sc" by (simp add: take_bit_eq_mask mask_eq_exp_minus_1)
    then show ?thesis by (simp add: word_less_nat_alt unat_take_bit_mod)
  qed
  with key_event_abs [OF assms] assms show ?thesis
    by (simp add: keyboard_handle_scancode_def spec_scancode_def) (simp add: kb_abs_def)
qed

interpretation kb_machine: component "\<lambda>s. kb_ok (kb_buffer s)" keyboard_handle_scancode
  using handle_abs by unfold_locales blast

lemma handle_all_abs:
  "kb_ok (kb_buffer s) \<Longrightarrow> kb_abs (fold keyboard_handle_scancode scs s) = fold spec_scancode scs (kb_abs s)"
  by (induction scs arbitrary: s) (simp_all add: handle_abs)

section \<open>Typing a text\<close>

lemma lower_facts: "length scancode_ascii_lower = 128" "scancode_ascii_lower ! 0x2A = CHR 0x00"
  "scancode_ascii_lower ! 0x36 = CHR 0x00" "scancode_ascii_lower ! 0x1D = CHR 0x00"
  "scancode_ascii_lower ! 0x3A = CHR 0x00" "scancode_ascii_lower ! 0x0E = CHR 0x08"
  by (simp_all add: scancode_ascii_lower_def)

lemma takeWhile_hit: "c \<in> set xs \<Longrightarrow> xs ! length (takeWhile (\<lambda>x. x \<noteq> c) xs) = c \<and> length (takeWhile (\<lambda>x. x \<noteq> c) xs) < length xs"
  by (induction xs) auto

lemma key_of_facts:
  assumes "typeable c"
  shows "scancode_ascii_lower ! unat (key_of c) = c" "unat (key_of c) < 128"
    "key_of c \<notin> {0x2A, 0x36, 0x1D, 0x3A, 0x0E}"
proof -
  let ?n = "length (takeWhile (\<lambda>x. x \<noteq> c) scancode_ascii_lower)"
  have n: "scancode_ascii_lower ! ?n = c" "?n < 128"
    using assms takeWhile_hit [of c scancode_ascii_lower] lower_facts(1) by (auto simp: typeable_def)
  then have u: "unat (key_of c) = ?n" by (simp add: key_of_def unat_of_nat_small)
  with n show key: "scancode_ascii_lower ! unat (key_of c) = c" "unat (key_of c) < 128" by simp_all
  show "key_of c \<notin> {0x2A, 0x36, 0x1D, 0x3A, 0x0E}"
    using key(1) assms lower_facts(2-) by (auto simp: typeable_def)
qed

lemma stroke_codes:
  assumes "unat (k :: u8) < 128"
  shows "k AND 0x80 = 0" "k AND 0x7F = k" "(k OR 0x80) AND 0x80 \<noteq> 0" "(k OR 0x80) AND 0x7F = k" "k \<noteq> 0xE0"
proof -
  have "k AND 0x7F = take_bit 7 k" by (simp add: take_bit_eq_mask mask_eq_exp_minus_1)
  then show k: "k AND 0x7F = k" using assms by (simp add: word_unat_eq_iff unat_take_bit_mod)
  then have "k AND 0x80 = k AND (0x7F AND 0x80)" by (metis and.assoc)
  then show "k AND 0x80 = 0" by simp
  show "(k OR 0x80) AND 0x80 \<noteq> 0" "(k OR 0x80) AND 0x7F = k" using k by (simp_all add: bit.conj_disj_distrib2)
  show "k \<noteq> 0xE0" using assms by auto
qed

lemma type_char:
  assumes "typeable c" "\<not> shift a" "\<not> ctrl a" "\<not> caps a" "\<not> ext a" "length (typed a) < 256"
  shows "spec_scancode (key_of c OR 0x80) (spec_scancode (key_of c) a) = a\<lparr>typed := typed a @ [c]\<rparr>"
proof -
  note k = key_of_facts [OF assms(1)] stroke_codes [OF key_of_facts(2) [OF assms(1)]]
  have "key_of c OR 0x80 \<noteq> 0xE0"
  proof
    assume "key_of c OR 0x80 = 0xE0"
    from k(7) [unfolded this] have "key_of c = 0x60" by simp
    then show False using k(1) assms(1) by (simp add: scancode_ascii_lower_def typeable_def)
  qed
  moreover have "glyph (key_of c) a = c" "c \<noteq> CHR 0x00" using assms k(1) by (simp_all add: glyph_def typeable_def)
  ultimately show ?thesis
    using assms(2-) k by (simp add: spec_scancode_def spec_key_def spec_press_def enqueue_def)
qed

lemma type_text:
  assumes "\<forall>c \<in> set str. typeable c" "\<not> shift a" "\<not> ctrl a" "\<not> caps a" "\<not> ext a" "length (typed a) + length str \<le> 256"
  shows "fold spec_scancode (strokes str) a = a\<lparr>typed := typed a @ str\<rparr>"
  using assms
proof (induction str arbitrary: a)
  case (Cons c cs)
  let ?a = "a\<lparr>typed := typed a @ [c]\<rparr>"
  have "spec_scancode (key_of c OR 0x80) (spec_scancode (key_of c) a) = ?a"
    using Cons.prems by (intro type_char) auto
  moreover have "fold spec_scancode (strokes cs) ?a = ?a\<lparr>typed := typed ?a @ cs\<rparr>"
    using Cons.prems by (intro Cons.IH) auto
  ultimately show ?case by (simp add: strokes_def)
qed (simp add: strokes_def)

section \<open>Reading keys back\<close>

lemma read_keys_pop_all: "read_keys n s = kb_ring.pop_all n s"
  by (induction n arbitrary: s) (simp_all split: prod.split)

lemma data_reads_inb [simp]:
  "data_reads (trace (snd (inb p s))) = data_reads (trace s) + (if p = 0x60 then 1 else 0)"
  by (simp add: data_reads_def inb_def emit_def Let_def)

lemma drain_controller_returns:
  "holds_bytes n (dev s) \<Longrightarrow> \<exists>t. drain_controller s = Some t \<and> n \<le> data_reads (trace t)"
proof (induction "n - data_reads (trace s)" arbitrary: s)
  case 0
  then have "\<not> fst (inb 0x64 s) AND 1 \<noteq> 0" by (simp add: holds_bytes_def inb_def Let_def)
  with 0 show ?case by (subst drain_controller.simps) (simp add: split_def)
next
  case (Suc k)
  let ?t = "snd (inb 0x60 (snd (inb 0x64 s)))"
  have "fst (inb 0x64 s) AND 1 \<noteq> 0" using Suc by (simp add: holds_bytes_def inb_def Let_def)
  then have "drain_controller s = drain_controller ?t" by (subst drain_controller.simps) (simp add: split_def)
  with Suc.hyps(1) [of ?t] Suc.hyps(2) Suc.prems show ?case by simp
qed

lemma handle_iflag [simp]: "iflag (keyboard_handle_scancode sc s) = iflag s"
proof -
  have op: "iflag (snd (keyboard_buffer_push c t)) = iflag t" "iflag (snd (keyboard_buffer_backspace t)) = iflag t"
    for c and t :: "'a keyboard_scheme"
    by (simp_all add: keyboard_op_defs)
  have "iflag (press_key k t) = iflag t" for k and t :: "'a keyboard_scheme"
    unfolding press_key_def Let_def split_def using op by simp
  moreover have "iflag (push_arrow k t) = iflag t" for k and t :: "'a keyboard_scheme"
    using op by (simp add: push_arrow_def)
  ultimately have "iflag (key_event r k t) = iflag t" for r k and t :: "'a keyboard_scheme"
    by (simp add: key_event_def Let_def)
  then show ?thesis by (simp add: keyboard_handle_scancode_def)
qed

section \<open>Properties\<close>

lemma cold_keyboard_fields:
  "kb_buffer cold_keyboard = \<lparr>buffer = (\<lambda>_. CHR 0x00), head = 0, tail = 0, count = 0\<rparr>"
  "shift_pressed cold_keyboard = False" "ctrl_pressed cold_keyboard = False"
  "caps_lock cold_keyboard = False" "extended_key cold_keyboard = False"
  by (simp_all add: cold_keyboard_def mm.defs)

lemma cold_keyboard_ok: "kb_ok (kb_buffer cold_keyboard)" "kb_queue (kb_buffer cold_keyboard) = []"
  by (simp_all add: cold_keyboard_fields kb_ok_def kb_queue_def)

text \<open>
  C9: any sequence of scan codes takes the driver through the states of the abstract keyboard, a
  bounded queue of characters with four modifier flags; the ring buffer stays well-formed and the
  interrupt flag is left as it was found.
\<close>

theorem keyboard_refines:
  assumes "kb_ok (kb_buffer s)"
  shows "kb_ok (kb_buffer (fold keyboard_handle_scancode scs s)) \<and>
    kb_abs (fold keyboard_handle_scancode scs s) = fold spec_scancode scs (kb_abs s) \<and>
    iflag (fold keyboard_handle_scancode scs s) = iflag s"
  using kb_machine.run_ok [OF assms] handle_all_abs [OF assms] fold_same [of scs iflag keyboard_handle_scancode s]
  by simp

theorem keyboard_refines_witness:
  "kb_queue (kb_buffer (fold keyboard_handle_scancode [0x2A, 0x1E, 0xAA, 0x30, 0x0E, 0xE0, 0x48] cold_keyboard)) =
     [CHR ''A'', CHR 0x80]"
proof -
  have "kb_abs cold_keyboard = \<lparr>typed = [], shift = False, ctrl = False, caps = False, ext = False\<rparr>"
    by (simp add: kb_abs_def kb_queue_def cold_keyboard_fields)
  then have "kb_abs (fold keyboard_handle_scancode [0x2A, 0x1E, 0xAA, 0x30, 0x0E, 0xE0, 0x48] cold_keyboard) =
      \<lparr>typed = [CHR ''A'', CHR 0x80], shift = False, ctrl = False, caps = False, ext = False\<rparr>"
    using keyboard_refines [OF cold_keyboard_ok(1), of "[0x2A, 0x1E, 0xAA, 0x30, 0x0E, 0xE0, 0x48]"]
    by (simp add: spec_scancode_def spec_key_def spec_press_def enqueue_def rub_out_def glyph_def arrow_def
        scancode_ascii_lower_def scancode_ascii_upper_def)
  then show ?thesis by (simp add: kb_abs_def)
qed

text \<open>
  C10: typing a text on keys without modifiers and reading the buffer gives the text back, character
  for character and in order, as long as it fits the 256 places of the buffer.
\<close>

theorem keyboard_typing_roundtrip:
  assumes "kb_ok (kb_buffer s)" "kb_queue (kb_buffer s) = []" "\<not> shift_pressed s" "\<not> ctrl_pressed s"
    "\<not> caps_lock s" "\<not> extended_key s" "\<forall>c \<in> set str. typeable c" "length str \<le> 256"
  shows "fst (read_keys (length str) (fold keyboard_handle_scancode (strokes str) s)) = map Some str"
proof -
  let ?t = "fold keyboard_handle_scancode (strokes str) s"
  have "kb_abs ?t = (kb_abs s)\<lparr>typed := str\<rparr>"
    using type_text [OF assms(7), of "kb_abs s"] handle_all_abs [OF assms(1), of "strokes str"] assms
    by (simp add: kb_abs_def)
  then have "kb_queue (kb_buffer ?t) = str" by (simp add: kb_abs_def)
  with kb_ring.pop_all_items [OF kb_machine.run_ok [OF assms(1)], of "length str" "strokes str"]
  show ?thesis by (simp add: read_keys_pop_all)
qed

theorem keyboard_typing_roundtrip_witness:
  "fst (read_keys 2 (fold keyboard_handle_scancode (strokes ''ls'') cold_keyboard)) = map Some ''ls''"
  using keyboard_typing_roundtrip [OF cold_keyboard_ok, of "''ls''"]
  by (simp add: cold_keyboard_fields typeable_def scancode_ascii_lower_def numeral_2_eq_2)

text \<open>
  When the controller holds any finite number of stale bytes, \<^verbatim>\<open>keyboard_init\<close> returns, has read
  at least that many bytes, and leaves an empty well-formed buffer with the three modifiers
  released.
\<close>

theorem keyboard_init_returns:
  assumes "holds_bytes n (dev s)"
  shows "\<exists>t. keyboard_init s = Some t \<and> kb_ok (kb_buffer t) \<and> kb_queue (kb_buffer t) = [] \<and>
    \<not> shift_pressed t \<and> \<not> ctrl_pressed t \<and> \<not> caps_lock t \<and> extended_key t = extended_key s"
proof -
  let ?s = "s\<lparr>kb_buffer := (kb_buffer s)\<lparr>head := 0, tail := 0, count := 0\<rparr>,
    shift_pressed := False, ctrl_pressed := False, caps_lock := False\<rparr>"
  have "holds_bytes n (dev ?s)" using assms by simp
  then obtain t where t: "drain_controller ?s = Some t" using drain_controller_returns by blast
  note f = keyboard_field_cong [OF drain_controller_frame [OF t, THEN conjunct1]]
  show ?thesis using t f by (simp add: keyboard_init_def Let_def kb_ok_def kb_queue_def)
qed

theorem keyboard_init_returns_witness:
  "\<exists>t. keyboard_init (cold_keyboard\<lparr>dev := (\<lambda>tr p. if data_reads tr < 3 then 1 else 0)\<rparr>) = Some t \<and>
    kb_queue (kb_buffer t) = []"
proof -
  let ?s = "cold_keyboard\<lparr>dev := (\<lambda>tr p. if data_reads tr < 3 then 1 else 0)\<rparr>"
  have "holds_bytes 3 (dev ?s)" by (simp add: holds_bytes_def)
  from keyboard_init_returns [OF this] show ?thesis by blast
qed

end
