(* ===== verification/Uaccess.thy ===== *)
theory Uaccess
  imports Keyboard
begin

text \<open>
  Checked copies between user and kernel memory, \<^verbatim>\<open>kernel/uaccess.c\<close>.  Kernel and user code share
  one address space; \<open>mem\<close> is its bytes.
\<close>

record memory = keyboard +
  mem :: "u64 \<Rightarrow> u8"

abbreviation (input) "KERNEL_VIRT_BASE \<equiv> (0xFFFF800000000000 :: u64)"

definition validate_user_pointer :: "u64 \<Rightarrow> u64 \<Rightarrow> 'a memory_scheme \<Rightarrow> bool \<times> 'a memory_scheme" where
  "validate_user_pointer ptr len s =
     (let start = ptr; stop = start + len
      in if ptr = 0 \<and> 0 < len then (False, console_puts ''[uaccess] NULL pointer\<newline>'' s)
         else if len = 0 then (True, s)
         else if stop < start then (False, console_puts ''[uaccess] Range overflow\<newline>'' s)
         else if KERNEL_VIRT_BASE \<le> start \<or> KERNEL_VIRT_BASE < stop
           then (False, console_puts ''[uaccess] Pointer in kernel space\<newline>'' s)
         else (True, s))"

text \<open>The byte-wise copy loop; each byte is read from memory as the earlier stores left it.\<close>

definition copy_bytes :: "u64 \<Rightarrow> u64 \<Rightarrow> nat \<Rightarrow> (u64 \<Rightarrow> u8) \<Rightarrow> (u64 \<Rightarrow> u8)" where
  "copy_bytes dest src n m = fold (\<lambda>i m. m(dest + of_nat i := m (src + of_nat i))) [0..<n] m"

definition copy_from_user :: "u64 \<Rightarrow> u64 \<Rightarrow> u64 \<Rightarrow> 'a memory_scheme \<Rightarrow> u64 \<times> 'a memory_scheme" where
  "copy_from_user dest src len s =
     (case validate_user_pointer src len s of (ok, s1) \<Rightarrow>
        if \<not> ok then (0, s1) else (len, s1\<lparr>mem := copy_bytes dest src (unat len) (mem s1)\<rparr>))"

definition copy_to_user :: "u64 \<Rightarrow> u64 \<Rightarrow> u64 \<Rightarrow> 'a memory_scheme \<Rightarrow> u64 \<times> 'a memory_scheme" where
  "copy_to_user dest src len s =
     (case validate_user_pointer dest len s of (ok, s1) \<Rightarrow>
        if \<not> ok then (0, s1) else (len, s1\<lparr>mem := copy_bytes dest src (unat len) (mem s1)\<rparr>))"

section \<open>Frames\<close>

lemma memory_field_cong:
  fixes s t :: "'a memory_scheme"
  assumes "keyboard.more t = keyboard.more s"
  shows "mem t = mem s" "memory.more t = memory.more s"
  using assms by (cases s; cases t; simp)+

lemmas memory_keyboard_frames [simp] =
  keyboard_frames [THEN memory_field_cong(1)] keyboard_frames [THEN memory_field_cong(2)]

lemma uaccess_frames [simp]:
  "memory.more (snd (validate_user_pointer p n s)) = memory.more s"
  "mem (snd (validate_user_pointer p n s)) = mem s"
  "memory.more (snd (copy_from_user d p n s)) = memory.more s"
  "memory.more (snd (copy_to_user p d n s)) = memory.more s"
  by (simp_all add: validate_user_pointer_def copy_from_user_def copy_to_user_def Let_def split_def)

lemmas memory_frames = keyboard_frames [THEN memory_field_cong(2)] uaccess_frames(1,3,4)

end
