(* ===== verification/Uaccess_Props.thy ===== *)
theory Uaccess_Props
  imports Uaccess Keyboard_Props
begin

text \<open>
  Correctness of \<^verbatim>\<open>kernel/uaccess.c\<close>: which ranges the check accepts, that a copy writes inside the
  range it checked and nowhere else, and what the accepted ranges contain in this kernel.
\<close>

section \<open>Specification\<close>

text \<open>The range of \<open>n\<close> bytes from \<open>p\<close> lies below the border without wrapping.\<close>

definition user_range :: "u64 \<Rightarrow> u64 \<Rightarrow> bool" where
  "user_range p n \<longleftrightarrow> unat p + unat n \<le> 0xFFFF800000000000"

definition in_range :: "u64 \<Rightarrow> u64 \<Rightarrow> u64 \<Rightarrow> bool" where
  "in_range p n x \<longleftrightarrow> unat p \<le> unat x \<and> unat x < unat p + unat n"

definition ranges_disjoint :: "u64 \<Rightarrow> u64 \<Rightarrow> u64 \<Rightarrow> bool" where
  "ranges_disjoint p q n \<longleftrightarrow> unat p + unat n \<le> unat q \<or> unat q + unat n \<le> unat p"

definition cold_memory :: memory where
  "cold_memory = keyboard.extend cold_keyboard \<lparr>mem = (\<lambda>a. ucast a)\<rparr>"

section \<open>The copy loop\<close>

lemma unat_offset: "unat (p :: u64) + n < 2 ^ 64 \<Longrightarrow> unat (p + of_nat n) = unat p + n"
  by (simp add: unat_add_small unat_of_nat_small)

lemma unat_u64: "unat (w :: u64) < 2 ^ 64"
  using unsigned_less [of w] by simp

lemma copy_bytes_spec:
  assumes "\<And>i j. i < n \<Longrightarrow> j < n \<Longrightarrow> dest + of_nat i \<noteq> src + of_nat j" "n \<le> 2 ^ 64"
  shows "i < n \<Longrightarrow> copy_bytes dest src n m (dest + of_nat i) = m (src + of_nat i)"
proof -
  have eq: "copy_bytes dest src n m = fold (\<lambda>i m'. m'(dest + of_nat i := m (src + of_nat i))) [0..<n] m"
    unfolding copy_bytes_def using assms(1) by (intro fold_copy) auto
  have "inj_on (\<lambda>i. dest + of_nat i) (set [0..<n])" using assms(2) by (intro inj_on_add_of_nat) simp
  then show "i < n \<Longrightarrow> copy_bytes dest src n m (dest + of_nat i) = m (src + of_nat i)"
    unfolding eq by (intro fold_upd_hit) auto
qed

lemma copy_bytes_outside:
  assumes "\<And>i. i < n \<Longrightarrow> x \<noteq> dest + of_nat i"
  shows "copy_bytes dest src n m x = m x"
  unfolding copy_bytes_def using assms
  by (intro fold_same [where g = "\<lambda>m. m x"]) auto

lemma validate_iff:
  "fst (validate_user_pointer p n s) \<longleftrightarrow> n = 0 \<or> p \<noteq> 0 \<and> user_range p n"
proof -
  have "user_range p n \<longleftrightarrow> \<not> (p + n < p \<or> KERNEL_VIRT_BASE \<le> p \<or> KERNEL_VIRT_BASE < p + n)" if "n \<noteq> 0"
  proof (cases "unat p + unat n < 2 ^ 64")
    case True
    moreover have "0 < unat n" using that by (simp add: unat_gt_0)
    ultimately show ?thesis
      by (auto simp: user_range_def word_less_nat_alt word_le_nat_alt unat_add_small)
  next
    case False
    have b: "unat p < 2 ^ 64" "unat n < 2 ^ 64" by (rule unat_u64)+
    have "unat (p + n) = (unat p + unat n) mod 2 ^ 64" by (simp add: unat_word_ariths)
    also have "\<dots> = (unat p + unat n - 2 ^ 64) mod 2 ^ 64" using False by (simp add: le_mod_geq)
    also have "\<dots> = unat p + unat n - 2 ^ 64" using b by simp
    finally have "p + n < p" using False b by (simp add: word_less_nat_alt)
    moreover have "\<not> user_range p n" using False by (simp add: user_range_def)
    ultimately show ?thesis by simp
  qed
  then show ?thesis by (auto simp: validate_user_pointer_def Let_def word_gt_0)
qed

lemma user_range_offset: "user_range p n \<Longrightarrow> i < unat n \<Longrightarrow> unat (p + of_nat i) = unat p + i"
  by (intro unat_offset) (simp add: user_range_def)

lemma in_range_offset: "user_range p n \<Longrightarrow> in_range p n x \<Longrightarrow> \<exists>i < unat n. x = p + of_nat i"
  by (rule exI [of _ "unat x - unat p"])
    (auto simp: in_range_def word_unat_eq_iff user_range_offset)

section \<open>Properties\<close>

text \<open>
  C11: \<^verbatim>\<open>validate_user_pointer\<close> accepts exactly the empty ranges and the ranges from a non-null
  pointer that end at or below the border without wrapping around, and changes no memory.
\<close>

theorem validate_user_pointer_correct:
  "(fst (validate_user_pointer p n s) \<longleftrightarrow> n = 0 \<or> p \<noteq> 0 \<and> user_range p n) \<and>
   mem (snd (validate_user_pointer p n s)) = mem s"
  by (simp add: validate_iff)

lemma console_memory_update:
  fixes s t :: "'a memory_scheme"
  assumes "console.more t = console.more s"
  shows "console.more (t\<lparr>mem := m\<rparr>) = console.more (s\<lparr>mem := m\<rparr>)"
  using assms by (cases s; cases t; simp)

lemma validate_frame [simp]: "console.more (snd (validate_user_pointer p n s)) = console.more s"
  by (simp add: validate_user_pointer_def Let_def)

text \<open>
  C12: \<^verbatim>\<open>copy_to_user\<close> returns the length when the destination is a range of user memory or the length is 0,
  and 0 otherwise.  Whenever it returns 0, for a null pointer as for any other refusal, every byte of
  memory is what it was.  In every case it changes no byte outside the range, which then lies below the
  border, and nothing of the kernel's state but memory and the console; and when it accepts and source
  and destination do not overlap, the destination receives the source.
\<close>

theorem copy_to_user_correct:
  assumes "copy_to_user dest src n s = (r, t)"
  shows "r = (if n = 0 \<or> dest \<noteq> 0 \<and> user_range dest n then n else 0) \<and>
    (r = 0 \<longrightarrow> mem t = mem s) \<and>
    (\<forall>x. mem t x \<noteq> mem s x \<longrightarrow> in_range dest n x \<and> dest \<noteq> 0 \<and> user_range dest n) \<and>
    console.more t = console.more (s\<lparr>mem := mem t\<rparr>) \<and>
    (r \<noteq> 0 \<and> user_range src n \<and> ranges_disjoint dest src n \<longrightarrow>
       (\<forall>i < unat n. mem t (dest + of_nat i) = mem s (src + of_nat i)))"
proof (cases "n = 0 \<or> dest \<noteq> 0 \<and> user_range dest n")
  case False
  with validate_iff [of dest n s] assms have t: "r = 0" "t = snd (validate_user_pointer dest n s)"
    by (auto simp: copy_to_user_def split_def)
  then show ?thesis using False by simp
next
  case True
  with validate_iff [of dest n s] assms
  have t: "r = n" "t = (snd (validate_user_pointer dest n s))\<lparr>mem := copy_bytes dest src (unat n) (mem s)\<rparr>"
    by (auto simp: copy_to_user_def split_def)
  then have m: "mem t = copy_bytes dest src (unat n) (mem s)" by simp
  have zero: "mem t = mem s" if "n = 0" using that by (simp add: m copy_bytes_def)
  have outside: "mem t x = mem s x" if "\<not> (in_range dest n x \<and> dest \<noteq> 0 \<and> user_range dest n)" for x
  proof (cases "n = 0")
    case False
    with True have "user_range dest n" "dest \<noteq> 0" by auto
    with that show ?thesis
      unfolding m by (intro copy_bytes_outside) (auto simp: in_range_def user_range_offset)
  qed (simp add: zero)
  have copied: "mem t (dest + of_nat i) = mem s (src + of_nat i)"
    if "r \<noteq> 0" "user_range src n" "ranges_disjoint dest src n" "i < unat n" for i
  proof -
    have "user_range dest n" using True that(1) t(1) by auto
    with that have "dest + of_nat i \<noteq> src + of_nat j" if "i < unat n" "j < unat n" for i j
      using that user_range_offset [of dest n i] user_range_offset [of src n j]
      by (auto simp: ranges_disjoint_def)
    then show ?thesis unfolding m using that(4) unat_u64 [of n] by (intro copy_bytes_spec) simp_all
  qed
  have "console.more t = console.more (s\<lparr>mem := mem t\<rparr>)"
    unfolding m unfolding t(2) by (rule console_memory_update) simp
  with t(1) True zero outside copied show ?thesis by auto
qed

theorem copy_to_user_correct_witness:
  "fst (copy_to_user 0x400000 0x1000 2 cold_memory) = 2 \<and>
   mem (snd (copy_to_user 0x400000 0x1003 2 cold_memory)) 0x400001 = 0x04 \<and>
   fst (copy_to_user 0 0x1000 2 cold_memory) = 0 \<and> mem (snd (copy_to_user 0 0x1000 2 cold_memory)) = mem cold_memory"
proof -
  have m: "mem cold_memory = (\<lambda>a. ucast a)" by (simp add: cold_memory_def keyboard.defs)
  note copy = copy_to_user_correct [OF prod.collapse [symmetric]]
  have "fst (copy_to_user 0x400000 0x1000 2 cold_memory) = 2"
    using copy [of "0x400000" "0x1000" 2 cold_memory] by (simp add: user_range_def)
  moreover have "mem (snd (copy_to_user 0x400000 0x1003 2 cold_memory)) (0x400000 + of_nat 1) =
      mem cold_memory (0x1003 + of_nat 1)"
  proof -
    have "fst (copy_to_user 0x400000 0x1003 2 cold_memory) \<noteq> 0"
      using copy [of "0x400000" "0x1003" 2 cold_memory, THEN conjunct1] by (simp add: user_range_def)
    moreover have "user_range 0x1003 2" "ranges_disjoint 0x400000 0x1003 2"
      by (simp_all add: user_range_def ranges_disjoint_def)
    moreover have "1 < unat (2 :: u64)" by simp
    ultimately show ?thesis using copy [of "0x400000" "0x1003" 2 cold_memory] by blast
  qed
  moreover have "fst (copy_to_user 0 0x1000 2 cold_memory) = 0"
    using copy [of 0 "0x1000" 2 cold_memory, THEN conjunct1] by simp
  moreover from this have "mem (snd (copy_to_user 0 0x1000 2 cold_memory)) = mem cold_memory"
    using copy [of 0 "0x1000" 2 cold_memory] by blast
  ultimately show ?thesis by (simp add: m)
qed

text \<open>
  This kernel is linked at 1 MiB and not above the border, so the check accepts every range of
  the kernel heap: user code can have the kernel read and overwrite its own data.
\<close>

theorem validate_accepts_kernel_heap:
  assumes "sane_layout s" "unat (KHEAP_START s) \<le> unat p" "unat p + unat n \<le> unat (KHEAP_START s) + 0x400000"
  shows "fst (validate_user_pointer p n s)"
proof -
  note st = sane_layout_start [OF assms(1)]
  have "p \<noteq> 0" using st(1) assms(2) by auto
  moreover have "user_range p n" using st(2) assms(3) by (simp add: user_range_def)
  ultimately show ?thesis by (simp add: validate_iff)
qed

theorem validate_accepts_kernel_heap_witness:
  "KHEAP_START cold_memory = 0x106000 \<and> fst (validate_user_pointer 0x106000 0x1000 cold_memory)"
proof -
  have k: "kernel_end cold_memory = 0x105800"
    by (simp add: cold_memory_def cold_keyboard_def marked_mm_def boot_mm_def sample_heap_def kheap_init_def Let_def
        console.defs kheap.defs mm.defs keyboard.defs)
  have st: "unat (KHEAP_START cold_memory) = 0x106000" by (simp add: KHEAP_START_nat k)
  then have "KHEAP_START cold_memory = 0x106000" by (simp add: word_unat_eq_iff)
  moreover have "sane_layout cold_memory" by (simp add: sane_layout_def k)
  ultimately show ?thesis using validate_accepts_kernel_heap [of cold_memory "0x106000" "0x1000"] st by simp
qed

end
