(* ===== verification/Bytes.thy ===== *)
theory Bytes
  imports Prelude
begin

text \<open>
  Little-endian layout of integers in packed structures, as the compiler lays them out on x86-64.
  A structure on disk is a list of bytes; \<open>field\<close> reads an integer at an offset.
\<close>

definition le_bytes :: "nat \<Rightarrow> 'a::len word \<Rightarrow> u8 list" where
  "le_bytes n w = map (\<lambda>i. ucast (drop_bit (8 * i) w)) [0..<n]"

definition le_word :: "u8 list \<Rightarrow> 'a::len word" where
  "le_word bs = foldr (\<lambda>b acc. ucast b OR push_bit 8 acc) bs 0"

definition field :: "nat \<Rightarrow> nat \<Rightarrow> u8 list \<Rightarrow> 'a::len word" where
  "field width off bs = le_word (take width (drop off bs))"

lemma length_le_bytes [simp]: "length (le_bytes n w) = n"
  by (simp add: le_bytes_def)

lemma le_word_Nil [simp]: "le_word [] = 0"
  by (simp add: le_word_def)

lemma le_word_Cons [simp]: "le_word (b # bs) = ucast b OR push_bit 8 (le_word bs)"
  by (simp add: le_word_def)

lemma le_bytes_Suc: "le_bytes (Suc n) w = ucast w # le_bytes n (drop_bit 8 w)"
  unfolding le_bytes_def upt_conv_Cons [OF zero_less_Suc] map_Suc_upt [symmetric] list.map(2) map_map
  by (simp add: add.commute comp_def)

lemma le_bytes_0 [simp]: "le_bytes 0 w = []"
  by (simp add: le_bytes_def)

lemma le_word_bytes: "le_word (le_bytes n (w :: 'a::len word)) = take_bit (8 * n) w"
proof (induction n arbitrary: w)
  case (Suc n)
  have "ucast (ucast w :: u8) OR push_bit 8 (take_bit (8 * n) (drop_bit 8 w)) = take_bit (8 * Suc n) w"
    by (rule bit_word_eqI) (auto simp: bit_simps)
  then show ?case by (simp add: le_bytes_Suc Suc.IH)
qed simp

lemma le_bytes_word:
  "8 * length bs \<le> LENGTH('a) \<Longrightarrow> le_bytes (length bs) (le_word bs :: 'a::len word) = bs"
proof (induction bs)
  case (Cons b bs)
  then have IH: "le_bytes (length bs) (le_word bs :: 'a word) = bs" and len: "8 + 8 * length bs \<le> LENGTH('a)"
    by simp_all
  have "ucast (ucast b OR push_bit 8 (le_word bs) :: 'a word) = b"
    using len by (intro bit_word_eqI) (auto simp: bit_simps)
  moreover have "le_bytes (length bs) (drop_bit 8 (ucast b OR push_bit 8 (le_word bs) :: 'a word)) =
      le_bytes (length bs) (le_word bs :: 'a word)"
    unfolding le_bytes_def
  proof (rule map_cong [OF refl])
    fix i assume "i \<in> set [0..<length bs]"
    then have i: "i < length bs" by simp
    show "ucast (drop_bit (8 * i) (drop_bit 8 (ucast b OR push_bit 8 (le_word bs) :: 'a word))) =
        (ucast (drop_bit (8 * i) (le_word bs :: 'a word)) :: u8)"
      using i len by (intro bit_word_eqI) (auto simp: bit_simps dest: bit_imp_le_length)
  qed
  ultimately show ?case using IH by (simp add: le_bytes_Suc)
qed simp

lemma le_word_bytes_full [simp]:
  "le_word (le_bytes 4 (w :: u32)) = w" "le_word (le_bytes 2 (h :: u16)) = h" "le_word (le_bytes 8 (q :: u64)) = q"
  "le_word [b :: u8] = b"
  by (simp_all add: le_word_bytes take_bit_word_eq_self)

lemma field_append_left: "off + width \<le> length xs \<Longrightarrow> field width off (xs @ ys) = field width off xs"
  by (simp add: field_def)

lemma field_append_right: "length xs \<le> off \<Longrightarrow> field width off (xs @ ys) = field width (off - length xs) ys"
  by (simp add: field_def)

lemma field_here: "length xs = width \<Longrightarrow> field width 0 (xs @ ys) = le_word xs"
  by (simp add: field_def)

lemma field_all: "length xs = width \<Longrightarrow> field width 0 xs = le_word xs"
  by (simp add: field_def)

end
