(* ===== verification/Disk.thy ===== *)
theory Disk
  imports Uaccess Bytes
begin

text \<open>
  The ATA disk driver, \<^verbatim>\<open>drivers/disk.c\<close>, with its fallback to a disk in kernel memory.  A sector
  buffer is the list of its 512 bytes: a read returns the bytes it stored into the buffer, or
  \<open>None\<close> for the result -1 with the buffer untouched.  The outer \<open>option\<close> is \<open>None\<close> when a polling
  loop or the heap lock never lets the call return.  The empty delay loops are left out.
\<close>

record disk = memory +
  disk_total_sectors :: u32
  virtual_disk :: u64
  using_virtual_disk :: bool

abbreviation (input) "ATA_PRIMARY_DATA \<equiv> (0x1F0 :: u16)"
abbreviation (input) "ATA_PRIMARY_SECTOR_COUNT \<equiv> (0x1F2 :: u16)"
abbreviation (input) "ATA_PRIMARY_LBA_LOW \<equiv> (0x1F3 :: u16)"
abbreviation (input) "ATA_PRIMARY_LBA_MID \<equiv> (0x1F4 :: u16)"
abbreviation (input) "ATA_PRIMARY_LBA_HIGH \<equiv> (0x1F5 :: u16)"
abbreviation (input) "ATA_PRIMARY_DRIVE \<equiv> (0x1F6 :: u16)"
abbreviation (input) "ATA_PRIMARY_STATUS \<equiv> (0x1F7 :: u16)"
abbreviation (input) "ATA_PRIMARY_COMMAND \<equiv> (0x1F7 :: u16)"
abbreviation (input) "ATA_CMD_READ_SECTORS \<equiv> (0x20 :: u8)"
abbreviation (input) "ATA_CMD_WRITE_SECTORS \<equiv> (0x30 :: u8)"
abbreviation (input) "ATA_CMD_IDENTIFY \<equiv> (0xEC :: u8)"
abbreviation (input) "ATA_STATUS_BSY \<equiv> (0x80 :: u8)"
abbreviation (input) "ATA_STATUS_DRQ \<equiv> (0x08 :: u8)"
abbreviation (input) "ATA_STATUS_ERR \<equiv> (0x01 :: u8)"
abbreviation (input) "ATA_DRIVE_MASTER \<equiv> (0xE0 :: u8)"
abbreviation (input) "ATA_DRIVE_LBA \<equiv> (0x40 :: u8)"
abbreviation (input) "DISK_SECTOR_SIZE \<equiv> (512 :: u32)"
abbreviation (input) "DISK_TOTAL_SECTORS \<equiv> (32768 :: u32)"

section \<open>Polling\<close>

text \<open>\<open>n\<close> is \<^verbatim>\<open>timeout\<close> before it is decremented.\<close>

primrec ata_wait_ready_loop :: "nat \<Rightarrow> 'a disk_scheme \<Rightarrow> 'a disk_scheme" where
  "ata_wait_ready_loop 0 s = s"
| "ata_wait_ready_loop (Suc n) s =
     (case inb ATA_PRIMARY_STATUS s of (status, s1) \<Rightarrow>
        if n = 0 then s1
        else if status AND ATA_STATUS_BSY \<noteq> 0 then ata_wait_ready_loop n s1 else s1)"

definition ata_wait_ready :: "'a disk_scheme \<Rightarrow> 'a disk_scheme" where
  "ata_wait_ready s = ata_wait_ready_loop 100000 s"

partial_function (option) ata_wait_drq :: "'a disk_scheme \<Rightarrow> 'a disk_scheme option" where
  "ata_wait_drq s =
     (case inb ATA_PRIMARY_STATUS s of (status, s1) \<Rightarrow>
        if status AND ATA_STATUS_DRQ = 0 then ata_wait_drq s1 else Some s1)"

definition ata_wait_data :: "'a disk_scheme \<Rightarrow> 'a disk_scheme option" where
  "ata_wait_data s = ata_wait_drq (ata_wait_ready s)"

primrec read_words :: "nat \<Rightarrow> 'a disk_scheme \<Rightarrow> u16 list \<times> 'a disk_scheme" where
  "read_words 0 s = ([], s)"
| "read_words (Suc n) s =
     (case inw ATA_PRIMARY_DATA s of (v, s1) \<Rightarrow> case read_words n s1 of (vs, s2) \<Rightarrow> (v # vs, s2))"

definition write_words :: "u16 list \<Rightarrow> 'a disk_scheme \<Rightarrow> 'a disk_scheme" where
  "write_words vs s = fold (outw ATA_PRIMARY_DATA) vs s"

section \<open>Identification\<close>

text \<open>The poll for the answer: \<open>None\<close> is the early return on an error, otherwise the last status.\<close>

primrec identify_poll :: "nat \<Rightarrow> u8 \<Rightarrow> 'a disk_scheme \<Rightarrow> u8 option \<times> 'a disk_scheme" where
  "identify_poll 0 status s = (Some status, s)"
| "identify_poll (Suc n) status s =
     (case inb ATA_PRIMARY_STATUS s of (status', s1) \<Rightarrow>
        if status' AND ATA_STATUS_ERR \<noteq> 0 then (None, s1)
        else if status' AND ATA_STATUS_DRQ \<noteq> 0 then (Some status', s1)
        else identify_poll n status' s1)"

definition identify_size :: "u16 list \<Rightarrow> u32" where
  "identify_size d = ucast (d ! 60) OR push_bit 16 (ucast (d ! 61))"

definition ata_identify :: "'a disk_scheme \<Rightarrow> bool \<times> 'a disk_scheme" where
  "ata_identify s =
     (case inb ATA_PRIMARY_STATUS (outb ATA_PRIMARY_DRIVE (ATA_DRIVE_MASTER OR ATA_DRIVE_LBA) s) of (status, s1) \<Rightarrow>
        if status = 0xFF then (False, s1)
        else (let s2 = outb ATA_PRIMARY_COMMAND ATA_CMD_IDENTIFY (outb ATA_PRIMARY_LBA_HIGH 0
                         (outb ATA_PRIMARY_LBA_MID 0 (outb ATA_PRIMARY_LBA_LOW 0
                           (outb ATA_PRIMARY_SECTOR_COUNT 0 s1))))
              in case identify_poll 100000 status s2 of
                   (None, s3) \<Rightarrow> (False, s3)
                 | (Some st, s3) \<Rightarrow>
                     if st AND ATA_STATUS_DRQ = 0 then (False, s3)
                     else (case read_words 256 s3 of (d, s4) \<Rightarrow>
                             let n = identify_size d
                             in if 0 < n \<and> n < 0xFFFFFFFF then (True, s4\<lparr>disk_total_sectors := n\<rparr>)
                                else (False, s4))))"

section \<open>Sectors\<close>

text \<open>The task file that both transfers write: drive and LBA bits, count, LBA bytes, command.\<close>

definition ata_command :: "u32 \<Rightarrow> u8 \<Rightarrow> 'a disk_scheme \<Rightarrow> 'a disk_scheme" where
  "ata_command lba cmd s =
     outb ATA_PRIMARY_COMMAND cmd
       (outb ATA_PRIMARY_LBA_HIGH (ucast (drop_bit 16 lba AND 0xFF))
         (outb ATA_PRIMARY_LBA_MID (ucast (drop_bit 8 lba AND 0xFF))
           (outb ATA_PRIMARY_LBA_LOW (ucast (lba AND 0xFF))
             (outb ATA_PRIMARY_SECTOR_COUNT 1
               (outb ATA_PRIMARY_DRIVE ((ATA_DRIVE_MASTER OR ATA_DRIVE_LBA) OR ucast (drop_bit 24 lba AND 0x0F)) s)))))"

text \<open>The address of a byte of the disk in memory; the product is computed in 32 bits.\<close>

definition vdisk_addr :: "'a disk_scheme \<Rightarrow> u32 \<Rightarrow> nat \<Rightarrow> u64" where
  "vdisk_addr s lba i = virtual_disk s + ucast (lba * DISK_SECTOR_SIZE) + of_nat i"

definition disk_read_sector :: "u32 \<Rightarrow> 'a disk_scheme \<Rightarrow> (u8 list option \<times> 'a disk_scheme) option" where
  "disk_read_sector lba s =
     (if disk_total_sectors s = 0 \<or> disk_total_sectors s \<le> lba then Some (None, s)
      else if using_virtual_disk s \<and> virtual_disk s \<noteq> 0
      then Some (Some (map (\<lambda>i. mem s (vdisk_addr s lba i)) [0..<512]), s)
      else case ata_wait_data (ata_command lba ATA_CMD_READ_SECTORS (ata_wait_ready s)) of
             None \<Rightarrow> None
           | Some s1 \<Rightarrow> (case read_words 256 s1 of (vs, s2) \<Rightarrow> Some (Some (concat (map (le_bytes 2) vs)), s2)))"

definition words_of :: "u8 list \<Rightarrow> u16 list" where
  "words_of bs = map (\<lambda>i. field 2 (2 * i) bs) [0..<256]"

definition disk_write_sector :: "u32 \<Rightarrow> u8 list \<Rightarrow> 'a disk_scheme \<Rightarrow> (bool \<times> 'a disk_scheme) option" where
  "disk_write_sector lba buf s =
     (if disk_total_sectors s = 0 \<or> disk_total_sectors s \<le> lba then Some (False, s)
      else if using_virtual_disk s \<and> virtual_disk s \<noteq> 0
      then Some (True, s\<lparr>mem := fold (\<lambda>i m. m(vdisk_addr s lba i := buf ! i)) [0..<512] (mem s)\<rparr>)
      else case ata_wait_data (ata_command lba ATA_CMD_WRITE_SECTORS (ata_wait_ready s)) of
             None \<Rightarrow> None
           | Some s1 \<Rightarrow> Some (True, ata_wait_ready (write_words (words_of buf) s1)))"

text \<open>
  The transfers of several sectors: the bytes stored so far are returned with the result, because
  a failure leaves the sectors already read in the buffer.
\<close>

primrec read_sectors_from :: "nat \<Rightarrow> u32 \<Rightarrow> 'a disk_scheme \<Rightarrow> ((bool \<times> u8 list) \<times> 'a disk_scheme) option" where
  "read_sectors_from 0 lba s = Some ((True, []), s)"
| "read_sectors_from (Suc n) lba s =
     (case disk_read_sector lba s of
        None \<Rightarrow> None
      | Some (None, s1) \<Rightarrow> Some ((False, []), s1)
      | Some (Some bs, s1) \<Rightarrow>
          (case read_sectors_from n (lba + 1) s1 of
             None \<Rightarrow> None
           | Some ((ok, bs'), s2) \<Rightarrow> Some ((ok, bs @ bs'), s2)))"

definition disk_read_sectors :: "u32 \<Rightarrow> u32 \<Rightarrow> 'a disk_scheme \<Rightarrow> ((bool \<times> u8 list) \<times> 'a disk_scheme) option" where
  "disk_read_sectors lba n s = read_sectors_from (unat n) lba s"

primrec write_sectors_from :: "nat \<Rightarrow> u32 \<Rightarrow> u8 list \<Rightarrow> 'a disk_scheme \<Rightarrow> (bool \<times> 'a disk_scheme) option" where
  "write_sectors_from 0 lba buf s = Some (True, s)"
| "write_sectors_from (Suc n) lba buf s =
     (case disk_write_sector lba (take 512 buf) s of
        None \<Rightarrow> None
      | Some (False, s1) \<Rightarrow> Some (False, s1)
      | Some (True, s1) \<Rightarrow> write_sectors_from n (lba + 1) (drop 512 buf) s1)"

definition disk_write_sectors :: "u32 \<Rightarrow> u8 list \<Rightarrow> u32 \<Rightarrow> 'a disk_scheme \<Rightarrow> (bool \<times> 'a disk_scheme) option" where
  "disk_write_sectors lba buf n s = write_sectors_from (unat n) lba buf s"

definition disk_get_total_sectors :: "'a disk_scheme \<Rightarrow> u32" where
  "disk_get_total_sectors s = disk_total_sectors s"

section \<open>Initialisation\<close>

definition report_status :: "vga_color_t \<Rightarrow> string \<Rightarrow> 'a console_scheme \<Rightarrow> 'a console_scheme" where
  "report_status color msg s =
     console_set_color VGA_WHITE VGA_BLACK
       (console_puts msg (console_set_color color VGA_BLACK (console_puts ''       Status: '' s)))"

text \<open>The size in megabytes is computed in 32 bits as in the code.\<close>

definition report_physical :: "'a disk_scheme \<Rightarrow> 'a disk_scheme" where
  "report_physical s =
     report_status VGA_LIGHT_GREEN ''OK\<newline>''
       (console_puts '' MB)\<newline>'' (console_put_dec (ucast (disk_total_sectors s * DISK_SECTOR_SIZE div 0x100000))
         (console_puts '' ('' (console_put_dec (ucast (disk_total_sectors s))
           (console_puts ''       Total sectors: '' s)))))"

definition announce_virtual :: "'a disk_scheme \<Rightarrow> 'a disk_scheme" where
  "announce_virtual s =
     console_puts '' KB)\<newline>'' (console_put_dec (ucast (DISK_TOTAL_SECTORS * DISK_SECTOR_SIZE div 1024))
       (console_puts '' sectors, '' (console_put_dec (ucast DISK_TOTAL_SECTORS)
         (console_puts ''       Using virtual disk ('' (console_puts ''       Physical disk not detected\<newline>'' s)))))"

definition disk_use_memory :: "u64 \<Rightarrow> 'a disk_scheme \<Rightarrow> 'a disk_scheme" where
  "disk_use_memory p s =
     (if p \<noteq> 0
      then report_status VGA_LIGHT_GREEN ''OK (Virtual)\<newline>''
             (s\<lparr>virtual_disk := p, mem := fold (\<lambda>i m. m(p + of_nat i := 0)) [0..<0x1000000] (mem s),
                using_virtual_disk := True, disk_total_sectors := DISK_TOTAL_SECTORS\<rparr>)
      else (report_status VGA_LIGHT_RED ''ERROR - Failed to allocate virtual disk\<newline>''
             (s\<lparr>virtual_disk := p\<rparr>))\<lparr>disk_total_sectors := 0\<rparr>)"

definition disk_init :: "'a disk_scheme \<Rightarrow> 'a disk_scheme option" where
  "disk_init s =
     (case ata_identify (console_puts ''[DISK] Initializing ATA/IDE disk...\<newline>'' s) of (ok, s1) \<Rightarrow>
        if ok then Some (report_physical s1)
        else (case kmalloc (ucast (DISK_SECTOR_SIZE * DISK_TOTAL_SECTORS)) (announce_virtual s1) of
                None \<Rightarrow> None
              | Some (p, s2) \<Rightarrow> Some (disk_use_memory p s2)))"

section \<open>Frames\<close>

lemma disk_field_cong:
  fixes s t :: "'a disk_scheme"
  assumes "memory.more t = memory.more s"
  shows "disk_total_sectors t = disk_total_sectors s" "virtual_disk t = virtual_disk s"
    "using_virtual_disk t = using_virtual_disk s" "disk.more t = disk.more s"
  using assms by (cases s; cases t; simp)+

lemmas disk_memory_frames [simp] =
  memory_frames [THEN disk_field_cong(1)] memory_frames [THEN disk_field_cong(2)]
  memory_frames [THEN disk_field_cong(3)] memory_frames [THEN disk_field_cong(4)]

text \<open>From a step of the processor alone to every component below the disk.\<close>

lemma machine_to_disk:
  fixes s t :: "'a disk_scheme"
  assumes "machine.more t = machine.more s"
  shows "console.more t = console.more s" "kheap.more t = kheap.more s" "mm.more t = mm.more s"
    "keyboard.more t = keyboard.more s" "memory.more t = memory.more s" "mem t = mem s"
    "disk_total_sectors t = disk_total_sectors s" "virtual_disk t = virtual_disk s"
    "using_virtual_disk t = using_virtual_disk s" "disk.more t = disk.more s"
  using assms by (cases s; cases t; simp)+

lemma ata_wait_ready_machine [simp]: "machine.more (ata_wait_ready s) = machine.more s" "dev (ata_wait_ready s) = dev s"
proof -
  have "machine.more (ata_wait_ready_loop n s) = machine.more s \<and> dev (ata_wait_ready_loop n s) = dev s" for n
    by (induction n arbitrary: s) (simp_all add: split_def)
  then show "machine.more (ata_wait_ready s) = machine.more s" "dev (ata_wait_ready s) = dev s"
    by (simp_all add: ata_wait_ready_def)
qed

lemma ata_wait_drq_machine:
  assumes "ata_wait_drq s = Some t"
  shows "machine.more t = machine.more s"
proof (rule ata_wait_drq.raw_induct [where P = "\<lambda>s t. machine.more t = machine.more s", OF _ assms])
  fix drq and s t :: "'a disk_scheme"
  assume IH: "\<And>s t. drq s = Some t \<Longrightarrow> machine.more t = machine.more s"
    and eq: "(case inb ATA_PRIMARY_STATUS s of (status, s1) \<Rightarrow>
        if status AND ATA_STATUS_DRQ = 0 then drq s1 else Some s1) = Some t"
  show "machine.more t = machine.more s"
    using eq IH [of "snd (inb ATA_PRIMARY_STATUS s)" t] by (auto simp: split_def split: if_splits)
qed

lemma ata_wait_data_machine: "ata_wait_data s = Some t \<Longrightarrow> machine.more t = machine.more s"
  by (auto simp: ata_wait_data_def dest: ata_wait_drq_machine)

lemma ata_command_machine [simp]: "machine.more (ata_command lba cmd s) = machine.more s"
  by (simp add: ata_command_def)

lemma read_words_machine [simp]: "machine.more (snd (read_words n s)) = machine.more s" "length (fst (read_words n s)) = n"
  by (induction n arbitrary: s) (simp_all add: split_def)

lemma write_words_machine [simp]: "machine.more (write_words vs s) = machine.more s"
  by (induction vs arbitrary: s) (simp_all add: write_words_def)

lemma identify_poll_machine [simp]: "machine.more (snd (identify_poll n st s)) = machine.more s"
  by (induction n arbitrary: st s) (simp_all add: split_def)

lemma disk_read_machine: "disk_read_sector lba s = Some (r, t) \<Longrightarrow> machine.more t = machine.more s"
  by (auto simp: disk_read_sector_def split_def split: if_splits option.splits dest!: ata_wait_data_machine)

lemma machine_mem_cong:
  fixes s t :: "'a disk_scheme"
  shows "machine.more t = machine.more s \<Longrightarrow> machine.more (t\<lparr>mem := m\<rparr>) = machine.more (s\<lparr>mem := m\<rparr>)"
  by (cases s; cases t; simp)

lemma disk_write_machine:
  assumes "disk_write_sector lba bs s = Some (r, t)"
  shows "machine.more (t\<lparr>mem := m\<rparr>) = machine.more (s\<lparr>mem := m\<rparr>)"
proof (cases "using_virtual_disk s \<and> virtual_disk s \<noteq> 0")
  case True
  with assms show ?thesis by (auto simp: disk_write_sector_def split: if_splits)
next
  case False
  with assms show ?thesis
    by (auto simp: disk_write_sector_def split: if_splits option.splits
        dest!: ata_wait_data_machine intro!: machine_mem_cong)
qed

lemmas disk_frames = memory_frames [THEN disk_field_cong(4)]

end
