(* ===== verification/Disk_Props.thy ===== *)
theory Disk_Props
  imports Disk Uaccess_Props
begin

text \<open>
Correctness of \<^verbatim>\<open>drivers/disk.c\<close>.  The disk in memory implements the interface of a sector device
  (locale \<open>sector_device\<close>); for the physical drive the theorems are about the registers that the
  driver programs and about its polling loops, for any behaviour of the drive.
\<close>

section \<open>Specification\<close>

definition vdisk_ok :: "'a disk_scheme \<Rightarrow> bool" where
  "vdisk_ok s \<longleftrightarrow> using_virtual_disk s \<and> virtual_disk s \<noteq> 0 \<and> disk_total_sectors s \<noteq> 0 \<and>
     unat (disk_total_sectors s) * 512 \<le> 2 ^ 32 \<and> unat (virtual_disk s) + unat (disk_total_sectors s) * 512 \<le> 2 ^ 64"

definition vsector :: "'a disk_scheme \<Rightarrow> u32 \<Rightarrow> u8 list" where
  "vsector s lba = map (\<lambda>i. mem s (vdisk_addr s lba i)) [0..<512]"

definition vwrite :: "u32 \<Rightarrow> u8 list \<Rightarrow> 'a disk_scheme \<Rightarrow> 'a disk_scheme" where
  "vwrite lba bs s = s\<lparr>mem := fold (\<lambda>i m. m(vdisk_addr s lba i := bs ! i)) [0..<512] (mem s)\<rparr>"

text \<open>The sector number that the registers hold after a command, from the newest write to each port.\<close>

fun last_out :: "u16 \<Rightarrow> cpu_event list \<Rightarrow> u8" where
  "last_out p [] = 0"
| "last_out p (OutB q v # tr) = (if p = q then v else last_out p tr)"
| "last_out p (_ # tr) = last_out p tr"

definition ata_lba :: "cpu_event list \<Rightarrow> u32" where
  "ata_lba tr = ucast (last_out 0x1F3 tr) OR push_bit 8 (ucast (last_out 0x1F4 tr)) OR
     push_bit 16 (ucast (last_out 0x1F5 tr)) OR push_bit 24 (ucast (last_out 0x1F6 tr AND 0x0F))"

definition status_reads :: "cpu_event list \<Rightarrow> nat" where
  "status_reads tr = length (filter (\<lambda>e. case e of InB p v \<Rightarrow> p = 0x1F7 | _ \<Rightarrow> False) tr)"

definition vdisk_sample :: disk where
  "vdisk_sample = memory.extend cold_memory
     \<lparr>disk_total_sectors = 64, virtual_disk = 0x200000, using_virtual_disk = True\<rparr>"

definition bare_disk :: "(cpu_event list \<Rightarrow> u16 \<Rightarrow> u16) \<Rightarrow> disk" where
  "bare_disk d = (memory.extend cold_memory
     \<lparr>disk_total_sectors = 64, virtual_disk = 0, using_virtual_disk = False\<rparr>)\<lparr>dev := d\<rparr>"

text \<open>
  The interface of a sector device: \<open>ready\<close> states answer every request, a read returns the
  contents of the sector, and a write changes one sector and nothing else of the device.
\<close>

locale sector_device =
  fixes ready :: "'s \<Rightarrow> bool"
    and nsec :: "'s \<Rightarrow> u32"
    and sector :: "'s \<Rightarrow> u32 \<Rightarrow> u8 list"
    and rd :: "u32 \<Rightarrow> 's \<Rightarrow> (u8 list option \<times> 's) option"
    and wr :: "u32 \<Rightarrow> u8 list \<Rightarrow> 's \<Rightarrow> (bool \<times> 's) option"
  assumes read_in: "ready s \<Longrightarrow> lba < nsec s \<Longrightarrow> rd lba s = Some (Some (sector s lba), s)"
    and read_out: "ready s \<Longrightarrow> nsec s \<le> lba \<Longrightarrow> rd lba s = Some (None, s)"
    and write_in: "ready s \<Longrightarrow> lba < nsec s \<Longrightarrow> length bs = 512 \<Longrightarrow>
      \<exists>t. wr lba bs s = Some (True, t) \<and> ready t \<and> nsec t = nsec s \<and>
          (\<forall>l < nsec s. sector t l = (if l = lba then bs else sector s l))"
    and write_out: "ready s \<Longrightarrow> nsec s \<le> lba \<Longrightarrow> wr lba bs s = Some (False, s)"
begin

lemma read_after_write:
  "ready s \<Longrightarrow> lba < nsec s \<Longrightarrow> length bs = 512 \<Longrightarrow>
   \<exists>t. wr lba bs s = Some (True, t) \<and> rd lba t = Some (Some bs, t)"
  using write_in [of s lba bs] read_in [of _ lba] by metis

lemma write_other:
  "ready s \<Longrightarrow> lba < nsec s \<Longrightarrow> length bs = 512 \<Longrightarrow> wr lba bs s = Some (ok, t) \<Longrightarrow> l < nsec s \<Longrightarrow> l \<noteq> lba \<Longrightarrow>
   rd l t = Some (Some (sector s l), t)"
  using write_in [of s lba bs] read_in [of t l] by fastforce

end

section \<open>The disk in memory\<close>

lemma vdisk_addr_nat:
  assumes "vdisk_ok s" "lba < disk_total_sectors s" "i < 512"
  shows "unat (vdisk_addr s lba i) = unat (virtual_disk s) + (unat lba * 512 + i)"
proof -
  have lba: "unat lba + 1 \<le> unat (disk_total_sectors s)" using assms(2) by (simp add: word_less_nat_alt)
  then have bound: "(unat lba + 1) * 512 \<le> unat (disk_total_sectors s) * 512" by (rule mult_le_mono1)
  then have m: "unat (lba * 512) = unat lba * 512"
    using assms(1) by (subst unat_mult_small) (simp_all add: vdisk_ok_def)
  have "unat (lba * 512) < 2 ^ 32" using unsigned_less [of "lba * 512"] by simp
  then have u: "unat (ucast (lba * 512) :: u64) = unat lba * 512"
    unfolding m by (simp add: unsigned_ucast_eq take_bit_nat_eq_self_iff m)
  have sum: "unat (virtual_disk s) + (unat lba * 512 + i) < 2 ^ 64"
    using assms(1,3) bound by (simp add: vdisk_ok_def)
  then have "unat (virtual_disk s + ucast (lba * 512)) = unat (virtual_disk s) + unat lba * 512"
    by (subst unat_add_small) (simp_all add: u)
  then show ?thesis
    unfolding vdisk_addr_def using sum assms(3) by (subst unat_add_small) (simp_all add: unat_of_nat_small)
qed

lemma vdisk_addr_inj:
  assumes "vdisk_ok s" "lba < disk_total_sectors s" "i < 512" "l < disk_total_sectors s" "j < 512"
  shows "vdisk_addr s lba i = vdisk_addr s l j \<longleftrightarrow> lba = l \<and> i = j"
proof -
  have "vdisk_addr s lba i = vdisk_addr s l j \<longleftrightarrow> unat lba * 512 + i = unat l * 512 + j"
    using vdisk_addr_nat [OF assms(1-3)] vdisk_addr_nat [OF assms(1,4,5)] by (simp add: word_unat_eq_iff)
  also have "\<dots> \<longleftrightarrow> lba = l \<and> i = j"
    using row_col_inj [of i 512 j "unat lba" "unat l"] assms by (simp add: word_unat_eq_iff)
  finally show ?thesis .
qed

lemma vwrite_fields [simp]:
  "disk_total_sectors (vwrite lba bs s) = disk_total_sectors s" "virtual_disk (vwrite lba bs s) = virtual_disk s"
  "using_virtual_disk (vwrite lba bs s) = using_virtual_disk s" "memory.more (vwrite lba bs s) = memory.more s"
  "vdisk_ok (vwrite lba bs s) = vdisk_ok s" "vdisk_addr (vwrite lba bs s) = vdisk_addr s"
  "disk.more (vwrite lba bs s) = disk.more s"
  by (simp_all add: vwrite_def vdisk_ok_def vdisk_addr_def fun_eq_iff)

lemma vsector_vwrite:
  assumes "vdisk_ok s" "lba < disk_total_sectors s" "l < disk_total_sectors s" "length bs = 512"
  shows "vsector (vwrite lba bs s) l = (if l = lba then bs else vsector s l)"
proof -
  have inj: "inj_on (vdisk_addr s lba) (set [0..<512])"
    using vdisk_addr_inj [OF assms(1,2) _ assms(2)] by (simp add: inj_on_def del: upt_rec_numeral)
  have "mem (vwrite lba bs s) (vdisk_addr s l i) = (if l = lba then bs ! i else mem s (vdisk_addr s l i))"
    if i: "i < 512" for i
  proof (cases "l = lba")
    case True
    with fold_upd_hit [OF _ inj, of i "\<lambda>i. bs ! i" "mem s"] i show ?thesis
      by (simp add: vwrite_def del: upt_rec_numeral fun_upd_apply)
  next
    case False
    then have "vdisk_addr s l i \<noteq> vdisk_addr s lba j" if "j < 512" for j
      using vdisk_addr_inj [OF assms(1,3) i assms(2) that] by simp
    then have "vdisk_addr s l i \<notin> vdisk_addr s lba ` set [0..<512]"
      unfolding set_upt by fastforce
    with False show ?thesis by (simp add: vwrite_def fold_upd_other del: upt_rec_numeral fun_upd_apply)
  qed
  then show ?thesis
    using assms(4) by (auto simp: vsector_def intro!: nth_equalityI simp del: upt_rec_numeral)
qed

lemma vdisk_read:
  "vdisk_ok s \<Longrightarrow> disk_read_sector lba s = (if lba < disk_total_sectors s then Some (Some (vsector s lba), s) else Some (None, s))"
  by (auto simp: disk_read_sector_def vdisk_ok_def vsector_def not_le simp del: upt_rec_numeral)

lemma vdisk_write:
  "vdisk_ok s \<Longrightarrow> disk_write_sector lba bs s = (if lba < disk_total_sectors s then Some (True, vwrite lba bs s) else Some (False, s))"
  by (auto simp: disk_write_sector_def vdisk_ok_def vwrite_def not_le simp del: upt_rec_numeral fun_upd_apply)

interpretation vdisk: sector_device vdisk_ok disk_total_sectors vsector disk_read_sector disk_write_sector
  by unfold_locales (auto simp: vdisk_read vdisk_write vsector_vwrite)

lemma length_vsector [simp]: "length (vsector s lba) = 512"
  by (simp add: vsector_def del: upt_rec_numeral)

section \<open>The task file\<close>

lemma low_byte: "w AND 0xFF = take_bit 8 (w :: u32)" "w AND 0x0F = take_bit 4 (w :: u32)"
  "b AND 0x0F = take_bit 4 (b :: u8)"
  by (simp_all add: take_bit_eq_mask mask_eq_exp_minus_1)

lemma ata_lba_command: "ata_lba (trace (ata_command lba cmd s)) = take_bit 28 lba"
proof -
  have drive: "((0xE0 OR 0x40) OR ucast (drop_bit 24 lba AND 0x0F)) AND 0x0F = (ucast (drop_bit 24 lba AND 0x0F) :: u8)"
  proof -
    have "(0xE0 :: u8) AND 0x0F = 0" by simp
    moreover have "(ucast (drop_bit 24 lba AND 0x0F) :: u8) AND 0x0F = ucast (drop_bit 24 lba AND 0x0F)"
      unfolding low_byte by (rule bit_word_eqI) (auto simp: bit_simps)
    ultimately show ?thesis by (simp add: bit.conj_disj_distrib2)
  qed
  let ?tr = "trace (ata_command lba cmd s)"
  have regs: "last_out 0x1F3 ?tr = ucast (lba AND 0xFF)" "last_out 0x1F4 ?tr = ucast (drop_bit 8 lba AND 0xFF)"
    "last_out 0x1F5 ?tr = ucast (drop_bit 16 lba AND 0xFF)"
    "last_out 0x1F6 ?tr = (0xE0 OR 0x40) OR ucast (drop_bit 24 lba AND 0x0F)"
    by (simp_all add: ata_command_def)
  have "ata_lba ?tr =
      ucast (ucast (lba AND 0xFF) :: u8) OR push_bit 8 (ucast (ucast (drop_bit 8 lba AND 0xFF) :: u8)) OR
      push_bit 16 (ucast (ucast (drop_bit 16 lba AND 0xFF) :: u8)) OR
      push_bit 24 (ucast (ucast (drop_bit 24 lba AND 0x0F) :: u8))"
    unfolding ata_lba_def regs drive ..
  also have "\<dots> = take_bit 28 lba"
    unfolding low_byte by (rule bit_word_eqI) (auto simp: bit_simps)
  finally show ?thesis .
qed

section \<open>Polling\<close>

lemma ata_wait_ready_bound: "status_reads (trace (ata_wait_ready s)) \<le> status_reads (trace s) + 100000"
proof -
  have "status_reads (trace (ata_wait_ready_loop n s)) \<le> status_reads (trace s) + n" for n
  proof (induction n arbitrary: s)
    case (Suc n)
    have "status_reads (trace (snd (inb 0x1F7 s))) = Suc (status_reads (trace s))"
      by (simp add: status_reads_def inb_def emit_def Let_def)
    with Suc.IH [of "snd (inb 0x1F7 s)"] show ?case by (simp add: split_def)
  qed simp
  then show ?thesis by (simp only: ata_wait_ready_def)
qed

lemma ata_wait_drq_hangs:
  assumes "\<And>tr. (ucast (dev s tr 0x1F7) :: u8) AND 8 = 0"
  shows "ata_wait_drq s = None"
proof -
  have "False" if "ata_wait_drq s = Some t" "\<And>tr. (ucast (dev s tr 0x1F7) :: u8) AND 8 = 0" for t
  proof -
    have "(\<forall>tr. (ucast (dev s tr 0x1F7) :: u8) AND 8 = 0) \<longrightarrow> False"
    proof (rule ata_wait_drq.raw_induct [where P = "\<lambda>s t. (\<forall>tr. (ucast (dev s tr 0x1F7) :: u8) AND 8 = 0) \<longrightarrow> False", OF _ that(1)])
      fix drq and s t :: "'b disk_scheme"
      assume IH: "\<And>s t. drq s = Some t \<Longrightarrow> (\<forall>tr. (ucast (dev s tr 0x1F7) :: u8) AND 8 = 0) \<longrightarrow> False"
        and eq: "(case inb 0x1F7 s of (status, s1) \<Rightarrow> if status AND 8 = 0 then drq s1 else Some s1) = Some t"
      show "(\<forall>tr. (ucast (dev s tr 0x1F7) :: u8) AND 8 = 0) \<longrightarrow> False"
      proof
        assume all: "\<forall>tr. (ucast (dev s tr 0x1F7) :: u8) AND 8 = 0"
        then have "fst (inb 0x1F7 s) AND 8 = 0" by (simp add: inb_def Let_def)
        with eq have "drq (snd (inb 0x1F7 s)) = Some t" by (simp add: split_def)
        from IH [OF this] all show False by simp
      qed
    qed
    with that(2) show False by blast
  qed
  with assms show ?thesis by (cases "ata_wait_drq s") auto
qed

section \<open>The fallback to memory\<close>

lemma heap_ok_frame:
  fixes s t :: "'a kheap_scheme"
  assumes "console.more t = console.more s"
  shows "heap_ok t bs = heap_ok s bs"
  using kheap_field_cong [OF assms] by (simp add: heap_ok_def KHEAP_START_def)

lemma kmalloc_too_big:
  assumes "heap_ok s bs" "no_wrap n" "0x400000 \<le> unat n"
  shows "\<exists>t. kmalloc n s = Some (0, t)"
proof -
  from kmalloc_returns [OF assms(1), of n] obtain p t bs' where
    t: "kmalloc n s = Some (p, t)" "heap_ok t bs'"
    and p: "p \<noteq> 0 \<Longrightarrow> \<exists>k. unat n \<le> k \<and> live bs' = insert (unat p, k) (live bs)"
    using assms(2) by (auto split: if_splits)
  have "p = 0"
  proof (rule ccontr)
    assume "p \<noteq> 0"
    from p [OF this] obtain k where k: "unat n \<le> k" "(unat p, k) \<in> live bs'" by auto
    from live_bounds [OF heap_ok_tiled(1) [OF t(2)] k(2)] k(1) assms(3) show False by simp
  qed
  with t show ?thesis by blast
qed

lemma report_status_frame [simp]:
  "console.more (report_status c m s) = console.more s"
  by (simp add: report_status_def)

lemma ata_identify_absent:
  assumes "\<And>tr. ucast (dev s tr 0x1F7) = (0xFF :: u8)"
  shows "\<exists>t. ata_identify s = (False, t) \<and> machine.more t = machine.more s"
proof -
  have "fst (inb 0x1F7 (outb p v s)) = 0xFF" for p v using assms by (simp add: inb_def Let_def)
  then show ?thesis by (auto simp: ata_identify_def split_def)
qed

section \<open>Properties\<close>

lemma vdisk_sample_ok: "vdisk_ok vdisk_sample" "disk_total_sectors vdisk_sample = 64"
  by (simp_all add: vdisk_sample_def memory.defs vdisk_ok_def)

lemma bare_disk_fields:
  "dev (bare_disk d) = d" "disk_total_sectors (bare_disk d) = 64" "virtual_disk (bare_disk d) = 0"
  "using_virtual_disk (bare_disk d) = False"
  by (simp_all add: bare_disk_def memory.defs)

lemma bare_disk_heap: "heap_ok (bare_disk d) [(0x106000, 0x3FFFE8, True)]"
proof -
  have "heap_ok (bare_disk d) bs = heap_ok sample_heap bs" for bs
    by (simp add: bare_disk_def cold_memory_def cold_keyboard_def marked_mm_def boot_mm_def heap_ok_def KHEAP_START_def
        kheap.defs mm.defs keyboard.defs memory.defs)
  with sample_heap_ok show ?thesis by simp
qed

text \<open>
  C13: on the disk in memory a read returns the 512 bytes of a sector and changes nothing, and is refused
  exactly when the sector lies beyond the disk.  A write is refused, and changes nothing, exactly when
  the sector lies beyond the disk; otherwise it succeeds, changes nothing but memory, and afterwards the
  sector reads back as the bytes written and every other one, inside the disk or beyond it, as before.
\<close>

theorem disk_write_read_roundtrip:
  assumes "vdisk_ok s" "length bs = 512"
  shows "(\<forall>l. \<exists>r. disk_read_sector l s = Some (r, s) \<and> (r = None) = (disk_total_sectors s \<le> l) \<and>
            (\<forall>b. r = Some b \<longrightarrow> length b = 512)) \<and>
    (if lba < disk_total_sectors s
     then \<exists>m. let t = s\<lparr>mem := m\<rparr> in disk_write_sector lba bs s = Some (True, t) \<and> vdisk_ok t \<and>
       (\<forall>l. disk_read_sector l t = Some (if l = lba then Some bs else fst (the (disk_read_sector l s)), t))
     else disk_write_sector lba bs s = Some (False, s))"
proof -
  have "\<exists>r. disk_read_sector l s = Some (r, s) \<and> (r = None) = (disk_total_sectors s \<le> l) \<and>
      (\<forall>b. r = Some b \<longrightarrow> length b = 512)" for l
    by (auto simp: vdisk_read [OF assms(1)] not_le)
  moreover have "\<exists>m. let t = s\<lparr>mem := m\<rparr> in disk_write_sector lba bs s = Some (True, t) \<and> vdisk_ok t \<and>
      (\<forall>l. disk_read_sector l t = Some (if l = lba then Some bs else fst (the (disk_read_sector l s)), t))"
    if lt: "lba < disk_total_sectors s"
  proof -
    from vdisk.write_in [OF assms(1) lt assms(2)] obtain t where
      t: "disk_write_sector lba bs s = Some (True, t)" "vdisk_ok t" "disk_total_sectors t = disk_total_sectors s"
        "\<And>l. l < disk_total_sectors s \<Longrightarrow> vsector t l = (if l = lba then bs else vsector s l)" by blast
    have "t = s\<lparr>mem := mem t\<rparr>" using t(1) lt vdisk_write [OF assms(1), of lba bs] by (auto simp: vwrite_def)
    moreover have "disk_read_sector l t = Some (if l = lba then Some bs else fst (the (disk_read_sector l s)), t)" for l
      using t(3,4) lt by (simp add: vdisk_read [OF assms(1)] vdisk_read [OF t(2)])
    ultimately show ?thesis using t(1,2) unfolding Let_def by metis
  qed
  ultimately show ?thesis using vdisk.write_out [OF assms(1), of lba bs] by (simp add: not_less)
qed

theorem disk_write_read_roundtrip_witness:
  "(\<exists>t. disk_write_sector 5 (replicate 512 7) vdisk_sample = Some (True, t) \<and>
     disk_read_sector 5 t = Some (Some (replicate 512 7), t)) \<and>
   disk_read_sector 64 vdisk_sample = Some (None, vdisk_sample)"
proof -
  have "length (replicate 512 (7 :: u8)) = 512" by simp
  note trip = disk_write_read_roundtrip [OF vdisk_sample_ok(1) this]
  have "\<exists>t. disk_write_sector 5 (replicate 512 7) vdisk_sample = Some (True, t) \<and>
      disk_read_sector 5 t = Some (Some (replicate 512 7), t)"
    using trip [of 5, THEN conjunct2] vdisk_sample_ok(2) by (auto simp: Let_def)
  moreover have "disk_read_sector 64 vdisk_sample = Some (None, vdisk_sample)"
    using trip [THEN conjunct1, rule_format, of 64] vdisk_sample_ok(2) by auto
  ultimately show ?thesis by blast
qed

text \<open>
  The registers that \<^verbatim>\<open>disk_read_sector\<close> and \<^verbatim>\<open>disk_write_sector\<close> program hold the sector number
  modulo $2^{28}$, so exactly the sector that was asked for when the number is below $2^{28}$, and a
  wait for the drive polls its status at most 100000 times.
\<close>

theorem ata_command_addresses_sector:
  "ata_lba (trace (ata_command lba cmd s)) = take_bit 28 lba \<and>
   status_reads (trace (ata_wait_ready s)) \<le> status_reads (trace s) + 100000"
  using ata_lba_command ata_wait_ready_bound by blast

text \<open>
  The wait for data has no limit: with a physical drive that never raises DRQ, reading or writing
  a sector of the disk never returns.
\<close>

theorem disk_transfer_hangs:
  assumes "\<not> using_virtual_disk s" "lba < disk_total_sectors s" "\<forall>tr. (ucast (dev s tr 0x1F7) :: u8) AND 8 = 0"
  shows "disk_read_sector lba s = None \<and> disk_write_sector lba bs s = None"
proof -
  have "ata_wait_data (ata_command lba c (ata_wait_ready s)) = None" for c
    unfolding ata_wait_data_def using assms(3) by (intro ata_wait_drq_hangs) (simp add: ata_command_def)
  moreover have "\<not> (disk_total_sectors s = 0 \<or> disk_total_sectors s \<le> lba)" using assms(2) by auto
  ultimately show ?thesis using assms(1) by (simp add: disk_read_sector_def disk_write_sector_def)
qed

theorem disk_transfer_hangs_witness:
  "disk_read_sector 3 (bare_disk (\<lambda>_ _. 0)) = None \<and> disk_write_sector 3 [] (bare_disk (\<lambda>_ _. 0)) = None"
  using disk_transfer_hangs [of "bare_disk (\<lambda>_ _. 0)" 3 "[]"] by (simp add: bare_disk_fields)

lemma disk_init_absent:
  assumes "heap_ok s bs" "\<forall>tr. ucast (dev s tr 0x1F7) = (0xFF :: u8)"
  shows "\<exists>s1 s2. disk_init s = Some (disk_use_memory 0 s2) \<and> kmalloc 0x1000000 (announce_virtual s1) = Some (0, s2) \<and>
    ata_identify (console_puts ''[DISK] Initializing ATA/IDE disk...\<newline>'' s) = (False, s1) \<and>
    machine.more s1 = machine.more (console_puts ''[DISK] Initializing ATA/IDE disk...\<newline>'' s)"
proof -
  let ?s = "console_puts ''[DISK] Initializing ATA/IDE disk...\<newline>'' s"
  from ata_identify_absent [of ?s] assms(2) obtain s1 where
    s1: "ata_identify ?s = (False, s1)" "machine.more s1 = machine.more ?s" by auto
  have c: "console.more (announce_virtual s1) = console.more s"
    using machine_to_disk(1) [OF s1(2)] by (simp add: announce_virtual_def)
  from kmalloc_too_big [of "announce_virtual s1" bs "0x1000000"] heap_ok_frame [OF c] assms(1) obtain s2 where
    s2: "kmalloc 0x1000000 (announce_virtual s1) = Some (0, s2)" by (auto simp: no_wrap_def)
  have "disk_init s = Some (disk_use_memory 0 s2)" using s1 s2 by (simp add: disk_init_def)
  with s1 s2 show ?thesis by blast
qed

text \<open>
  Without a drive on the bus the fallback never works: it asks the 4 MiB kernel heap for 16 MiB.
  \<^verbatim>\<open>disk_init\<close> returns with no sectors, and every later transfer fails.
\<close>

theorem disk_init_fallback_fails:
  assumes "heap_ok s bs" "\<forall>tr. ucast (dev s tr 0x1F7) = (0xFF :: u8)"
  shows "\<exists>t. disk_init s = Some t \<and> disk_total_sectors t = 0 \<and> virtual_disk t = 0 \<and>
    (\<forall>lba. disk_read_sector lba t = Some (None, t) \<and> disk_write_sector lba buf t = Some (False, t))"
proof -
  from disk_init_absent [OF assms] obtain s2 where "disk_init s = Some (disk_use_memory 0 s2)" by blast
  moreover have "disk_total_sectors (disk_use_memory 0 s2) = 0" "virtual_disk (disk_use_memory 0 s2) = 0"
    by (simp_all add: disk_use_memory_def report_status_def)
  ultimately show ?thesis by (simp add: disk_read_sector_def disk_write_sector_def)
qed

theorem disk_init_fallback_fails_witness:
  "\<exists>t. disk_init (bare_disk (\<lambda>_ _. 0xFF)) = Some t \<and> disk_total_sectors t = 0"
  using disk_init_fallback_fails [OF bare_disk_heap, of "\<lambda>_ _. 0xFF"] by (auto simp: bare_disk_fields)

end
