(* ===== verification/Partition.thy ===== *)
theory Partition
  imports Disk
begin

text \<open>
  The partition table, \<^verbatim>\<open>drivers/partition.c\<close>.  The master boot record is a packed structure of 512
  bytes; \<open>decode_mbr\<close> and \<open>encode_mbr\<close> are its layout.  The descriptors that the code allocates
  form a linked list in \<open>part_mem\<close>, indexed by their address.
\<close>

record mbr_partition_t =
  mp_status :: u8
  mp_first_chs :: "u8 list"
  mp_type :: u8
  mp_last_chs :: "u8 list"
  mp_lba_start :: u32
  mp_num_sectors :: u32

record mbr_t =
  boot_code :: "u8 list"
  mbr_parts :: "mbr_partition_t list"
  mbr_signature :: u16

record partition_info_t =
  pi_index :: u8
  pi_type :: u8
  pi_bootable :: u8
  pi_lba_start :: u32
  pi_num_sectors :: u32
  pi_size_bytes :: u64
  pi_next :: u64

record partition = disk +
  partition_list_head :: u64
  part_mem :: "u64 \<Rightarrow> partition_info_t"

abbreviation (input) "PARTITION_BOOTABLE \<equiv> (0x80 :: u8)"
abbreviation (input) "PARTITION_NON_BOOTABLE \<equiv> (0x00 :: u8)"
abbreviation (input) "PART_TYPE_EMPTY \<equiv> (0x00 :: u8)"
abbreviation (input) "PART_TYPE_FAT16 \<equiv> (0x06 :: u8)"
abbreviation (input) "PART_TYPE_MESAFS \<equiv> (0xA0 :: u8)"
abbreviation (input) "MBR_SIGNATURE \<equiv> (0xAA55 :: u16)"
abbreviation (input) "SIZEOF_PARTITION_INFO \<equiv> (32 :: u64)"

definition partition_type_name :: "u8 \<Rightarrow> string" where
  "partition_type_name type =
     (if type = 0x00 then ''Empty'' else if type = 0x01 then ''FAT12'' else if type = 0x04 then ''FAT16 (small)''
      else if type = 0x05 then ''Extended'' else if type = 0x06 then ''FAT16'' else if type = 0x07 then ''NTFS''
      else if type = 0x0B then ''FAT32'' else if type = 0x0C then ''FAT32 (LBA)'' else if type = 0x83 then ''Linux''
      else if type = 0xA0 then ''MesaFS'' else ''Unknown'')"

section \<open>The layout of the master boot record\<close>

definition decode_part :: "u8 list \<Rightarrow> mbr_partition_t" where
  "decode_part bs = \<lparr>mp_status = field 1 0 bs, mp_first_chs = take 3 (drop 1 bs), mp_type = field 1 4 bs,
     mp_last_chs = take 3 (drop 5 bs), mp_lba_start = field 4 8 bs, mp_num_sectors = field 4 12 bs\<rparr>"

definition encode_part :: "mbr_partition_t \<Rightarrow> u8 list" where
  "encode_part p = [mp_status p] @ mp_first_chs p @ [mp_type p] @ mp_last_chs p @
     le_bytes 4 (mp_lba_start p) @ le_bytes 4 (mp_num_sectors p)"

definition decode_mbr :: "u8 list \<Rightarrow> mbr_t" where
  "decode_mbr bs = \<lparr>boot_code = take 446 bs,
     mbr_parts = map (\<lambda>i. decode_part (take 16 (drop (446 + 16 * i) bs))) [0..<4],
     mbr_signature = field 2 510 bs\<rparr>"

definition encode_mbr :: "mbr_t \<Rightarrow> u8 list" where
  "encode_mbr m = boot_code m @ concat (map encode_part (mbr_parts m)) @ le_bytes 2 (mbr_signature m)"

section \<open>Reading and creating the table\<close>

text \<open>
  The result and the contents of the caller's record afterwards; the caller passes the address of a
  local variable, so the test for a null pointer never fires.
\<close>

definition partition_read_mbr :: "u8 list \<Rightarrow> 'a partition_scheme \<Rightarrow> ((bool \<times> u8 list) \<times> 'a partition_scheme) option" where
  "partition_read_mbr buf s =
     (case disk_read_sector 0 s of
        None \<Rightarrow> None
      | Some (None, s1) \<Rightarrow> Some ((False, buf), console_puts ''[PART] ERROR: Failed to read MBR\<newline>'' s1)
      | Some (Some bs, s1) \<Rightarrow>
          if mbr_signature (decode_mbr bs) \<noteq> MBR_SIGNATURE
          then Some ((False, bs), console_puts ''[PART] ERROR: Invalid MBR signature\<newline>'' s1)
          else Some ((True, bs), s1))"

definition set_part :: "nat \<Rightarrow> u8 \<Rightarrow> u8 \<Rightarrow> u32 \<Rightarrow> u32 \<Rightarrow> mbr_t \<Rightarrow> mbr_t" where
  "set_part i st ty lba n m = m\<lparr>mbr_parts := (mbr_parts m)[i := (mbr_parts m ! i)\<lparr>mp_status := st, mp_type := ty,
     mp_lba_start := lba, mp_num_sectors := n\<rparr>]\<rparr>"

definition default_mbr :: "mbr_t \<Rightarrow> mbr_t" where
  "default_mbr m =
     (fold (\<lambda>i. set_part i PARTITION_NON_BOOTABLE PART_TYPE_EMPTY 0 0) [1..<4]
       (set_part 1 PARTITION_NON_BOOTABLE PART_TYPE_FAT16 18432 8192
         (set_part 0 PARTITION_NON_BOOTABLE PART_TYPE_MESAFS 2048 16384
           (m\<lparr>boot_code := replicate 446 0\<rparr>))))\<lparr>mbr_signature := MBR_SIGNATURE\<rparr>"

definition part_info :: "nat \<Rightarrow> mbr_partition_t \<Rightarrow> u64 \<Rightarrow> partition_info_t" where
  "part_info i p next_p = \<lparr>pi_index = of_nat i, pi_type = mp_type p,
     pi_bootable = (if mp_status p = PARTITION_BOOTABLE then 1 else 0), pi_lba_start = mp_lba_start p,
     pi_num_sectors = mp_num_sectors p, pi_size_bytes = ucast (mp_num_sectors p) * 512, pi_next = next_p\<rparr>"

definition print_part :: "nat \<Rightarrow> partition_info_t \<Rightarrow> 'a partition_scheme \<Rightarrow> 'a partition_scheme" where
  "print_part i p s =
     console_puts '')\<newline>'' (console_put_dec (ucast (pi_lba_start p)) (console_puts '' MB (LBA: ''
       (console_put_dec (pi_size_bytes p div 1024 div 1024) (console_puts '' - ''
         (console_puts (partition_type_name (pi_type p)) (console_puts ''] '' (console_put_dec (of_nat i)
           (console_puts ''       ['' s))))))))"

text \<open>One turn of the loop over the four entries.\<close>

definition add_partition :: "nat \<Rightarrow> mbr_partition_t \<Rightarrow> 'a partition_scheme \<Rightarrow> 'a partition_scheme option" where
  "add_partition i p s =
     (if mp_type p = PART_TYPE_EMPTY then Some s
      else case kmalloc SIZEOF_PARTITION_INFO s of
             None \<Rightarrow> None
           | Some (a, s1) \<Rightarrow>
               if a = 0 then Some s1
               else (let pinfo = part_info i p (partition_list_head s1)
                     in Some (print_part i pinfo
                          (s1\<lparr>part_mem := (part_mem s1)(a := pinfo), partition_list_head := a\<rparr>))))"

fun add_partitions :: "nat \<Rightarrow> mbr_partition_t list \<Rightarrow> 'a partition_scheme \<Rightarrow> 'a partition_scheme option" where
  "add_partitions i [] s = Some s"
| "add_partitions i (p # ps) s =
     (case add_partition i p s of None \<Rightarrow> None | Some s1 \<Rightarrow> add_partitions (Suc i) ps s1)"

definition list_partitions :: "mbr_t \<Rightarrow> 'a partition_scheme \<Rightarrow> 'a partition_scheme option" where
  "list_partitions m s =
     (case add_partitions 0 (mbr_parts m) (console_puts ''[PART] Partition table:\<newline>'' s) of
        None \<Rightarrow> None
      | Some s1 \<Rightarrow> Some (report_status VGA_LIGHT_GREEN ''OK\<newline>'' s1))"

text \<open>\<open>junk\<close> is what the stack holds where the local record \<^verbatim>\<open>mbr\<close> lies.\<close>

definition partition_init :: "u8 list \<Rightarrow> 'a partition_scheme \<Rightarrow> 'a partition_scheme option" where
  "partition_init junk s =
     (case partition_read_mbr junk (console_puts ''[PART] Initializing partition table...\<newline>'' s) of
        None \<Rightarrow> None
      | Some ((True, buf), s1) \<Rightarrow> list_partitions (decode_mbr buf) s1
      | Some ((False, buf), s1) \<Rightarrow>
          (let m = default_mbr (decode_mbr buf)
           in case disk_write_sector 0 (encode_mbr m)
                     (console_puts ''[PART] No valid MBR found, creating default...\<newline>'' s1) of
                None \<Rightarrow> None
              | Some (False, s2) \<Rightarrow> Some (console_puts ''[PART] ERROR: Failed to write MBR\<newline>'' s2)
              | Some (True, s2) \<Rightarrow> list_partitions m s2))"

section \<open>Looking partitions up\<close>

partial_function (option) partition_find :: "(partition_info_t \<Rightarrow> bool) \<Rightarrow> (u64 \<Rightarrow> partition_info_t) \<Rightarrow> u64 \<Rightarrow> u64 option" where
  "partition_find P m p =
     (if p = 0 then Some 0 else if P (m p) then Some p else partition_find P m (pi_next (m p)))"

definition partition_get :: "u8 \<Rightarrow> 'a partition_scheme \<Rightarrow> u64 option" where
  "partition_get index s = partition_find (\<lambda>p. pi_index p = index) (part_mem s) (partition_list_head s)"

definition partition_list :: "'a partition_scheme \<Rightarrow> u64" where
  "partition_list s = partition_list_head s"

definition print_part_report :: "partition_info_t \<Rightarrow> 'a partition_scheme \<Rightarrow> 'a partition_scheme" where
  "print_part_report p s =
     (let s1 = console_puts ''\<newline>'' (console_puts (partition_type_name (pi_type p)) (console_puts '': ''
                 (console_put_dec (ucast (pi_index p)) (console_puts ''       Partition '' s))));
          s2 = console_puts '' sectors)\<newline>'' (console_put_dec (ucast (pi_num_sectors p)) (console_puts '' KB (''
                 (console_put_dec (pi_size_bytes p div 1024) (console_puts ''         Total Size: '' s1))))
      in console_puts ''\<newline>'' (console_put_dec (ucast (pi_lba_start p + pi_num_sectors p - 1)) (console_puts '' - ''
           (console_put_dec (ucast (pi_lba_start p)) (console_puts ''         LBA Range:  '' s2)))))"

partial_function (option) print_info_loop :: "u64 \<Rightarrow> u64 \<Rightarrow> 'a partition_scheme \<Rightarrow> (u64 \<times> 'a partition_scheme) option" where
  "print_info_loop p total_used s =
     (if p = 0 then Some (total_used, s)
      else print_info_loop (pi_next (part_mem s p)) (total_used + pi_size_bytes (part_mem s p))
             (print_part_report (part_mem s p) s))"

definition print_space :: "string \<Rightarrow> u64 \<Rightarrow> 'a partition_scheme \<Rightarrow> 'a partition_scheme" where
  "print_space label n s = console_puts '' KB\<newline>'' (console_put_dec (n div 1024) (console_puts label s))"

definition report_rule :: string where
  "report_rule = ''       ========================================\<newline>''"

definition partition_print_info :: "'a partition_scheme \<Rightarrow> 'a partition_scheme option" where
  "partition_print_info s =
     (let s1 = console_puts report_rule (console_puts ''\<newline>[PART] Partition Space Report:\<newline>'' s)
      in if partition_list_head s1 = 0 then Some (console_puts ''       No partitions found\<newline>'' s1)
         else case print_info_loop (partition_list_head s1) 0 s1 of
                None \<Rightarrow> None
              | Some (total_used, s2) \<Rightarrow>
                  (let total_disk = ucast (disk_get_total_sectors s2) * 512; free_space = total_disk - total_used
                   in Some (console_puts report_rule (print_space ''       Free Space:  '' free_space
                        (print_space ''       Used Space:  '' total_used
                          (print_space ''       Total Disk:  '' total_disk (console_puts report_rule s2)))))))"

section \<open>Frames\<close>

lemma partition_field_cong:
  fixes s t :: "'a partition_scheme"
  assumes "disk.more t = disk.more s"
  shows "partition_list_head t = partition_list_head s" "part_mem t = part_mem s" "partition.more t = partition.more s"
  using assms by (cases s; cases t; simp)+

lemmas partition_disk_frames [simp] =
  disk_frames [THEN partition_field_cong(1)] disk_frames [THEN partition_field_cong(2)]
  disk_frames [THEN partition_field_cong(3)]

lemmas partition_frames = disk_frames [THEN partition_field_cong(3)]

end
