(* ===== verification/Partition_Props.thy ===== *)
theory Partition_Props
  imports Partition Disk_Props
begin

text \<open>
The partition table, proved correct: the layout of the master boot record round-trips, the linked
  list of descriptors that \<^verbatim>\<open>partition_init\<close> builds is well formed and holds one descriptor for each
  entry of the table, look-ups on it return, and the report over it ends.
\<close>

section \<open>Specification\<close>

text \<open>The linked list of descriptors from address \<open>p\<close>, as the list of their addresses.\<close>

fun plist :: "(u64 \<Rightarrow> partition_info_t) \<Rightarrow> u64 \<Rightarrow> u64 list \<Rightarrow> bool" where
  "plist m p [] \<longleftrightarrow> p = 0"
| "plist m p (a # as) \<longleftrightarrow> p = a \<and> a \<noteq> 0 \<and> plist m (pi_next (m a)) as"

text \<open>The descriptors lie in distinct regions that the heap has handed out.\<close>

definition part_ok :: "'a partition_scheme \<Rightarrow> seg list \<Rightarrow> u64 list \<Rightarrow> bool" where
  "part_ok s bs as \<longleftrightarrow> heap_ok s bs \<and> plist (part_mem s) (partition_list_head s) as \<and> distinct as \<and>
     (\<forall>a \<in> set as. \<exists>k. 0 < k \<and> (unat a, k) \<in> live bs)"

text \<open>What a client of the list sees: the descriptors without their links.\<close>

definition part_view :: "'a partition_scheme \<Rightarrow> u64 list \<Rightarrow> partition_info_t list" where
  "part_view s as = map (\<lambda>a. (part_mem s a)\<lparr>pi_next := 0\<rparr>) as"

definition expected_parts :: "nat \<Rightarrow> mbr_partition_t list \<Rightarrow> partition_info_t list" where
  "expected_parts i ps = rev (map (\<lambda>(j, p). part_info j p 0) (filter (\<lambda>(j, p). mp_type p \<noteq> 0) (enumerate i ps)))"

definition part_wf :: "mbr_partition_t \<Rightarrow> bool" where
  "part_wf p \<longleftrightarrow> length (mp_first_chs p) = 3 \<and> length (mp_last_chs p) = 3"

definition mbr_wf :: "mbr_t \<Rightarrow> bool" where
  "mbr_wf m \<longleftrightarrow> length (boot_code m) = 446 \<and> length (mbr_parts m) = 4 \<and> (\<forall>p \<in> set (mbr_parts m). part_wf p)"

text \<open>Some free block has at least \<open>m\<close> bytes.\<close>

definition roomy :: "nat \<Rightarrow> seg list \<Rightarrow> bool" where
  "roomy m bs \<longleftrightarrow> (\<exists>b k. (b, k, True) \<in> set bs \<and> m \<le> k)"

text \<open>The part of the state that the disk in memory depends on, and the components above.\<close>

definition disk_part :: "'a partition_scheme \<Rightarrow> (u32 \<times> u64 \<times> bool) \<times> (u64 \<Rightarrow> u8) \<times> 'a" where
  "disk_part s = ((disk_total_sectors s, virtual_disk s, using_virtual_disk s), mem s, partition.more s)"

definition sample_part :: partition where
  "sample_part = disk.extend vdisk_sample \<lparr>partition_list_head = 0,
     part_mem = (\<lambda>_. \<lparr>pi_index = 0, pi_type = 0, pi_bootable = 0, pi_lba_start = 0, pi_num_sectors = 0,
       pi_size_bytes = 0, pi_next = 0\<rparr>)\<rparr>"

section \<open>The layout\<close>

lemma length_encode_part: "part_wf p \<Longrightarrow> length (encode_part p) = 16"
  by (simp add: encode_part_def part_wf_def)

lemma decode_encode_part:
  assumes "part_wf p"
  shows "decode_part (encode_part p) = p"
proof -
  have wf: "length (mp_first_chs p) = 3" "length (mp_last_chs p) = 3" using assms by (simp_all add: part_wf_def)
  have "field 1 0 (encode_part p) = mp_status p" "field 1 4 (encode_part p) = mp_type p"
    "field 4 8 (encode_part p) = mp_lba_start p" "field 4 12 (encode_part p) = mp_num_sectors p"
    "take 3 (drop 1 (encode_part p)) = mp_first_chs p" "take 3 (drop 5 (encode_part p)) = mp_last_chs p"
    using wf by (simp_all add: field_def encode_part_def)
  then show ?thesis by (simp add: decode_part_def)
qed

lemma mbr_parts_four: "length ps = 4 \<Longrightarrow> \<exists>a b c d. ps = [a, b, c, d]"
  by (auto simp: length_Suc_conv numeral_eq_Suc)

lemma length_encode_mbr: "mbr_wf m \<Longrightarrow> length (encode_mbr m) = 512"
proof -
  assume wf: "mbr_wf m"
  then obtain a b c d where ps: "mbr_parts m = [a, b, c, d]" using mbr_parts_four [of "mbr_parts m"] by (auto simp: mbr_wf_def)
  with wf show ?thesis by (simp add: mbr_wf_def encode_mbr_def length_encode_part)
qed

lemma decode_encode_mbr:
  assumes "mbr_wf m"
  shows "decode_mbr (encode_mbr m) = m"
proof -
  obtain a b c d where ps: "mbr_parts m = [a, b, c, d]" using assms mbr_parts_four [of "mbr_parts m"] by (auto simp: mbr_wf_def)
  then have wf: "length (boot_code m) = 446" "part_wf a" "part_wf b" "part_wf c" "part_wf d"
    using assms by (simp_all add: mbr_wf_def)
  note len = wf(1) wf(2-5) [THEN length_encode_part]
  have "take 446 (encode_mbr m) = boot_code m" using len by (simp add: encode_mbr_def)
  moreover have "field 2 510 (encode_mbr m) = mbr_signature m"
    using len by (simp add: encode_mbr_def ps field_def)
  moreover have "[0..<4] = [0, 1, 2, 3::nat]" by (simp add: upt_rec)
  then have "map (\<lambda>i. decode_part (take 16 (drop (446 + 16 * i) (encode_mbr m)))) [0..<4] = [a, b, c, d]"
    using len wf(2-5) [THEN decode_encode_part] by (simp add: encode_mbr_def ps)
  ultimately show ?thesis by (simp add: decode_mbr_def ps)
qed

lemma decode_mbr_wf: "length bs = 512 \<Longrightarrow> mbr_wf (decode_mbr bs)"
  by (auto simp: mbr_wf_def decode_mbr_def part_wf_def decode_part_def)

section \<open>Lookup\<close>

lemma partition_find_list:
  "plist m p as \<Longrightarrow> partition_find P m p = Some (case find (\<lambda>a. P (m a)) as of None \<Rightarrow> 0 | Some a \<Rightarrow> a)"
proof (induction as arbitrary: p)
  case Nil
  then show ?case by (subst partition_find.simps) simp
next
  case (Cons a as)
  then show ?case by (subst partition_find.simps) auto
qed

section \<open>Allocation\<close>

lemma roomy_mono: "roomy m bs \<Longrightarrow> m' \<le> m \<Longrightarrow> roomy m' bs"
  unfolding roomy_def by (meson order_trans)

lemma first_fit_roomy:
  assumes "roomy m bs" "n + 40 < m"
  shows "fst (first_fit n bs) \<noteq> 0 \<and> roomy (m - n - 24) (snd (first_fit n bs))"
  using assms
proof (induction bs)
  case (Cons x bs)
  obtain b k f where x: "x = (b, k, f)" by (cases x)
  show ?case
  proof (cases "f \<and> n \<le> k")
    case True
    show ?thesis
    proof (cases "roomy m bs")
      case rest: True
      then have "roomy (m - n - 24) bs" using roomy_mono by fastforce
      with True x show ?thesis by (auto simp: roomy_def)
    next
      case False
      with Cons.prems x have k: "f" "m \<le> k" by (auto simp: roomy_def)
      with Cons.prems(2) have "first_fit n (x # bs) = (b + 24, (b, n, False) # (b + 24 + n, k - n - 24, True) # bs)"
        by (simp add: x)
      moreover have "m - n - 24 \<le> k - n - 24" using k(2) by simp
      ultimately show ?thesis unfolding roomy_def by fastforce
    qed
  next
    case False
    with Cons.prems x have "roomy m bs" by (auto simp: roomy_def)
    with Cons.IH Cons.prems(2) False x show ?thesis by (auto simp: roomy_def split_def)
  qed
qed (simp add: roomy_def)

lemma kheap_to_partition:
  fixes s t :: "'a partition_scheme"
  assumes "kheap.more t = kheap.more s"
  shows "memory.more t = memory.more s" "mem t = mem s" "partition_list_head t = partition_list_head s"
    "part_mem t = part_mem s" "partition.more t = partition.more s" "disk.more t = disk.more s"
  using assms by (cases s; cases t; simp)+

lemma disk_part_vdisk:
  assumes "disk_part t = disk_part s"
  shows "vdisk_ok t = vdisk_ok s" "vsector t = vsector s" "disk_total_sectors t = disk_total_sectors s"
    "partition.more t = partition.more s"
  using assms by (auto simp: disk_part_def vdisk_ok_def vsector_def vdisk_addr_def fun_eq_iff simp del: upt_rec_numeral)

lemma disk_part_frames [simp]:
  "disk_part (console_puts cs s) = disk_part s" "disk_part (console_put_dec n s) = disk_part s"
  "disk_part (report_status c cs s) = disk_part s"
  "disk_part (s\<lparr>part_mem := pm\<rparr>) = disk_part s" "disk_part (s\<lparr>partition_list_head := h\<rparr>) = disk_part s"
  by (simp_all add: disk_part_def report_status_def)

lemma kmalloc_room:
  assumes "heap_ok s bs" "roomy m bs" "no_wrap n" "n \<noteq> 0" "unat n + 60 \<le> m"
  shows "\<exists>p t bs' k. kmalloc n s = Some (p, t) \<and> p \<noteq> 0 \<and> heap_ok t bs' \<and> unat n \<le> k \<and> live bs' = insert (unat p, k) (live bs) \<and>
    (\<forall>(x, j) \<in> live bs. x + j \<le> unat p \<or> unat p + k \<le> x) \<and> roomy (m - unat n - 40) bs'"
proof -
  let ?n = "unat (align16 n)" and ?r = "fst (first_fit (unat (align16 n)) bs)" and ?bs = "snd (first_fit (unat (align16 n)) bs)"
  have n: "unat n \<le> ?n" "?n < unat n + 16"
    using align16_nat [OF assms(3)] align16_ge [OF assms(3)] align_up_less [of 16 "unat n"] by simp_all
  with first_fit_roomy [OF assms(2), of ?n] assms(5) have r: "?r \<noteq> 0" "roomy (m - ?n - 24) ?bs" by auto
  from kmalloc_spec [OF assms(1,4)] obtain t where
    t: "kmalloc n s = Some (of_nat ?r, t)" "heap_ok t ?bs" by blast
  from first_fit_live [OF heap_ok_tiled(1) [OF assms(1)] r(1)] obtain k0 where k0:
    "?r + k0 \<le> unat (KHEAP_START s) + 0x400000" by auto
  then have u: "unat (of_nat ?r :: u64) = ?r"
    using heap_ok_tiled(2) [OF assms(1)] by (intro unat_of_nat_small) simp
  then have p: "(of_nat ?r :: u64) \<noteq> 0" using r(1) by (metis unat_0)
  from kheap.alloc_fresh [OF assms(1) t(1) p assms(3)] obtain bs' k where k:
    "heap_ok t bs'" "unat n \<le> k" "live bs' = insert (?r, k) (live bs)"
    "\<forall>(x, j) \<in> live bs. x + j \<le> ?r \<or> ?r + k \<le> x" unfolding u by blast
  have "bs' = ?bs" using k(1) t(2) heap_list_unique unfolding heap_ok_def by blast
  moreover have "roomy (m - unat n - 40) ?bs" using r(2) n by (elim roomy_mono) linarith
  ultimately show ?thesis using t p k u by auto
qed

lemma add_partition_spec:
  assumes ok: "part_ok s bs as" and room: "roomy m bs" "92 \<le> m"
  shows "\<exists>t bs' as'. add_partition i p s = Some t \<and> part_ok t bs' as' \<and> roomy (m - 72) bs' \<and>
    disk_part t = disk_part s \<and>
    part_view t as' = (if mp_type p = 0 then [] else [part_info i p 0]) @ part_view s as"
proof (cases "mp_type p = 0")
  case True
  with ok roomy_mono [OF room(1), of "m - 72"] show ?thesis by (auto simp: add_partition_def)
next
  case False
  have heap: "heap_ok s bs" and pl: "plist (part_mem s) (partition_list_head s) as" "distinct as"
    and lv: "\<forall>a \<in> set as. \<exists>k. 0 < k \<and> (unat a, k) \<in> live bs" using ok by (auto simp: part_ok_def)
  have "no_wrap 32" by (simp add: no_wrap_def)
  from kmalloc_room [OF heap room(1) this] room(2) obtain a s1 bs' k where
    a: "kmalloc 32 s = Some (a, s1)" "a \<noteq> 0" "heap_ok s1 bs'" "32 \<le> k" "live bs' = insert (unat a, k) (live bs)"
      "\<forall>(x, j) \<in> live bs. x + j \<le> unat a \<or> unat a + k \<le> x" "roomy (m - 72) bs'"
    by auto
  note f = kheap_to_partition [OF kmalloc_frame(1) [OF a(1)]]
  have fresh: "a \<notin> set as" using lv a(4,6) by fastforce
  let ?pi = "part_info i p (partition_list_head s1)"
  let ?t = "print_part i ?pi (s1\<lparr>part_mem := (part_mem s1)(a := ?pi), partition_list_head := a\<rparr>)"
  have t: "add_partition i p s = Some ?t" using False a by (simp add: add_partition_def Let_def)
  have same: "plist (part_mem s) h as \<Longrightarrow> a \<notin> set as \<Longrightarrow> plist ((part_mem s)(a := x)) h as" for h x and as
    by (induction as arbitrary: h) auto
  have "part_ok ?t bs' (a # as)"
    unfolding part_ok_def
  proof (intro conjI)
    have "heap_ok (s1\<lparr>part_mem := (part_mem s1)(a := ?pi), partition_list_head := a\<rparr>) bs'"
      using a(3) by (simp add: heap_ok_def KHEAP_START_def)
    then show "heap_ok ?t bs'"
      by (subst heap_ok_frame) (simp_all add: print_part_def)
    show "plist (part_mem ?t) (partition_list_head ?t) (a # as)"
      using same [OF pl(1) fresh] f a(2) by (simp add: print_part_def part_info_def)
    show "distinct (a # as)" using fresh pl by simp
    show "\<forall>b \<in> set (a # as). \<exists>k. 0 < k \<and> (unat b, k) \<in> live bs'"
    proof -
      have "0 < k" using a(4) by simp
      with lv a(5) show ?thesis by (simp, blast)
    qed
  qed
  moreover have "part_view ?t (a # as) = part_info i p 0 # part_view s as"
    using fresh f by (auto simp: part_view_def print_part_def part_info_def)
  moreover have "disk_part ?t = disk_part s"
    using f disk_field_cong [OF f(1)] by (simp add: print_part_def) (simp add: disk_part_def)
  ultimately show ?thesis using t a(7) False by auto
qed

lemma add_partitions_spec:
  assumes "part_ok s bs as" "roomy m bs" "72 * length ps + 20 \<le> m"
  shows "\<exists>t bs' as'. add_partitions i ps s = Some t \<and> part_ok t bs' as' \<and> disk_part t = disk_part s \<and>
    part_view t as' = expected_parts i ps @ part_view s as"
  using assms
proof (induction ps arbitrary: i s bs as m)
  case Nil
  then show ?case by (auto simp: expected_parts_def)
next
  case (Cons p ps)
  then have "92 \<le> m" by simp
  from add_partition_spec [OF Cons.prems(1,2) this, of i p] obtain s1 bs1 as1 where
    s1: "add_partition i p s = Some s1" "part_ok s1 bs1 as1" "roomy (m - 72) bs1" "disk_part s1 = disk_part s"
      "part_view s1 as1 = (if mp_type p = 0 then [] else [part_info i p 0]) @ part_view s as" by auto
  have "72 * length ps + 20 \<le> m - 72" using Cons.prems(3) by simp
  from Cons.IH [OF s1(2,3) this, of "Suc i"] obtain t bs2 as2 where
    t: "add_partitions (Suc i) ps s1 = Some t" "part_ok t bs2 as2" "disk_part t = disk_part s1"
      "part_view t as2 = expected_parts (Suc i) ps @ part_view s1 as1" by auto
  then have "part_view t as2 = expected_parts i (p # ps) @ part_view s as"
    using s1(5) by (simp add: expected_parts_def)
  with s1(1,4) t(1-3) show ?case by (intro exI [of _ t] exI [of _ bs2] exI [of _ as2]) simp
qed

lemma part_ok_frame:
  fixes s t :: "'a partition_scheme"
  assumes "console.more t = console.more s"
  shows "part_ok t bs as = part_ok s bs as" "part_view t as = part_view s as"
proof -
  have f: "partition_list_head t = partition_list_head s" "part_mem t = part_mem s"
    using assms by (cases s; cases t; simp)+
  then show "part_ok t bs as = part_ok s bs as" "part_view t as = part_view s as"
    using heap_ok_frame [OF assms] by (simp_all add: part_ok_def part_view_def)
qed

lemma list_partitions_spec:
  assumes "part_ok s bs as" "roomy 308 bs" "length (mbr_parts mb) = 4"
  shows "\<exists>t bs' as'. list_partitions mb s = Some t \<and> part_ok t bs' as' \<and> disk_part t = disk_part s \<and>
    part_view t as' = expected_parts 0 (mbr_parts mb) @ part_view s as"
proof -
  let ?s = "console_puts ''[PART] Partition table:\<newline>'' s"
  have ok: "part_ok ?s bs as" "part_view ?s as = part_view s as" using assms(1) part_ok_frame [of ?s s] by simp_all
  from add_partitions_spec [OF ok(1) assms(2), of "mbr_parts mb" 0] assms(3) obtain t bs' as' where
    t: "add_partitions 0 (mbr_parts mb) ?s = Some t" "part_ok t bs' as'" "disk_part t = disk_part s"
      "part_view t as' = expected_parts 0 (mbr_parts mb) @ part_view s as" using ok(2) by auto
  then show ?thesis
    using part_ok_frame [of "report_status VGA_LIGHT_GREEN ''OK\<newline>'' t" t] by (auto simp: list_partitions_def)
qed

lemma default_mbr_wf: "mbr_wf m \<Longrightarrow> mbr_wf (default_mbr m)"
proof -
  assume "mbr_wf m"
  then obtain a b c d where ps: "mbr_parts m = [a, b, c, d]" "part_wf a" "part_wf b" "part_wf c" "part_wf d"
    using mbr_parts_four [of "mbr_parts m"] by (auto simp: mbr_wf_def)
  then show ?thesis
    by (simp add: mbr_wf_def default_mbr_def set_part_def part_wf_def upt_rec)
qed

lemma default_mbr_parts:
  assumes "mbr_wf m"
  shows "expected_parts 0 (mbr_parts (default_mbr m)) =
    [\<lparr>pi_index = 0, pi_type = 0xA0, pi_bootable = 0, pi_lba_start = 2048, pi_num_sectors = 16384,
      pi_size_bytes = 0x800000, pi_next = 0\<rparr>]"
    and "mbr_signature (default_mbr m) = 0xAA55"
proof -
  from assms obtain a b c d where ps: "mbr_parts m = [a, b, c, d]"
    using mbr_parts_four [of "mbr_parts m"] by (auto simp: mbr_wf_def)
  then show "expected_parts 0 (mbr_parts (default_mbr m)) =
    [\<lparr>pi_index = 0, pi_type = 0xA0, pi_bootable = 0, pi_lba_start = 2048, pi_num_sectors = 16384,
      pi_size_bytes = 0x800000, pi_next = 0\<rparr>]"
    by (simp add: default_mbr_def set_part_def upt_rec expected_parts_def part_info_def)
  show "mbr_signature (default_mbr m) = 0xAA55" by (simp add: default_mbr_def)
qed

lemma vdisk_write_part_ok:
  assumes "part_ok s bs as"
  shows "part_ok (vwrite lba b s) bs as" "part_view (vwrite lba b s) as = part_view s as"
proof -
  have "heap_ok (vwrite lba b s) bs" using assms by (simp add: part_ok_def vwrite_def heap_ok_def KHEAP_START_def)
  moreover have "part_mem (vwrite lba b s) = part_mem s" "partition_list_head (vwrite lba b s) = partition_list_head s"
    by (simp_all add: vwrite_def)
  ultimately show "part_ok (vwrite lba b s) bs as" "part_view (vwrite lba b s) as = part_view s as"
    using assms by (simp_all add: part_ok_def part_view_def)
qed

lemma read_mbr_vdisk:
  assumes "vdisk_ok s"
  shows "partition_read_mbr buf s = (if field 2 510 (vsector s 0) = (0xAA55 :: u16) then Some ((True, vsector s 0), s)
    else Some ((False, vsector s 0), console_puts ''[PART] ERROR: Invalid MBR signature\<newline>'' s))"
proof -
  have "0 < disk_total_sectors s" using assms by (simp add: vdisk_ok_def word_gt_0)
  then show ?thesis by (simp add: partition_read_mbr_def vdisk_read [OF assms] decode_mbr_def)
qed

lemma partition_init_valid_table:
  assumes "vdisk_ok s" "part_ok s bs []" "roomy 308 bs" "field 2 510 (vsector s 0) = (0xAA55 :: u16)"
  shows "\<exists>t bs' as. partition_init junk s = Some t \<and> part_ok t bs' as \<and> disk_part t = disk_part s \<and>
    part_view t as = expected_parts 0 (mbr_parts (decode_mbr (vsector s 0)))"
proof -
  let ?s = "console_puts ''[PART] Initializing partition table...\<newline>'' s"
  have d: "vdisk_ok ?s" "vsector ?s = vsector s" using disk_part_vdisk [of ?s s] assms(1) by simp_all
  have ok: "part_ok ?s bs []" "part_view ?s [] = []" using assms(2) part_ok_frame [of ?s s] by (simp_all add: part_view_def)
  have "length (mbr_parts (decode_mbr (vsector s 0))) = 4" by (simp add: decode_mbr_def)
  from list_partitions_spec [OF ok(1) assms(3) this] ok(2) read_mbr_vdisk [OF d(1), of junk] d(2) assms(4)
  show ?thesis by (simp add: partition_init_def)
qed

lemma partition_init_default_table:
  assumes "vdisk_ok s" "part_ok s bs []" "roomy 308 bs" "field 2 510 (vsector s 0) \<noteq> (0xAA55 :: u16)"
  shows "\<exists>t bs' as. partition_init junk s = Some t \<and> part_ok t bs' as \<and> vdisk_ok t \<and>
    vsector t 0 = encode_mbr (default_mbr (decode_mbr (vsector s 0))) \<and>
    part_view t as = expected_parts 0 (mbr_parts (default_mbr (decode_mbr (vsector s 0))))"
proof -
  let ?s = "console_puts ''[PART] Initializing partition table...\<newline>'' s"
  let ?m = "default_mbr (decode_mbr (vsector s 0))"
  let ?s1 = "console_puts ''[PART] No valid MBR found, creating default...\<newline>''
    (console_puts ''[PART] ERROR: Invalid MBR signature\<newline>'' ?s)"
  let ?s2 = "vwrite 0 (encode_mbr ?m) ?s1"
  have d: "vdisk_ok ?s" "vsector ?s = vsector s" using disk_part_vdisk [of ?s s] assms(1) by simp_all
  have d1: "vdisk_ok ?s1" "vsector ?s1 = vsector s" "disk_total_sectors ?s1 = disk_total_sectors s"
    using disk_part_vdisk [of ?s1 s] assms(1) by simp_all
  have pos: "0 < disk_total_sectors s" using assms(1) by (simp add: vdisk_ok_def word_gt_0)
  have wf: "mbr_wf ?m" by (simp add: default_mbr_wf decode_mbr_wf)
  have ok1: "part_ok ?s1 bs []" "part_view ?s1 [] = []"
    using assms(2) part_ok_frame [of ?s1 s] by (simp_all add: part_view_def)
  have ok: "part_ok ?s2 bs []" "part_view ?s2 [] = []"
    using vdisk_write_part_ok [OF ok1(1)] by (simp_all add: part_view_def)
  have "length (mbr_parts ?m) = 4" using wf by (simp add: mbr_wf_def)
  from list_partitions_spec [OF ok(1) assms(3) this] ok(2) obtain t bs' as where
    t: "list_partitions ?m ?s2 = Some t" "part_ok t bs' as" "disk_part t = disk_part ?s2"
      "part_view t as = expected_parts 0 (mbr_parts ?m)" by auto
  have "partition_init junk s = Some t"
    using read_mbr_vdisk [OF d(1), of junk] d(2) assms(4) vdisk_write [OF d1(1), of 0 "encode_mbr ?m"] d1(3) pos t(1)
    by (simp add: partition_init_def Let_def)
  moreover have "vdisk_ok t" "vsector t 0 = encode_mbr ?m"
    using disk_part_vdisk [OF t(3)] d1 vsector_vwrite [OF d1(1), of 0 0 "encode_mbr ?m"] pos length_encode_mbr [OF wf]
    by simp_all
  ultimately show ?thesis using t by blast
qed

section \<open>Printing\<close>

lemma print_part_report_frames [simp]: "part_mem (print_part_report p s) = part_mem s" "disk_part (print_part_report p s) = disk_part s"
  by (simp_all add: print_part_report_def Let_def)

lemma print_info_loop_list:
  "plist (part_mem s) p as \<Longrightarrow>
   \<exists>t. print_info_loop p n s = Some (n + (\<Sum>a\<leftarrow>as. pi_size_bytes (part_mem s a)), t) \<and> disk_part t = disk_part s"
proof (induction as arbitrary: p n s)
  case Nil
  then show ?case by (subst print_info_loop.simps) simp
next
  case (Cons a as)
  let ?s = "print_part_report (part_mem s a) s"
  from Cons have pl: "plist (part_mem ?s) (pi_next (part_mem s a)) as" "p = a" "a \<noteq> 0" by simp_all
  from Cons.IH [OF pl(1), of "n + pi_size_bytes (part_mem s a)"] pl(2,3) show ?case
    by (subst print_info_loop.simps) (simp add: add.assoc)
qed

lemma partition_print_info_returns:
  assumes "plist (part_mem s) (partition_list_head s) as"
  shows "\<exists>t. partition_print_info s = Some t \<and> disk_part t = disk_part s"
proof -
  let ?s = "console_puts report_rule (console_puts ''\<newline>[PART] Partition Space Report:\<newline>'' s)"
  have "plist (part_mem ?s) (partition_list_head ?s) as" using assms by simp
  from print_info_loop_list [OF this, of 0] show ?thesis
    by (auto simp: partition_print_info_def Let_def print_space_def)
qed

section \<open>Properties\<close>

lemma sample_part_ok:
  "vdisk_ok sample_part" "part_ok sample_part [(0x106000, 0x3FFFE8, True)] []" "roomy 308 [(0x106000, 0x3FFFE8, True)]"
  "field 2 510 (vsector sample_part 0) \<noteq> (0xAA55 :: u16)"
proof -
  have "vdisk_ok sample_part = vdisk_ok vdisk_sample"
    by (simp add: sample_part_def disk.defs vdisk_ok_def)
  then show "vdisk_ok sample_part" using vdisk_sample_ok by simp
  have "heap_ok sample_part bs = heap_ok sample_heap bs" for bs
    by (simp add: sample_part_def vdisk_sample_def cold_memory_def cold_keyboard_def marked_mm_def boot_mm_def
        heap_ok_def KHEAP_START_def kheap.defs mm.defs keyboard.defs memory.defs disk.defs)
  then show "part_ok sample_part [(0x106000, 0x3FFFE8, True)] []"
    using sample_heap_ok by (simp add: part_ok_def) (simp add: sample_part_def disk.defs)
  show "roomy 308 [(0x106000, 0x3FFFE8, True)]" by (simp add: roomy_def)
  have "[0..<512] = [0..<510] @ [510, 511::nat]" by (simp add: upt_rec)
  then have "drop 510 (vsector sample_part 0) =
      [mem sample_part (vdisk_addr sample_part 0 510), mem sample_part (vdisk_addr sample_part 0 511)]"
    unfolding vsector_def by (simp only: map_append drop_append) simp
  moreover have "mem sample_part = (\<lambda>a. ucast a)" "virtual_disk sample_part = 0x200000"
    by (simp_all add: sample_part_def vdisk_sample_def cold_memory_def keyboard.defs memory.defs disk.defs)
  ultimately show "field 2 510 (vsector sample_part 0) \<noteq> (0xAA55 :: u16)"
    by (simp add: field_def vdisk_addr_def)
qed

text \<open>
  The master boot record survives encoding and decoding: a record with a boot area of 446 bytes and
  four entries takes 512 bytes on disk and reads back unchanged.
\<close>

theorem mbr_roundtrip:
  assumes "mbr_wf m"
  shows "length (encode_mbr m) = 512 \<and> decode_mbr (encode_mbr m) = m"
  using length_encode_mbr [OF assms] decode_encode_mbr [OF assms] by blast

theorem mbr_roundtrip_witness:
  "decode_mbr (encode_mbr (default_mbr (decode_mbr (replicate 512 0)))) = default_mbr (decode_mbr (replicate 512 0))"
  using mbr_roundtrip [OF default_mbr_wf [OF decode_mbr_wf [OF length_replicate]], of 0] by blast

text \<open>
  C18: on a working disk, with an empty list and room in the heap, \<^verbatim>\<open>partition_init\<close> returns and the list
  holds exactly one descriptor for each non-empty entry of the table, the last entry first, where
  the table is the one on the disk when its signature is right and the default one otherwise;
  afterwards the disk holds a table with the right signature, and the descriptors lie in distinct
  live regions of the heap.
\<close>

theorem partition_init_correct:
  assumes "vdisk_ok s" "part_ok s bs []" "roomy 308 bs"
  shows "\<exists>t bs' as. partition_init junk s = Some t \<and> part_ok t bs' as \<and> vdisk_ok t \<and>
    part_view t as = expected_parts 0 (mbr_parts (decode_mbr (vsector t 0))) \<and>
    decode_mbr (vsector t 0) = (if mbr_signature (decode_mbr (vsector s 0)) = 0xAA55 then decode_mbr (vsector s 0)
      else default_mbr (decode_mbr (vsector s 0))) \<and>
    partition_read_mbr junk t = Some ((True, vsector t 0), t)"
proof (cases "field 2 510 (vsector s 0) = (0xAA55 :: u16)")
  case True
  from partition_init_valid_table [OF assms True, of junk] obtain t bs' as where
    t: "partition_init junk s = Some t" "part_ok t bs' as" "disk_part t = disk_part s"
      "part_view t as = expected_parts 0 (mbr_parts (decode_mbr (vsector s 0)))" by blast
  note d = disk_part_vdisk [OF t(3)]
  show ?thesis using t d assms(1) True read_mbr_vdisk [of t junk]
    by (intro exI [of _ t] exI [of _ bs'] exI [of _ as]) (simp add: decode_mbr_def)
next
  case False
  let ?m = "default_mbr (decode_mbr (vsector s 0))"
  from partition_init_default_table [OF assms False, of junk] obtain t bs' as where
    t: "partition_init junk s = Some t" "part_ok t bs' as" "vdisk_ok t" "vsector t 0 = encode_mbr ?m"
      "part_view t as = expected_parts 0 (mbr_parts ?m)" by blast
  have wf: "mbr_wf ?m" by (simp add: default_mbr_wf decode_mbr_wf)
  have dec: "decode_mbr (vsector t 0) = ?m" using t(4) decode_encode_mbr [OF wf] by simp
  have sig: "mbr_signature (decode_mbr bs) = field 2 510 bs" for bs by (simp add: decode_mbr_def)
  have "field 2 510 (vsector t 0) = (0xAA55 :: u16)"
    using arg_cong [OF dec, of mbr_signature] default_mbr_parts(2) [OF decode_mbr_wf, of "vsector s 0"]
    by (simp add: sig)
  moreover have "mbr_signature (decode_mbr (vsector s 0)) \<noteq> 0xAA55" using False by (simp add: decode_mbr_def)
  ultimately show ?thesis using t dec read_mbr_vdisk [OF t(3), of junk]
    by (intro exI [of _ t] exI [of _ bs'] exI [of _ as]) simp
qed

theorem partition_init_correct_witness:
  "\<exists>t. partition_init [] sample_part = Some t \<and> partition_read_mbr [] t = Some ((True, vsector t 0), t)"
  using partition_init_correct [OF sample_part_ok(1-3), of "[]"] by blast

text \<open>
  The default table that \<^verbatim>\<open>partition_init\<close> creates on a disk without one has a single partition: the
  loop that clears the remaining entries starts at entry 1 and erases the data partition written
  just before.  Looking partition 0 up finds the MesaFS partition of 16384 sectors at sector 2048,
  looking partition 1 up finds nothing.
\<close>

theorem partition_default_single:
  assumes "vdisk_ok s" "part_ok s bs []" "roomy 308 bs" "mbr_signature (decode_mbr (vsector s 0)) \<noteq> 0xAA55"
  shows "\<exists>t a. partition_init junk s = Some t \<and> partition_get 0 t = Some a \<and> a \<noteq> 0 \<and>
    pi_type (part_mem t a) = 0xA0 \<and> pi_lba_start (part_mem t a) = 2048 \<and> pi_num_sectors (part_mem t a) = 16384 \<and>
    partition_get 1 t = Some 0"
proof -
  have "field 2 510 (vsector s 0) \<noteq> (0xAA55 :: u16)" using assms(4) by (simp add: decode_mbr_def)
  from partition_init_default_table [OF assms(1-3) this, of junk] obtain t bs' as where
    t: "partition_init junk s = Some t" "part_ok t bs' as"
      "part_view t as = expected_parts 0 (mbr_parts (default_mbr (decode_mbr (vsector s 0))))" by blast
  from t(3) default_mbr_parts(1) [OF decode_mbr_wf, of "vsector s 0"] obtain a where
    a: "as = [a]" "(part_mem t a)\<lparr>pi_next := 0\<rparr> = \<lparr>pi_index = 0, pi_type = 0xA0, pi_bootable = 0,
      pi_lba_start = 2048, pi_num_sectors = 16384, pi_size_bytes = 0x800000, pi_next = 0\<rparr>"
    by (auto simp: part_view_def)
  then have f: "pi_index (part_mem t a) = 0" "pi_type (part_mem t a) = 0xA0" "pi_lba_start (part_mem t a) = 2048"
    "pi_num_sectors (part_mem t a) = 16384" by (cases "part_mem t a"; simp)+
  have pl: "plist (part_mem t) (partition_list_head t) [a]" "a \<noteq> 0" using t(2) a(1) by (simp_all add: part_ok_def)
  show ?thesis using t(1) f pl(2) partition_find_list [OF pl(1)]
    by (intro exI [of _ t] exI [of _ a]) (simp add: partition_get_def)
qed

theorem partition_default_single_witness:
  "\<exists>t a. partition_init [] sample_part = Some t \<and> partition_get 0 t = Some a \<and> a \<noteq> 0 \<and> partition_get 1 t = Some 0"
proof -
  have "mbr_signature (decode_mbr (vsector sample_part 0)) \<noteq> 0xAA55"
    using sample_part_ok(4) by (simp add: decode_mbr_def)
  from partition_default_single [OF sample_part_ok(1-3) this, of "[]"] show ?thesis by blast
qed

end
