(* ===== verification/Mesafs.thy ===== *)
theory Mesafs
  imports Partition
begin

text \<open>
  The file system MesaFS, \<^verbatim>\<open>drivers/mesafs.c\<close> and \<^verbatim>\<open>include/mesafs.h\<close>.  The structures on disk are
  packed; the \<open>decode\<close> and \<open>encode\<close> functions are their layouts.  A \<^verbatim>\<open>mesafs_t *\<close> is an address in
  \<open>fs_mem\<close>.  Where the code reads a local variable that it has not initialised, or past the end of a
  local array, it sees whatever the stack holds: \<open>stack_junk k\<close> is what it sees the \<open>k\<close>-th time.
\<close>

type_synonym i32 = "32 word"

record mesafs_superblock_t =
  sb_magic :: u32
  sb_version :: u32
  sb_block_size :: u32
  sb_total_blocks :: u32
  sb_free_blocks :: u32
  sb_total_inodes :: u32
  sb_free_inodes :: u32
  sb_root_inode :: u32
  sb_reserved :: "u8 list"

record mesafs_inode_t =
  in_num :: u32
  in_type :: u8
  in_flags :: u8
  in_reserved1 :: u16
  in_size :: u32
  in_blocks_used :: u32
  in_direct_blocks :: "u32 list"
  in_indirect_block :: u32
  in_created :: u64
  in_modified :: u64
  in_reserved2 :: "u8 list"

record mesafs_dirent_t =
  de_inode :: u32
  de_type :: u8
  de_name_len :: u8
  de_name :: "u8 list"

record mesafs_bitmap_t =
  bitmap_data :: u64
  bitmap_size_bits :: u32

record mesafs_t =
  fs_sb :: mesafs_superblock_t
  fs_block_bitmap :: mesafs_bitmap_t
  fs_inode_bitmap :: mesafs_bitmap_t
  fs_partition_lba :: u32
  fs_partition_sectors :: u32

record mesafs = partition +
  mounted_fs :: u64
  fs_mem :: "u64 \<Rightarrow> mesafs_t"
  stack_junk :: "nat \<Rightarrow> nat \<Rightarrow> u8"
  junk_reads :: nat

abbreviation (input) "MESAFS_MAGIC \<equiv> (0x4D455341 :: u32)"
abbreviation (input) "MESAFS_VERSION \<equiv> (1 :: u32)"
abbreviation (input) "MESAFS_BLOCK_SIZE \<equiv> (4096 :: u32)"
abbreviation (input) "MESAFS_TYPE_FILE \<equiv> (0x01 :: u8)"
abbreviation (input) "MESAFS_TYPE_DIR \<equiv> (0x02 :: u8)"
abbreviation (input) "MESAFS_FLAG_USED \<equiv> (0x01 :: u8)"

definition stack_bytes :: "nat \<Rightarrow> 'a mesafs_scheme \<Rightarrow> u8 list \<times> 'a mesafs_scheme" where
  "stack_bytes n s = (map (stack_junk s (junk_reads s)) [0..<n], s\<lparr>junk_reads := Suc (junk_reads s)\<rparr>)"

section \<open>Layouts\<close>

definition decode_superblock :: "u8 list \<Rightarrow> mesafs_superblock_t" where
  "decode_superblock bs = \<lparr>sb_magic = field 4 0 bs, sb_version = field 4 4 bs, sb_block_size = field 4 8 bs,
     sb_total_blocks = field 4 12 bs, sb_free_blocks = field 4 16 bs, sb_total_inodes = field 4 20 bs,
     sb_free_inodes = field 4 24 bs, sb_root_inode = field 4 28 bs, sb_reserved = take 4068 (drop 32 bs)\<rparr>"

definition encode_superblock :: "mesafs_superblock_t \<Rightarrow> u8 list" where
  "encode_superblock sb = le_bytes 4 (sb_magic sb) @ le_bytes 4 (sb_version sb) @ le_bytes 4 (sb_block_size sb) @
     le_bytes 4 (sb_total_blocks sb) @ le_bytes 4 (sb_free_blocks sb) @ le_bytes 4 (sb_total_inodes sb) @
     le_bytes 4 (sb_free_inodes sb) @ le_bytes 4 (sb_root_inode sb) @ sb_reserved sb"

text \<open>The fields of an inode add up to 140 bytes, not to the 128 that the comment names.\<close>

definition decode_inode :: "u8 list \<Rightarrow> mesafs_inode_t" where
  "decode_inode bs = \<lparr>in_num = field 4 0 bs, in_type = field 1 4 bs, in_flags = field 1 5 bs,
     in_reserved1 = field 2 6 bs, in_size = field 4 8 bs, in_blocks_used = field 4 12 bs,
     in_direct_blocks = map (\<lambda>i. field 4 (16 + 4 * i) bs) [0..<10], in_indirect_block = field 4 56 bs,
     in_created = field 8 60 bs, in_modified = field 8 68 bs, in_reserved2 = take 64 (drop 76 bs)\<rparr>"

definition encode_inode :: "mesafs_inode_t \<Rightarrow> u8 list" where
  "encode_inode n = le_bytes 4 (in_num n) @ [in_type n] @ [in_flags n] @ le_bytes 2 (in_reserved1 n) @
     le_bytes 4 (in_size n) @ le_bytes 4 (in_blocks_used n) @ concat (map (le_bytes 4) (in_direct_blocks n)) @
     le_bytes 4 (in_indirect_block n) @ le_bytes 8 (in_created n) @ le_bytes 8 (in_modified n) @ in_reserved2 n"

definition decode_dirent :: "u8 list \<Rightarrow> mesafs_dirent_t" where
  "decode_dirent bs = \<lparr>de_inode = field 4 0 bs, de_type = field 1 4 bs, de_name_len = field 1 5 bs,
     de_name = take 58 (drop 6 bs)\<rparr>"

definition dir_entries :: "u8 list \<Rightarrow> mesafs_dirent_t list" where
  "dir_entries bs = map (\<lambda>i. decode_dirent (take 64 (drop (64 * i) bs))) [0..<64]"

section \<open>Blocks\<close>

text \<open>A block is eight sectors, yet block \<open>b\<close> starts only \<open>b\<close> sectors after block 0.\<close>

definition block_lba :: "mesafs_t \<Rightarrow> u32 \<Rightarrow> u32" where
  "block_lba f b = fs_partition_lba f + 1 + b"

definition read_block :: "u64 \<Rightarrow> u32 \<Rightarrow> 'a mesafs_scheme \<Rightarrow> (u8 list option \<times> 'a mesafs_scheme) option" where
  "read_block fs b s =
     (if fs = 0 \<or> sb_total_blocks (fs_sb (fs_mem s fs)) \<le> b then Some (None, s)
      else case read_sectors_from 8 (block_lba (fs_mem s fs) b) s of
             None \<Rightarrow> None
           | Some ((ok, bs), s1) \<Rightarrow> Some (if ok then Some bs else None, s1))"

definition write_block :: "u64 \<Rightarrow> u32 \<Rightarrow> u8 list \<Rightarrow> 'a mesafs_scheme \<Rightarrow> (bool \<times> 'a mesafs_scheme) option" where
  "write_block fs b bs s =
     (if fs = 0 \<or> sb_total_blocks (fs_sb (fs_mem s fs)) \<le> b then Some (False, s)
      else write_sectors_from 8 (block_lba (fs_mem s fs) b) bs s)"

section \<open>Inodes\<close>

definition inode_block :: "u32 \<Rightarrow> u32" where
  "inode_block n = 1 + n * 128 div 4096"

text \<open>
  The code indexes the block as an array of structures of 140 bytes with an index computed for 128
  bytes; \<open>block_slot\<close> is the place of the structure in the block.
\<close>

definition block_slot :: "u32 \<Rightarrow> nat" where
  "block_slot n = 140 * unat (n * 128 mod 4096 div 128)"

definition mesafs_read_inode ::
  "u64 \<Rightarrow> u32 \<Rightarrow> 'a mesafs_scheme \<Rightarrow> (mesafs_inode_t option \<times> 'a mesafs_scheme) option" where
  "mesafs_read_inode fs n s =
     (if fs = 0 \<or> sb_total_inodes (fs_sb (fs_mem s fs)) \<le> n then Some (None, s)
      else case read_block fs (inode_block n) s of
             None \<Rightarrow> None
           | Some (None, s1) \<Rightarrow> Some (None, s1)
           | Some (Some bs, s1) \<Rightarrow>
               (case stack_bytes 384 s1 of (beyond, s2) \<Rightarrow>
                  Some (Some (decode_inode (take 140 (drop (block_slot n) (bs @ beyond)))), s2)))"

text \<open>Storing the structure: the part of it that lies beyond the block buffer does not reach the disk.\<close>

definition write_inode :: "u64 \<Rightarrow> u32 \<Rightarrow> mesafs_inode_t \<Rightarrow> 'a mesafs_scheme \<Rightarrow> (bool \<times> 'a mesafs_scheme) option" where
  "write_inode fs n inode s =
     (if fs = 0 \<or> sb_total_inodes (fs_sb (fs_mem s fs)) \<le> n then Some (False, s)
      else case read_block fs (inode_block n) s of
             None \<Rightarrow> None
           | Some (None, s1) \<Rightarrow> Some (False, s1)
           | Some (Some bs, s1) \<Rightarrow>
               write_block fs (inode_block n)
                 (take 4096 (take (block_slot n) bs @ encode_inode inode @ drop (block_slot n + 140) bs)) s1)"

section \<open>Formatting and mounting\<close>

definition format_superblock :: "u32 \<Rightarrow> mesafs_superblock_t \<Rightarrow> mesafs_superblock_t" where
  "format_superblock total_blocks sb = sb\<lparr>sb_magic := MESAFS_MAGIC, sb_version := MESAFS_VERSION,
     sb_block_size := MESAFS_BLOCK_SIZE, sb_total_blocks := total_blocks, sb_free_blocks := total_blocks - 10,
     sb_total_inodes := 256, sb_free_inodes := 255, sb_root_inode := 1\<rparr>"

definition format_root_inode :: "mesafs_inode_t \<Rightarrow> mesafs_inode_t" where
  "format_root_inode n = n\<lparr>in_num := 1, in_type := MESAFS_TYPE_DIR, in_flags := MESAFS_FLAG_USED, in_size := 0,
     in_blocks_used := 1, in_direct_blocks := 2 # replicate 9 0, in_indirect_block := 0, in_created := 0,
     in_modified := 0\<rparr>"

definition mesafs_format :: "u32 \<Rightarrow> u32 \<Rightarrow> 'a mesafs_scheme \<Rightarrow> (bool \<times> 'a mesafs_scheme) option" where
  "mesafs_format lba num_sectors s =
     (let s1 = console_puts ''[MesaFS] Formatting partition...\<newline>'' s; total_blocks = num_sectors div 8
      in if total_blocks < 10 then Some (False, console_puts ''[MesaFS] Partition too small\<newline>'' s1)
         else case stack_bytes 4100 s1 of (junk_sb, s2) \<Rightarrow>
           (case disk_write_sector lba
                   (take 512 (encode_superblock (format_superblock total_blocks (decode_superblock junk_sb)))) s2 of
              None \<Rightarrow> None
            | Some (False, s3) \<Rightarrow> Some (False, s3)
            | Some (True, s3) \<Rightarrow>
                (case stack_bytes 140 s3 of (junk_inode, s4) \<Rightarrow>
                   (case write_sectors_from 8 (lba + 1)
                           (encode_inode (format_root_inode (decode_inode junk_inode)) @ replicate 3956 0) s4 of
                      None \<Rightarrow> None
                    | Some (False, s5) \<Rightarrow> Some (False, s5)
                    | Some (True, s5) \<Rightarrow>
                        (case write_sectors_from 8 (lba + 1 + 1) (replicate 4096 0) s5 of
                           None \<Rightarrow> None
                         | Some (False, s6) \<Rightarrow> Some (False, s6)
                         | Some (True, s6) \<Rightarrow> Some (True, console_puts ''[MesaFS] Format complete\<newline>'' s6))))))"

definition null_bitmap :: mesafs_bitmap_t where
  "null_bitmap = \<lparr>bitmap_data = 0, bitmap_size_bits = 0\<rparr>"

definition mount_report :: "mesafs_superblock_t \<Rightarrow> 'a mesafs_scheme \<Rightarrow> 'a mesafs_scheme" where
  "mount_report sb s =
     console_set_color VGA_WHITE VGA_BLACK (console_puts ''OK\<newline>'' (console_set_color VGA_LIGHT_GREEN VGA_BLACK
       (console_puts ''\<newline>       Status: '' (console_put_dec (ucast (sb_root_inode sb))
         (console_puts ''\<newline>       Root inode: '' (console_put_dec (ucast (sb_total_blocks sb))
           (console_puts ''       Total blocks: '' s)))))))"

definition mesafs_mount :: "u32 \<Rightarrow> u64 \<Rightarrow> 'a mesafs_scheme \<Rightarrow> (bool \<times> 'a mesafs_scheme) option" where
  "mesafs_mount lba fs s =
     (if fs = 0 then Some (False, s)
      else case disk_read_sector lba (console_puts ''[MesaFS] Mounting filesystem...\<newline>'' s) of
             None \<Rightarrow> None
           | Some (None, s1) \<Rightarrow> Some (False, console_puts ''[MesaFS] Failed to read superblock\<newline>'' s1)
           | Some (Some sb_buffer, s1) \<Rightarrow>
               if field 4 0 sb_buffer \<noteq> MESAFS_MAGIC
               then Some (False, console_puts ''[MesaFS] Invalid filesystem (not MesaFS)\<newline>'' s1)
               else case stack_bytes 3588 s1 of (beyond, s2) \<Rightarrow>
                 (let sb = decode_superblock (sb_buffer @ beyond)
                  in case partition_find (\<lambda>p. pi_lba_start p = lba) (part_mem s2) (partition_list_head s2) of
                       None \<Rightarrow> None
                     | Some p \<Rightarrow>
                         (let f = \<lparr>fs_sb = sb, fs_block_bitmap = null_bitmap, fs_inode_bitmap = null_bitmap,
                                fs_partition_lba = lba,
                                fs_partition_sectors = (if p \<noteq> 0 then pi_num_sectors (part_mem s2 p)
                                                        else sb_total_blocks sb * 8)\<rparr>
                          in Some (True, mount_report sb (s2\<lparr>fs_mem := (fs_mem s2)(fs := f), mounted_fs := fs\<rparr>)))))"

definition mesafs_unmount :: "u64 \<Rightarrow> 'a mesafs_scheme \<Rightarrow> bool \<times> 'a mesafs_scheme" where
  "mesafs_unmount fs s = (True, s\<lparr>mounted_fs := 0\<rparr>)"

section \<open>Directories and paths\<close>

text \<open>\<open>name i\<close> is the \<open>i\<close>-th byte from the pointer \<^verbatim>\<open>name\<close> on, inside its array or not.\<close>

definition entry_used :: "mesafs_dirent_t \<Rightarrow> bool" where
  "entry_used e \<longleftrightarrow> de_inode e \<noteq> 0 \<and> 0 < de_name_len e"

definition name_matches :: "mesafs_dirent_t \<Rightarrow> (nat \<Rightarrow> u8) \<Rightarrow> bool" where
  "name_matches e name \<longleftrightarrow>
     list_all (\<lambda>j. de_name e ! j = name j) [0..<min (unat (de_name_len e)) 58] \<and> name (unat (de_name_len e)) = 0"

fun find_entry :: "mesafs_dirent_t list \<Rightarrow> (nat \<Rightarrow> u8) \<Rightarrow> u32" where
  "find_entry [] name = 0"
| "find_entry (e # es) name =
     (if entry_used e \<and> name_matches e name then de_inode e else find_entry es name)"

definition find_in_dir :: "u64 \<Rightarrow> u32 \<Rightarrow> (nat \<Rightarrow> u8) \<Rightarrow> 'a mesafs_scheme \<Rightarrow> (u32 \<times> 'a mesafs_scheme) option" where
  "find_in_dir fs dir name s =
     (case mesafs_read_inode fs dir s of
        None \<Rightarrow> None
      | Some (None, s1) \<Rightarrow> Some (0, s1)
      | Some (Some d, s1) \<Rightarrow>
          if in_type d \<noteq> MESAFS_TYPE_DIR then Some (0, s1)
          else case read_block fs (in_direct_blocks d ! 0) s1 of
                 None \<Rightarrow> None
               | Some (None, s2) \<Rightarrow> Some (0, s2)
               | Some (Some bs, s2) \<Rightarrow> Some (find_entry (dir_entries bs) name, s2))"

text \<open>Filling the array \<^verbatim>\<open>component\<close> of 64 bytes; what follows in the stack stays as it was.\<close>

definition fill_component :: "u8 list \<Rightarrow> (nat \<Rightarrow> u8) \<Rightarrow> nat \<Rightarrow> u8" where
  "fill_component cs old i =
     (let len = min (length cs) 63 in if i < len then cs ! i else if i = len then 0 else old i)"

abbreviation (input) "SLASH \<equiv> (0x2F :: u8)"

function resolve_loop ::
  "u64 \<Rightarrow> u8 list \<Rightarrow> u32 \<Rightarrow> (nat \<Rightarrow> u8) \<Rightarrow> 'a mesafs_scheme \<Rightarrow> (u32 \<times> 'a mesafs_scheme) option" where
  "resolve_loop fs path cur buf s =
     (if path = [] then Some (cur, s)
      else let buf' = fill_component (takeWhile (\<lambda>c. c \<noteq> SLASH) path) buf;
               rest = dropWhile (\<lambda>c. c \<noteq> SLASH) path
           in case find_in_dir fs cur buf' s of
                None \<Rightarrow> None
              | Some (next_inode, s1) \<Rightarrow>
                  if next_inode = 0 then Some (0, s1)
                  else resolve_loop fs (tl rest) next_inode buf' s1)"
  by pat_completeness auto

termination
  by (relation "measure (\<lambda>(fs, path, cur, buf, s). length path)") (auto dest: rest_shorter)

declare resolve_loop.simps [simp del]

definition resolve_path :: "u64 \<Rightarrow> u8 list \<Rightarrow> 'a mesafs_scheme \<Rightarrow> (u32 \<times> 'a mesafs_scheme) option" where
  "resolve_path fs path s =
     (if fs = 0 then Some (0, s)
      else let p = (if path \<noteq> [] \<and> hd path = SLASH then tl path else path); root = sb_root_inode (fs_sb (fs_mem s fs))
           in if p = [] then Some (root, s)
              else case stack_bytes 256 s of (junk, s1) \<Rightarrow> resolve_loop fs p root (\<lambda>i. junk ! i) s1)"

definition mesafs_find_file :: "u64 \<Rightarrow> u8 list \<Rightarrow> 'a mesafs_scheme \<Rightarrow> (u32 \<times> 'a mesafs_scheme) option" where
  "mesafs_find_file fs path s = resolve_path fs path s"

section \<open>Reading files and listing directories\<close>

definition store_bytes :: "u64 \<Rightarrow> u8 list \<Rightarrow> (u64 \<Rightarrow> u8) \<Rightarrow> (u64 \<Rightarrow> u8)" where
  "store_bytes p bs m = fold (\<lambda>i m. m(p + of_nat i := bs ! i)) [0..<length bs] m"

text \<open>The loop over the blocks: the number of bytes that remain when it ends, none when a read fails.\<close>

function mesafs_read_loop ::
  "u64 \<Rightarrow> mesafs_inode_t \<Rightarrow> u64 \<Rightarrow> u64 \<Rightarrow> u32 \<Rightarrow> u32 \<Rightarrow> 'a mesafs_scheme \<Rightarrow> (u64 option \<times> 'a mesafs_scheme) option" where
  "mesafs_read_loop fs d dst remaining block_idx block_offset s =
     (if \<not> (0 < remaining \<and> block_idx < in_blocks_used d) then Some (Some remaining, s)
      else if 10 \<le> block_idx then Some (Some remaining, s)
      else let block_num = in_direct_blocks d ! unat block_idx
           in if block_num = 0 then Some (Some remaining, s)
              else case read_block fs block_num s of
                     None \<Rightarrow> None
                   | Some (None, s1) \<Rightarrow> Some (None, s1)
                   | Some (Some bs, s1) \<Rightarrow>
                       (let avail = ucast (MESAFS_BLOCK_SIZE - block_offset);
                            to_copy = (if remaining < avail then remaining else avail)
                        in mesafs_read_loop fs d (dst + to_copy) (remaining - to_copy) (block_idx + 1) 0
                             (s1\<lparr>mem := store_bytes dst (take (unat to_copy) (drop (unat block_offset) bs)) (mem s1)\<rparr>)))"
  by pat_completeness auto

termination
  by (relation "measure (\<lambda>(fs, d, dst, remaining, block_idx, block_offset, s). 10 - unat block_idx)")
     (auto simp: word_le_nat_alt unat_word_ariths not_le intro!: diff_less_mono2)

declare mesafs_read_loop.simps [simp del]

definition mesafs_read ::
  "u64 \<Rightarrow> u32 \<Rightarrow> u64 \<Rightarrow> u64 \<Rightarrow> u64 \<Rightarrow> 'a mesafs_scheme \<Rightarrow> (i32 \<times> 'a mesafs_scheme) option" where
  "mesafs_read fs inode buf cnt offset s =
     (if fs = 0 \<or> buf = 0 \<or> inode = 0 then Some (-1, s)
      else case mesafs_read_inode fs inode s of
             None \<Rightarrow> None
           | Some (None, s1) \<Rightarrow> Some (-1, s1)
           | Some (Some d, s1) \<Rightarrow>
               if in_type d \<noteq> MESAFS_TYPE_FILE then Some (-1, s1)
               else if ucast (in_size d) \<le> offset then Some (0, s1)
               else (let n = (if ucast (in_size d) < offset + cnt then ucast (in_size d) - offset else cnt)
                     in case mesafs_read_loop fs d buf n (ucast (offset div 4096)) (ucast (offset mod 4096)) s1 of
                          None \<Rightarrow> None
                        | Some (None, s2) \<Rightarrow> Some (-1, s2)
                        | Some (Some remaining, s2) \<Rightarrow> Some (ucast (n - remaining), s2)))"

definition mesafs_write :: "u64 \<Rightarrow> u32 \<Rightarrow> u64 \<Rightarrow> u64 \<Rightarrow> u64 \<Rightarrow> 'a mesafs_scheme \<Rightarrow> i32 \<times> 'a mesafs_scheme" where
  "mesafs_write fs inode buf cnt offset s = (-1, s)"

fun list_entries :: "mesafs_dirent_t list \<Rightarrow> int \<Rightarrow> int \<Rightarrow> mesafs_dirent_t list" where
  "list_entries [] cnt max_entries = []"
| "list_entries (e # es) cnt max_entries =
     (if cnt < max_entries
      then (if entry_used e then e # list_entries es (cnt + 1) max_entries else list_entries es cnt max_entries)
      else [])"

text \<open>The result and the entries stored in the caller's array, which is never the null pointer.\<close>

definition mesafs_list_dir ::
  "u64 \<Rightarrow> u32 \<Rightarrow> u64 \<Rightarrow> 'a mesafs_scheme \<Rightarrow> ((i32 \<times> mesafs_dirent_t list) \<times> 'a mesafs_scheme) option" where
  "mesafs_list_dir fs dir max_entries s =
     (if fs = 0 \<or> dir = 0 then Some ((-1, []), s)
      else case mesafs_read_inode fs dir s of
             None \<Rightarrow> None
           | Some (None, s1) \<Rightarrow> Some ((-1, []), s1)
           | Some (Some d, s1) \<Rightarrow>
               if in_type d \<noteq> MESAFS_TYPE_DIR then Some ((-1, []), s1)
               else case read_block fs (in_direct_blocks d ! 0) s1 of
                      None \<Rightarrow> None
                    | Some (None, s2) \<Rightarrow> Some ((-1, []), s2)
                    | Some (Some bs, s2) \<Rightarrow>
                        (let es = list_entries (dir_entries bs) 0 (sint (ucast max_entries :: i32))
                         in Some ((of_nat (length es), es), s2)))"

section \<open>Stubs and access to the mounted system\<close>

definition mesafs_alloc_block :: "u64 \<Rightarrow> 'a mesafs_scheme \<Rightarrow> u32 \<times> 'a mesafs_scheme" where
  "mesafs_alloc_block fs s = (0, s)"

definition mesafs_free_block :: "u64 \<Rightarrow> u32 \<Rightarrow> 'a mesafs_scheme \<Rightarrow> 'a mesafs_scheme" where
  "mesafs_free_block fs b s = s"

definition mesafs_alloc_inode :: "u64 \<Rightarrow> 'a mesafs_scheme \<Rightarrow> u32 \<times> 'a mesafs_scheme" where
  "mesafs_alloc_inode fs s = (0, s)"

definition mesafs_free_inode :: "u64 \<Rightarrow> u32 \<Rightarrow> 'a mesafs_scheme \<Rightarrow> 'a mesafs_scheme" where
  "mesafs_free_inode fs n s = s"

definition mesafs_get_mounted :: "'a mesafs_scheme \<Rightarrow> u64" where
  "mesafs_get_mounted s = mounted_fs s"

section \<open>Frames\<close>

lemma mesafs_field_cong:
  fixes s t :: "'a mesafs_scheme"
  assumes "partition.more t = partition.more s"
  shows "mounted_fs t = mounted_fs s" "fs_mem t = fs_mem s" "stack_junk t = stack_junk s" "junk_reads t = junk_reads s"
    "mesafs.more t = mesafs.more s"
  using assms by (cases s; cases t; simp)+

lemmas mesafs_partition_frames [simp] =
  partition_frames [THEN mesafs_field_cong(1)] partition_frames [THEN mesafs_field_cong(2)]
  partition_frames [THEN mesafs_field_cong(3)] partition_frames [THEN mesafs_field_cong(4)]
  partition_frames [THEN mesafs_field_cong(5)]

lemmas mesafs_frames = partition_frames [THEN mesafs_field_cong(5)]

end
