(* ===== verification/Mesafs_Props.thy ===== *)
theory Mesafs_Props
  imports Mesafs Partition_Props
begin

text \<open>
Correctness of \<^verbatim>\<open>drivers/mesafs.c\<close> on the disk in memory: the layouts of the structures, inodes,
  path resolution against a walk through finite maps, reading files, and what formatting and mounting
  leave.  Blocks overlap on disk, which the last theorems are about.
\<close>

section \<open>Specification\<close>

text \<open>The contents of block \<open>b\<close> of the mounted volume, on the disk in memory.\<close>

definition sectors :: "'a disk_scheme \<Rightarrow> u32 \<Rightarrow> nat \<Rightarrow> u8 list" where
  "sectors s lba n = concat (map (\<lambda>i. vsector s (lba + of_nat i)) [0..<n])"

definition fs_block :: "'a mesafs_scheme \<Rightarrow> u64 \<Rightarrow> u32 \<Rightarrow> u8 list" where
  "fs_block s fs b = sectors s (block_lba (fs_mem s fs) b) 8"

text \<open>A mounted volume that lies on the disk in memory.\<close>

definition fs_ok :: "u64 \<Rightarrow> 'a mesafs_scheme \<Rightarrow> bool" where
  "fs_ok fs s \<longleftrightarrow> fs \<noteq> 0 \<and> vdisk_ok s \<and>
     unat (fs_partition_lba (fs_mem s fs)) + unat (sb_total_blocks (fs_sb (fs_mem s fs))) + 8 \<le> unat (disk_total_sectors s)"

text \<open>What a run of sector writes leaves: nothing but the bytes of these sectors changes.\<close>

definition written :: "u32 \<Rightarrow> nat \<Rightarrow> u8 list \<Rightarrow> 'a disk_scheme \<Rightarrow> 'a disk_scheme \<Rightarrow> bool" where
  "written lba n bs s t \<longleftrightarrow> t = s\<lparr>mem := mem t\<rparr> \<and>
     (\<forall>l < disk_total_sectors s. vsector t l = (if unat lba \<le> unat l \<and> unat l < unat lba + n
        then take 512 (drop (512 * (unat l - unat lba)) bs) else vsector s l))"

definition superblock_wf :: "mesafs_superblock_t \<Rightarrow> bool" where
  "superblock_wf sb \<longleftrightarrow> length (sb_reserved sb) = 4068"

definition inode_wf :: "mesafs_inode_t \<Rightarrow> bool" where
  "inode_wf d \<longleftrightarrow> length (in_direct_blocks d) = 10 \<and> length (in_reserved2 d) = 64"

text \<open>
  The inode \<open>n\<close> as the code sees it, the \<open>k\<close>-th time it looks at the stack, and as it is on disk
  when its place lies inside the block.
\<close>

definition seen_inode :: "'a mesafs_scheme \<Rightarrow> u64 \<Rightarrow> u32 \<Rightarrow> nat \<Rightarrow> mesafs_inode_t" where
  "seen_inode s fs n k =
     decode_inode (take 140 (drop (block_slot n) (fs_block s fs (inode_block n) @ map (stack_junk s k) [0..<384])))"

definition disk_inode :: "'a mesafs_scheme \<Rightarrow> u64 \<Rightarrow> u32 \<Rightarrow> mesafs_inode_t" where
  "disk_inode s fs n = decode_inode (take 140 (drop (block_slot n) (fs_block s fs (inode_block n))))"

definition has_inode :: "'a mesafs_scheme \<Rightarrow> u64 \<Rightarrow> u32 \<Rightarrow> bool" where
  "has_inode s fs n \<longleftrightarrow> n < sb_total_inodes (fs_sb (fs_mem s fs)) \<and> inode_block n < sb_total_blocks (fs_sb (fs_mem s fs))"

definition slot_safe :: "u32 \<Rightarrow> bool" where
  "slot_safe n \<longleftrightarrow> unat n mod 32 < 29"

text \<open>The volume that formatting leaves: the superblock, and zeros from the second sector after it on.\<close>

definition formatted :: "u32 \<Rightarrow> u32 \<Rightarrow> 'a disk_scheme \<Rightarrow> bool" where
  "formatted lba num_sectors s \<longleftrightarrow>
     (\<exists>sb. superblock_wf sb \<and> vsector s lba = take 512 (encode_superblock (format_superblock (num_sectors div 8) sb))) \<and>
     sectors s (lba + 2) 8 = replicate 4096 0"

definition strip_slash :: "u8 list \<Rightarrow> u8 list" where
  "strip_slash path = (if path \<noteq> [] \<and> hd path = SLASH then tl path else path)"

text \<open>The names of a directory as a finite map, and the walk along a path that the code implements.\<close>

definition entry_name :: "mesafs_dirent_t \<Rightarrow> u8 list" where
  "entry_name e = take (unat (de_name_len e)) (de_name e)"

definition dir_map :: "u8 list \<Rightarrow> u8 list \<rightharpoonup> u32" where
  "dir_map bs = map_of (map (\<lambda>e. (entry_name e, de_inode e)) (filter entry_used (dir_entries bs)))"

definition is_dir :: "'a mesafs_scheme \<Rightarrow> u64 \<Rightarrow> u32 \<Rightarrow> bool" where
  "is_dir s fs d \<longleftrightarrow> has_inode s fs d \<and> in_type (disk_inode s fs d) = MESAFS_TYPE_DIR \<and>
     in_direct_blocks (disk_inode s fs d) ! 0 < sb_total_blocks (fs_sb (fs_mem s fs))"

definition dir_block :: "'a mesafs_scheme \<Rightarrow> u64 \<Rightarrow> u32 \<Rightarrow> u8 list" where
  "dir_block s fs d = fs_block s fs (in_direct_blocks (disk_inode s fs d) ! 0)"

definition dir_lookup :: "'a mesafs_scheme \<Rightarrow> u64 \<Rightarrow> u32 \<Rightarrow> u8 list \<rightharpoonup> u32" where
  "dir_lookup s fs d = (if is_dir s fs d then dir_map (dir_block s fs d) else Map.empty)"

fun walk :: "(u32 \<Rightarrow> u8 list \<rightharpoonup> u32) \<Rightarrow> u32 \<Rightarrow> u8 list list \<Rightarrow> u32 option" where
  "walk look d [] = Some d"
| "walk look d (c # cs) = (case look d c of None \<Rightarrow> None | Some n \<Rightarrow> walk look n cs)"

function path_components :: "u8 list \<Rightarrow> u8 list list" where
  "path_components path =
     (if path = [] then []
      else takeWhile (\<lambda>c. c \<noteq> SLASH) path # path_components (tl (dropWhile (\<lambda>c. c \<noteq> SLASH) path)))"
  by pat_completeness auto

termination
  by (relation "measure length") (auto dest: rest_shorter)

text \<open>
  A directory is well formed when its names fit into their entries, hold no NUL, and lead to inodes
  whose place lies inside a block.
\<close>

definition entry_wf :: "mesafs_dirent_t \<Rightarrow> bool" where
  "entry_wf e \<longleftrightarrow> de_name_len e \<le> 58 \<and> length (de_name e) = 58 \<and> 0 \<notin> set (entry_name e) \<and> slot_safe (de_inode e)"

definition dirs_wf :: "'a mesafs_scheme \<Rightarrow> u64 \<Rightarrow> bool" where
  "dirs_wf s fs \<longleftrightarrow> (\<forall>d e. slot_safe d \<longrightarrow> is_dir s fs d \<longrightarrow> e \<in> set (dir_entries (dir_block s fs d)) \<longrightarrow>
     entry_used e \<longrightarrow> entry_wf e)"

text \<open>A buffer of \<open>n\<close> bytes that does not overlap the disk in memory.\<close>

definition off_disk :: "'a disk_scheme \<Rightarrow> u64 \<Rightarrow> nat \<Rightarrow> bool" where
  "off_disk s p n \<longleftrightarrow> unat p + n \<le> 2 ^ 64 \<and>
     (unat p + n \<le> unat (virtual_disk s) \<or> unat (virtual_disk s) + unat (disk_total_sectors s) * 512 \<le> unat p)"

definition file_blocks :: "mesafs_inode_t \<Rightarrow> u32 list" where
  "file_blocks d = take (min 10 (unat (in_blocks_used d))) (in_direct_blocks d)"

definition file_data :: "'a mesafs_scheme \<Rightarrow> u64 \<Rightarrow> mesafs_inode_t \<Rightarrow> u8 list" where
  "file_data s fs d = take (unat (in_size d)) (concat (map (fs_block s fs) (file_blocks d)))"

definition blocks_ok :: "'a mesafs_scheme \<Rightarrow> u64 \<Rightarrow> mesafs_inode_t \<Rightarrow> bool" where
  "blocks_ok s fs d \<longleftrightarrow> length (in_direct_blocks d) = 10 \<and>
     (\<forall>b \<in> set (file_blocks d). b \<noteq> 0 \<and> b < sb_total_blocks (fs_sb (fs_mem s fs)))"

text \<open>
  A volume at sector 0 with a root directory that holds the file \<^verbatim>\<open>a\<close>, which holds \<^verbatim>\<open>hello\<close>: the byte
  at each offset, where it is not zero.  The file has inode 3.
\<close>

definition vol_byte :: "nat \<Rightarrow> u8" where
  "vol_byte off =
     (if off = 1168 then 2 else if off = 1180 then 20
      else if off = 1448 then 1 else if off = 1452 then 5 else if off = 1456 then 1 else if off = 1460 then 40
      else if off = 10752 then 3 else if off = 10757 then 1 else if off = 10758 then 0x61
      else if off = 20992 then 0x68 else if off = 20993 then 0x65 else if off = 20994 then 0x6C
      else if off = 20995 then 0x6C else if off = 20996 then 0x6F else 0)"

definition sample_mount :: mesafs_t where
  "sample_mount = \<lparr>fs_sb = \<lparr>sb_magic = MESAFS_MAGIC, sb_version = 1, sb_block_size = 4096, sb_total_blocks = 50,
     sb_free_blocks = 40, sb_total_inodes = 256, sb_free_inodes = 255, sb_root_inode = 1, sb_reserved = []\<rparr>,
     fs_block_bitmap = null_bitmap, fs_inode_bitmap = null_bitmap, fs_partition_lba = 0, fs_partition_sectors = 400\<rparr>"

definition sample_vol :: mesafs where
  "sample_vol = partition.extend
     (sample_part\<lparr>mem := (\<lambda>a. vol_byte (unat (a - 0x200000))), disk_total_sectors := 128\<rparr>)
     \<lparr>mounted_fs = 0x10, fs_mem = (\<lambda>_. sample_mount), stack_junk = (\<lambda>_ _. 0), junk_reads = 0\<rparr>"

section \<open>Sectors and blocks on the disk in memory\<close>

lemma sectors_Suc: "sectors s lba (Suc n) = vsector s lba @ sectors s (lba + 1) n"
  unfolding sectors_def upt_conv_Cons [OF zero_less_Suc] map_Suc_upt [symmetric]
  by (simp add: comp_def algebra_simps)

lemma length_sectors [simp]: "length (sectors s lba n) = 512 * n"
  by (induction n arbitrary: lba) (simp_all add: sectors_Suc, simp add: sectors_def)

lemma length_fs_block [simp]: "length (fs_block s fs b) = 4096"
  by (simp add: fs_block_def)

lemma unat_lba_Suc:
  fixes lba m :: u32
  assumes "unat lba + Suc n \<le> unat m"
  shows "unat (lba + 1) = Suc (unat lba)"
proof -
  have "unat m < 2 ^ 32" using unsigned_less [of m] by simp
  then show ?thesis using assms by (subst unat_add_small) simp_all
qed

lemma read_sectors_vdisk:
  assumes "vdisk_ok s" "unat lba + n \<le> unat (disk_total_sectors s)"
  shows "read_sectors_from n lba s = Some ((True, sectors s lba n), s)"
  using assms(2)
proof (induction n arbitrary: lba)
  case 0
  show ?case by (simp add: sectors_def)
next
  case (Suc n)
  then have "lba < disk_total_sectors s" "unat (lba + 1) + n \<le> unat (disk_total_sectors s)"
    using unat_lba_Suc [of lba n] by (simp_all add: word_less_nat_alt)
  with Suc.IH [of "lba + 1"] show ?case by (simp add: vdisk_read [OF assms(1)] sectors_Suc)
qed

lemma mem_frame: "t = s\<lparr>mem := mem t\<rparr> \<Longrightarrow> u = t\<lparr>mem := mem u\<rparr> \<Longrightarrow> u = s\<lparr>mem := mem u\<rparr>"
  for s t u :: "'a disk_scheme"
  by (cases s; cases t; cases u; simp)

lemma vwrite_frame: "vwrite lba bs s = s\<lparr>mem := mem (vwrite lba bs s)\<rparr>"
  by (simp add: vwrite_def)

lemma mem_frame_fields:
  fixes s t :: "'a disk_scheme"
  assumes "t = s\<lparr>mem := mem t\<rparr>"
  shows "disk_total_sectors t = disk_total_sectors s" "vdisk_ok t = vdisk_ok s" "memory.more t = memory.more s"
    "disk.more t = disk.more s"
  by (subst assms, simp add: vdisk_ok_def)+

lemma write_sectors_vdisk:
  assumes "vdisk_ok s" "unat lba + n \<le> unat (disk_total_sectors s)" "length bs = 512 * n"
  shows "\<exists>t. write_sectors_from n lba bs s = Some (True, t) \<and> written lba n bs s t"
  using assms
proof (induction n arbitrary: lba bs s)
  case 0
  show ?case by (auto simp: written_def)
next
  case (Suc n)
  let ?t = "vwrite lba (take 512 bs) s"
  have n: "lba < disk_total_sectors s" "unat (lba + 1) = Suc (unat lba)"
    using Suc.prems(2) unat_lba_Suc [of lba n] by (simp_all add: word_less_nat_alt)
  then have "\<exists>u. write_sectors_from n (lba + 1) (drop 512 bs) ?t = Some (True, u) \<and>
      written (lba + 1) n (drop 512 bs) ?t u"
    using Suc.prems by (intro Suc.IH) simp_all
  then obtain u where u: "write_sectors_from n (lba + 1) (drop 512 bs) ?t = Some (True, u)"
    "written (lba + 1) n (drop 512 bs) ?t u" by blast
  have "written lba (Suc n) bs s u"
    unfolding written_def
  proof (intro conjI allI impI)
    show "u = s\<lparr>mem := mem u\<rparr>" using mem_frame [OF vwrite_frame, of u lba "take 512 bs" s] u(2) by (simp add: written_def)
  next
    fix l assume l: "l < disk_total_sectors s"
    have "vsector ?t l = (if l = lba then take 512 bs else vsector s l)"
      using vsector_vwrite [OF Suc.prems(1) n(1) l, of "take 512 bs"] Suc.prems(3) by simp
    moreover have "vsector u l = (if Suc (unat lba) \<le> unat l \<and> unat l < Suc (unat lba) + n
        then take 512 (drop (512 * (unat l - Suc (unat lba))) (drop 512 bs)) else vsector ?t l)"
      using u(2) l n(2) by (simp add: written_def)
    moreover have "512 * (unat l - Suc (unat lba)) + 512 = 512 * (unat l - unat lba)" if "Suc (unat lba) \<le> unat l"
      using that by simp
    moreover have "l = lba \<longleftrightarrow> unat l = unat lba" by (simp add: word_unat_eq_iff)
    ultimately show "vsector u l = (if unat lba \<le> unat l \<and> unat l < unat lba + Suc n
        then take 512 (drop (512 * (unat l - unat lba)) bs) else vsector s l)" by auto
  qed
  then show ?case using u(1) by (simp add: vdisk_write [OF Suc.prems(1)] n(1))
qed

lemma unat_lba_add:
  fixes lba m :: u32
  assumes "unat lba + n \<le> unat m"
  shows "unat (lba + of_nat n) = unat lba + n"
proof -
  have "unat m < 2 ^ 32" using unsigned_less [of m] by simp
  then show ?thesis using assms by (subst unat_add_small) (simp_all add: unat_of_nat_small)
qed

lemma sectors_nth:
  assumes "i < 512 * n"
  shows "sectors s lba n ! i = vsector s (lba + of_nat (i div 512)) ! (i mod 512)"
  using assms
proof (induction n arbitrary: lba i)
  case (Suc n)
  show ?case
  proof (cases "i < 512")
    case True
    then show ?thesis by (simp add: sectors_Suc nth_append)
  next
    case False
    then obtain j where j: "i = 512 + j" by (metis le_add_diff_inverse not_less)
    then have "i div 512 = Suc (j div 512)" by simp
    with j Suc.prems Suc.IH [of j "lba + 1"] show ?thesis
      by (simp add: sectors_Suc nth_append algebra_simps del: div_add_self1 div_add_self2)
  qed
qed simp

text \<open>A run of sectors after a run of writes, byte by byte.\<close>

lemma sectors_written:
  assumes "written lba n bs s t" "length bs = 512 * n" "unat l + m \<le> unat (disk_total_sectors s)"
  shows "sectors t l m = map (\<lambda>i. if unat lba * 512 \<le> unat l * 512 + i \<and> unat l * 512 + i < (unat lba + n) * 512
    then bs ! (unat l * 512 + i - unat lba * 512) else sectors s l m ! i) [0..<512 * m]"
proof (rule nth_equalityI)
  fix i assume "i < length (sectors t l m)"
  then have i: "i < 512 * m" by simp
  let ?k = "l + of_nat (i div 512)"
  have d: "i div 512 < m" using i by (simp add: less_mult_imp_div_less mult.commute)
  then have k: "unat ?k = unat l + i div 512" "?k < disk_total_sectors s"
    using unat_lba_add [of l "i div 512" "disk_total_sectors s"] assms(3) by (simp_all add: word_less_nat_alt)
  have "vsector t ?k = (if unat lba \<le> unat l + i div 512 \<and> unat l + i div 512 < unat lba + n
      then take 512 (drop (512 * (unat l + i div 512 - unat lba)) bs) else vsector s ?k)"
    using assms(1) k by (simp add: written_def)
  moreover have "unat lba \<le> unat l + i div 512 \<longleftrightarrow> unat lba * 512 \<le> unat l * 512 + i"
    "unat l + i div 512 < unat lba + n \<longleftrightarrow> unat l * 512 + i < (unat lba + n) * 512"
    using div_mult_mod_eq [of i 512] by (simp_all add: algebra_simps, linarith+)
  moreover have "512 * (unat l + i div 512 - unat lba) + i mod 512 = unat l * 512 + i - unat lba * 512"
    if "unat lba \<le> unat l + i div 512" using that by (simp add: algebra_simps)
  moreover have "512 * (unat l + i div 512 - unat lba) \<le> length bs" if "unat l + i div 512 < unat lba + n"
    using that assms(2) by simp
  ultimately show "sectors t l m ! i = map (\<lambda>i. if unat lba * 512 \<le> unat l * 512 + i \<and> unat l * 512 + i < (unat lba + n) * 512
    then bs ! (unat l * 512 + i - unat lba * 512) else sectors s l m ! i) [0..<512 * m] ! i"
    using i by (auto simp: sectors_nth nth_drop)
qed simp

lemma sectors_written_same:
  assumes "written lba n bs s t" "length bs = 512 * n" "unat lba + n \<le> unat (disk_total_sectors s)"
  shows "sectors t lba n = bs"
  using assms(2) by (subst sectors_written [OF assms]) (auto intro!: nth_equalityI)

lemma fs_ok_fields:
  assumes "fs_ok fs s" "b < sb_total_blocks (fs_sb (fs_mem s fs))"
  shows "unat (block_lba (fs_mem s fs) b) = unat (fs_partition_lba (fs_mem s fs)) + 1 + unat b"
    "unat (block_lba (fs_mem s fs) b) + 8 \<le> unat (disk_total_sectors s)"
proof -
  let ?f = "fs_mem s fs"
  have b: "unat b < unat (sb_total_blocks (fs_sb ?f))" using assms(2) by (simp add: word_less_nat_alt)
  have "unat (disk_total_sectors s) < 2 ^ 32" using unsigned_less [of "disk_total_sectors s"] by simp
  with b assms(1) show 1: "unat (block_lba ?f b) = unat (fs_partition_lba ?f) + 1 + unat b"
    unfolding block_lba_def fs_ok_def by (subst unat_add_small) (simp_all, (subst unat_add_small, simp_all)+)
  show "unat (block_lba ?f b) + 8 \<le> unat (disk_total_sectors s)" using 1 b assms(1) by (simp add: fs_ok_def)
qed

lemma read_block_fs:
  assumes "fs_ok fs s"
  shows "read_block fs b s = (if b < sb_total_blocks (fs_sb (fs_mem s fs)) then Some (Some (fs_block s fs b), s) else Some (None, s))"
proof (cases "b < sb_total_blocks (fs_sb (fs_mem s fs))")
  case True
  have "read_sectors_from 8 (block_lba (fs_mem s fs) b) s = Some ((True, fs_block s fs b), s)"
    unfolding fs_block_def using assms fs_ok_fields(2) [OF assms True] by (intro read_sectors_vdisk) (simp_all add: fs_ok_def)
  then show ?thesis using True assms by (simp add: read_block_def fs_ok_def)
qed (simp add: read_block_def not_less)

lemma write_block_fs:
  assumes "fs_ok fs s" "b < sb_total_blocks (fs_sb (fs_mem s fs))" "length bs = 4096"
  shows "\<exists>t. write_block fs b bs s = Some (True, t) \<and> written (block_lba (fs_mem s fs) b) 8 bs s t"
  using assms write_sectors_vdisk [of s "block_lba (fs_mem s fs) b" 8 bs] fs_ok_fields(2) [OF assms(1,2)]
  by (auto simp: write_block_def fs_ok_def)

section \<open>Frames\<close>

lemma vdisk_cong:
  fixes s t :: "'a disk_scheme"
  assumes "mem t = mem s" "virtual_disk t = virtual_disk s" "disk_total_sectors t = disk_total_sectors s"
    "using_virtual_disk t = using_virtual_disk s"
  shows "vdisk_ok t = vdisk_ok s" "vsector t = vsector s" "sectors t = sectors s"
  using assms by (auto simp: vdisk_ok_def vsector_def vdisk_addr_def sectors_def fun_eq_iff simp del: upt_rec_numeral)

lemma vdisk_frames [simp]:
  fixes s :: "'a mesafs_scheme"
  shows
  "vdisk_ok (console_puts cs s) = vdisk_ok s" "vsector (console_puts cs s) = vsector s" "sectors (console_puts cs s) = sectors s"
  "vdisk_ok (mount_report sb s) = vdisk_ok s" "vsector (mount_report sb s) = vsector s" "sectors (mount_report sb s) = sectors s"
  "vdisk_ok (s\<lparr>junk_reads := k\<rparr>) = vdisk_ok s" "vsector (s\<lparr>junk_reads := k\<rparr>) = vsector s" "sectors (s\<lparr>junk_reads := k\<rparr>) = sectors s"
  "vdisk_ok (s\<lparr>fs_mem := fm\<rparr>) = vdisk_ok s" "vsector (s\<lparr>fs_mem := fm\<rparr>) = vsector s" "sectors (s\<lparr>fs_mem := fm\<rparr>) = sectors s"
  "vdisk_ok (s\<lparr>mounted_fs := fs\<rparr>) = vdisk_ok s" "vsector (s\<lparr>mounted_fs := fs\<rparr>) = vsector s" "sectors (s\<lparr>mounted_fs := fs\<rparr>) = sectors s"
  by (rule vdisk_cong; simp add: mount_report_def)+

lemma mount_report_fields [simp]:
  "disk_total_sectors (mount_report sb s) = disk_total_sectors s" "mesafs.more (mount_report sb s) = mesafs.more s"
  "fs_mem (mount_report sb s) = fs_mem s" "mounted_fs (mount_report sb s) = mounted_fs s"
  "stack_junk (mount_report sb s) = stack_junk s" "junk_reads (mount_report sb s) = junk_reads s"
  by (simp_all add: mount_report_def)

lemma fs_frames [simp]:
  "fs_ok fs (s\<lparr>junk_reads := k\<rparr>) = fs_ok fs s" "fs_block (s\<lparr>junk_reads := k\<rparr>) = fs_block s"
  by (simp_all add: fs_ok_def fs_block_def fun_eq_iff)

section \<open>Layouts\<close>

lemma field_take: "off + width \<le> n \<Longrightarrow> field width off (take n bs) = field width off bs"
  by (simp add: field_def drop_take min_def)

lemma field_Cons: "0 < off \<Longrightarrow> field width off (b # bs) = field width (off - 1) bs"
  by (cases off) (simp_all add: field_def)

lemma field_zeros: "field width off (replicate n 0) = (0 :: 'a::len word)"
proof -
  have "le_word (replicate k 0) = (0 :: 'a word)" for k by (induction k) simp_all
  then show ?thesis by (simp add: field_def)
qed

lemma superblock_fields:
  fixes sb :: mesafs_superblock_t
  shows "field 4 0 (encode_superblock sb) = sb_magic sb" "field 4 4 (encode_superblock sb) = sb_version sb"
    "field 4 8 (encode_superblock sb) = sb_block_size sb" "field 4 12 (encode_superblock sb) = sb_total_blocks sb"
    "field 4 16 (encode_superblock sb) = sb_free_blocks sb" "field 4 20 (encode_superblock sb) = sb_total_inodes sb"
    "field 4 24 (encode_superblock sb) = sb_free_inodes sb" "field 4 28 (encode_superblock sb) = sb_root_inode sb"
  by (simp_all add: encode_superblock_def field_append_right field_here)

lemma decode_encode_superblock: "superblock_wf sb \<Longrightarrow> decode_superblock (encode_superblock sb) = sb"
  by (simp add: decode_superblock_def superblock_fields superblock_wf_def)
     (simp add: encode_superblock_def)

lemma concat_le_bytes: "length (concat (map (le_bytes 4) (bs :: u32 list))) = 4 * length bs"
  by (induction bs) simp_all

lemma direct_field:
  fixes bs :: "u32 list"
  shows "i < length bs \<Longrightarrow> field 4 (4 * i) (concat (map (le_bytes 4) bs) @ rest) = bs ! i"
proof (induction bs arbitrary: i)
  case (Cons b bs)
  then show ?case by (cases i) (simp_all add: field_here field_append_right)
qed simp

lemma length_encode_inode [simp]: "inode_wf d \<Longrightarrow> length (encode_inode d) = 140"
  by (simp add: encode_inode_def inode_wf_def concat_le_bytes)

lemma decode_encode_inode:
  assumes "inode_wf d"
  shows "decode_inode (encode_inode d) = d"
proof -
  let ?e = "encode_inode d" and ?c = "concat (map (le_bytes 4) (in_direct_blocks d))"
  have len: "length ?c = 40" using assms by (simp add: inode_wf_def concat_le_bytes)
  have f: "field 4 0 ?e = in_num d" "field 1 4 ?e = in_type d" "field 1 5 ?e = in_flags d"
    "field 2 6 ?e = in_reserved1 d" "field 4 8 ?e = in_size d" "field 4 12 ?e = in_blocks_used d"
    by (simp_all add: encode_inode_def field_append_right field_here field_def)
  have g: "field 4 56 ?e = in_indirect_block d" "field 8 60 ?e = in_created d" "field 8 68 ?e = in_modified d"
    "take 64 (drop 76 ?e) = in_reserved2 d"
    using assms by (simp_all add: encode_inode_def field_def len inode_wf_def)
  have "field 4 (16 + 4 * i) ?e = in_direct_blocks d ! i" if "i < 10" for i
    using direct_field [of i "in_direct_blocks d"] that assms
    by (simp add: encode_inode_def field_append_right field_Cons inode_wf_def)
  then have "map (\<lambda>i. field 4 (16 + 4 * i) ?e) [0..<10] = in_direct_blocks d"
    using assms by (intro nth_equalityI) (simp_all add: inode_wf_def del: upt_rec_numeral)
  with f g show ?thesis by (simp add: decode_inode_def del: upt_rec_numeral)
qed

lemma decode_inode_wf: "140 \<le> length bs \<Longrightarrow> inode_wf (decode_inode bs)"
  by (simp add: decode_inode_def inode_wf_def)

lemma decode_inode_zeros: "in_type (decode_inode (replicate n 0)) = 0"
  by (simp add: decode_inode_def field_zeros)

section \<open>Inodes on disk\<close>

lemma block_slot_nat: "block_slot n = 140 * (unat n mod 32)"
proof -
  have "unat (n * 128 mod 4096 div 128) = unat n * 128 mod 2 ^ 32 mod 4096 div 128"
    by (simp add: unat_word_ariths unat_div unat_mod)
  also have "\<dots> = unat n * 128 mod (32 * 128) div 128" by (simp add: mod_mod_cancel)
  also have "\<dots> = unat n mod 32" by (simp only: mod_mult_mult2)
  finally show ?thesis by (simp add: block_slot_def)
qed

lemma slot_safe_inside: "slot_safe n \<longleftrightarrow> block_slot n + 140 \<le> 4096"
  by (auto simp: slot_safe_def block_slot_nat)

lemma seen_inode_safe: "slot_safe n \<Longrightarrow> seen_inode s fs n k = disk_inode s fs n"
  by (simp add: seen_inode_def disk_inode_def slot_safe_inside)

lemma read_inode_fs:
  assumes "fs_ok fs s"
  shows "mesafs_read_inode fs n s = (if has_inode s fs n
    then Some (Some (seen_inode s fs n (junk_reads s)), s\<lparr>junk_reads := Suc (junk_reads s)\<rparr>) else Some (None, s))"
  using assms by (auto simp: mesafs_read_inode_def read_block_fs has_inode_def seen_inode_def stack_bytes_def fs_ok_def
      not_le simp del: upt_rec_numeral)

text \<open>What a change of the memory alone leaves of the volume.\<close>

lemma mem_frame_fs:
  fixes s t :: "'a mesafs_scheme"
  assumes "t = s\<lparr>mem := mem t\<rparr>"
  shows "fs_mem t = fs_mem s" "stack_junk t = stack_junk s" "junk_reads t = junk_reads s" "fs_ok fs t = fs_ok fs s"
    "part_mem t = part_mem s" "partition_list_head t = partition_list_head s" "mounted_fs t = mounted_fs s"
proof -
  show f: "fs_mem t = fs_mem s" "stack_junk t = stack_junk s" "junk_reads t = junk_reads s"
    "part_mem t = part_mem s" "partition_list_head t = partition_list_head s" "mounted_fs t = mounted_fs s"
    by (subst assms, simp)+
  show "fs_ok fs t = fs_ok fs s" using mem_frame_fields(1,2) [OF assms] by (simp add: fs_ok_def f)
qed

lemma fs_block_written:
  assumes "fs_ok fs s" "b < sb_total_blocks (fs_sb (fs_mem s fs))" "length bs = 4096"
    and "written (block_lba (fs_mem s fs) b) 8 bs s t"
  shows "fs_block t fs b = bs" "fs_ok fs t"
proof -
  have f: "t = s\<lparr>mem := mem t\<rparr>" using assms(4) by (simp add: written_def)
  show "fs_ok fs t" using mem_frame_fs(4) [OF f] assms(1) by simp
  show "fs_block t fs b = bs"
    using sectors_written_same [OF assms(4)] assms(3) fs_ok_fields(2) [OF assms(1,2)] mem_frame_fs(1) [OF f]
    by (simp add: fs_block_def)
qed

lemma splice_slot:
  assumes "p + length e \<le> length bs"
  shows "take (length e) (drop p (take p bs @ e @ drop (p + length e) bs)) = e"
    "q + m \<le> p \<or> p + length e \<le> q \<Longrightarrow> q + m \<le> length bs \<Longrightarrow>
     take m (drop q (take p bs @ e @ drop (p + length e) bs)) = take m (drop q bs)"
proof -
  show "take (length e) (drop p (take p bs @ e @ drop (p + length e) bs)) = e" using assms by simp
  assume q: "q + m \<le> p \<or> p + length e \<le> q" "q + m \<le> length bs"
  show "take m (drop q (take p bs @ e @ drop (p + length e) bs)) = take m (drop q bs)"
    using q assms by (intro nth_equalityI) (auto simp: nth_append)
qed

text \<open>Writing an inode, for a place inside the block.\<close>

lemma write_inode_fs:
  assumes "fs_ok fs s" "has_inode s fs n" "slot_safe n" "inode_wf d"
  shows "\<exists>t. write_inode fs n d s = Some (True, t) \<and> fs_ok fs t \<and> t = s\<lparr>mem := mem t\<rparr> \<and> disk_inode t fs n = d \<and>
    (\<forall>m. slot_safe m \<longrightarrow> block_slot m \<noteq> block_slot n \<longrightarrow> inode_block m = inode_block n \<longrightarrow> disk_inode t fs m = disk_inode s fs m)"
proof -
  let ?b = "inode_block n" and ?bs = "fs_block s fs (inode_block n)" and ?p = "block_slot n"
  let ?new = "take ?p ?bs @ encode_inode d @ drop (?p + 140) ?bs"
  have b: "?b < sb_total_blocks (fs_sb (fs_mem s fs))" using assms(2) by (simp add: has_inode_def)
  have p: "?p + length (encode_inode d) \<le> length ?bs" and e: "length (encode_inode d) = 140"
    using assms(3,4) by (simp_all add: slot_safe_inside)
  have len: "length ?new = 4096" using p e by simp
  from write_block_fs [OF assms(1) b len] obtain t where
    t: "write_block fs ?b ?new s = Some (True, t)" "written (block_lba (fs_mem s fs) ?b) 8 ?new s t" by blast
  note fb = fs_block_written [OF assms(1) b len t(2)]
  have "write_inode fs n d s = Some (True, t)"
    using t(1) assms len by (simp add: write_inode_def read_block_fs [OF assms(1)] b has_inode_def not_le fs_ok_def)
  moreover have "disk_inode t fs n = d"
    using splice_slot(1) [OF p] decode_encode_inode [OF assms(4)] fb(1) e by (simp add: disk_inode_def)
  moreover have "disk_inode t fs m = disk_inode s fs m"
    if m: "slot_safe m" "block_slot m \<noteq> block_slot n" "inode_block m = inode_block n" for m
  proof -
    have "unat m mod 32 \<noteq> unat n mod 32" using m(2) by (simp add: block_slot_nat)
    then have "block_slot m + 140 \<le> ?p \<or> ?p + length (encode_inode d) \<le> block_slot m"
      unfolding e block_slot_nat by linarith
    moreover have "block_slot m + 140 \<le> length ?bs" using m(1) by (simp add: slot_safe_inside)
    ultimately show ?thesis using splice_slot(2) [OF p] fb(1) m(3) e by (simp add: disk_inode_def)
  qed
  ultimately show ?thesis using fb(2) t(2) by (auto simp: written_def)
qed

section \<open>Formatting and mounting\<close>

lemma length_encode_superblock: "superblock_wf sb \<Longrightarrow> length (encode_superblock sb) = 4100"
  by (simp add: encode_superblock_def superblock_wf_def)

lemma format_superblock_wf [simp]: "superblock_wf (format_superblock n sb) = superblock_wf sb"
  by (simp add: superblock_wf_def format_superblock_def)

lemma format_root_inode_wf [simp]: "inode_wf d \<Longrightarrow> inode_wf (format_root_inode d)"
  by (simp add: inode_wf_def format_root_inode_def)

lemma decode_superblock_wf: "4100 \<le> length bs \<Longrightarrow> superblock_wf (decode_superblock bs)"
  by (simp add: decode_superblock_def superblock_wf_def)

lemma superblock_sector:
  assumes "superblock_wf sb" "length bs = 3588"
  shows "decode_superblock (take 512 (encode_superblock sb) @ bs) =
    sb\<lparr>sb_reserved := take 480 (sb_reserved sb) @ bs\<rparr>" "field 4 0 (take 512 (encode_superblock sb)) = sb_magic sb"
proof -
  have len: "length (encode_superblock sb) = 4100" using assms(1) by (rule length_encode_superblock)
  have f: "field 4 off (take 512 (encode_superblock sb) @ bs) = field 4 off (encode_superblock sb)" if "off \<le> 508" for off
    using that len by (simp add: field_append_left field_take)
  have "drop 32 (take 512 (encode_superblock sb) @ bs) = take 480 (sb_reserved sb) @ bs"
    using len by (simp add: drop_take) (simp add: encode_superblock_def)
  then show "decode_superblock (take 512 (encode_superblock sb) @ bs) = sb\<lparr>sb_reserved := take 480 (sb_reserved sb) @ bs\<rparr>"
    using assms by (simp add: decode_superblock_def f superblock_fields superblock_wf_def)
  show "field 4 0 (take 512 (encode_superblock sb)) = sb_magic sb" by (simp add: field_take superblock_fields)
qed

lemma mesafs_format_vdisk:
  assumes "vdisk_ok s" "80 \<le> num_sectors" "unat lba + unat num_sectors \<le> unat (disk_total_sectors s)"
  shows "\<exists>t. mesafs_format lba num_sectors s = Some (True, t) \<and> vdisk_ok t \<and> formatted lba num_sectors t \<and>
    disk_total_sectors t = disk_total_sectors s \<and> part_mem t = part_mem s \<and> partition_list_head t = partition_list_head s"
proof -
  let ?s1 = "console_puts ''[MesaFS] Formatting partition...\<newline>'' s"
  let ?sb = "decode_superblock (map (stack_junk ?s1 (junk_reads ?s1)) [0..<4100])"
  let ?img = "take 512 (encode_superblock (format_superblock (num_sectors div 8) ?sb))"
  let ?s2 = "?s1\<lparr>junk_reads := Suc (junk_reads ?s1)\<rparr>"
  let ?s3 = "vwrite lba ?img ?s2"
  let ?s4 = "?s3\<lparr>junk_reads := Suc (junk_reads ?s3)\<rparr>"
  let ?ino = "encode_inode (format_root_inode (decode_inode (map (stack_junk ?s3 (junk_reads ?s3)) [0..<140]))) @ replicate 3956 0"
  have n: "80 \<le> unat num_sectors" "\<not> num_sectors div 8 < 10"
    using assms(2) by (simp_all add: word_le_nat_alt word_less_nat_alt unat_div)
  have total: "unat (disk_total_sectors s) < 2 ^ 32" using unsigned_less [of "disk_total_sectors s"] by simp
  have l: "unat (lba + 1) = unat lba + 1" "unat (lba + 2) = unat lba + 2" "lba < disk_total_sectors s"
    using unat_lba_add [of lba 1 "disk_total_sectors s"] unat_lba_add [of lba 2 "disk_total_sectors s"] assms(3) n(1)
    by (simp_all add: word_less_nat_alt)
  have sb: "superblock_wf ?sb" by (simp add: decode_superblock_wf del: upt_rec_numeral)
  have img: "length ?img = 512" using length_encode_superblock [of "format_superblock (num_sectors div 8) ?sb"] sb by simp
  have d2: "vdisk_ok ?s2" "disk_total_sectors ?s2 = disk_total_sectors s" using assms(1) by simp_all
  have d4: "vdisk_ok ?s4" "disk_total_sectors ?s4 = disk_total_sectors s" using d2 by simp_all
  have ino: "length ?ino = 512 * 8"
    using length_encode_inode [OF format_root_inode_wf [OF decode_inode_wf]] by (simp del: upt_rec_numeral)
  have w1: "disk_write_sector lba ?img ?s2 = Some (True, ?s3)" using vdisk_write [OF d2(1), of lba ?img] l(3) d2(2) by simp
  from write_sectors_vdisk [OF d4(1) _ ino, of "lba + 1"] obtain s5 where
    s5: "write_sectors_from 8 (lba + 1) ?ino ?s4 = Some (True, s5)" "written (lba + 1) 8 ?ino ?s4 s5"
    using d4(2) l(1) assms(3) n(1) by auto
  have f5: "s5 = ?s4\<lparr>mem := mem s5\<rparr>" using s5(2) by (simp add: written_def)
  note g5 = mem_frame_fields [OF f5] mem_frame_fs [OF f5]
  have d5: "vdisk_ok s5" "disk_total_sectors s5 = disk_total_sectors s" using g5(1,2) d4 by simp_all
  have "length (replicate 4096 (0::u8)) = 512 * 8" by simp
  from write_sectors_vdisk [OF d5(1) _ this, of "lba + 2"] obtain s6 where
    s6: "write_sectors_from 8 (lba + 2) (replicate 4096 0) s5 = Some (True, s6)" "written (lba + 2) 8 (replicate 4096 0) s5 s6"
    using d5(2) l(2) assms(3) n(1) by auto
  have f6: "s6 = s5\<lparr>mem := mem s6\<rparr>" using s6(2) by (simp add: written_def)
  note g6 = mem_frame_fields [OF f6] mem_frame_fs [OF f6]
  let ?t = "console_puts ''[MesaFS] Format complete\<newline>'' s6"
  have "mesafs_format lba num_sectors s = Some (True, ?t)"
    using n(2) w1 s5(1) s6(1)
    by (simp add: mesafs_format_def stack_bytes_def Let_def add.assoc del: upt_rec_numeral)
  moreover have "vsector s6 lba = ?img"
  proof -
    have "vsector s6 lba = vsector s5 lba" using s6(2) l d5(2) by (simp add: written_def)
    also have "\<dots> = vsector ?s4 lba" using s5(2) l d4(2) by (simp add: written_def)
    also have "\<dots> = ?img" using vsector_vwrite [OF d2(1), of lba lba ?img] img l(3) d2(2) by simp
    finally show ?thesis .
  qed
  moreover have "sectors s6 (lba + 2) 8 = replicate 4096 0"
    using sectors_written_same [OF s6(2)] l(2) assms(3) n(1) d5(2) by simp
  ultimately show ?thesis using sb d5 g5 g6 by (intro exI [of _ ?t]) (auto simp: formatted_def vwrite_def)
qed

lemma mesafs_mount_formatted:
  assumes "vdisk_ok s" "formatted lba n s" "lba < disk_total_sectors s" "fs \<noteq> 0"
    and "plist (part_mem s) (partition_list_head s) as"
  shows "\<exists>t. mesafs_mount lba fs s = Some (True, t) \<and> vdisk_ok t \<and> vsector t = vsector s \<and> mounted_fs t = fs \<and>
    disk_total_sectors t = disk_total_sectors s \<and> fs_partition_lba (fs_mem t fs) = lba \<and>
    (let sb = fs_sb (fs_mem t fs) in sb_total_blocks sb = n div 8 \<and> sb_root_inode sb = 1 \<and> sb_total_inodes sb = 256 \<and>
      sb_block_size sb = 4096)"
proof -
  let ?s = "console_puts ''[MesaFS] Mounting filesystem...\<newline>'' s"
  from assms(2) obtain sb where sb: "superblock_wf sb" "vsector s lba = take 512 (encode_superblock (format_superblock (n div 8) sb))"
    by (auto simp: formatted_def)
  have r: "disk_read_sector lba ?s = Some (Some (vsector s lba), ?s)" using assms(1,3) vdisk_read [of ?s lba] by simp
  have m: "field 4 0 (vsector s lba) = MESAFS_MAGIC"
    unfolding sb(2) by (simp add: field_take superblock_fields) (simp add: format_superblock_def)
  let ?beyond = "map (stack_junk s (junk_reads s)) [0..<3588]"
  have d: "decode_superblock (vsector s lba @ ?beyond) =
      (format_superblock (n div 8) sb)\<lparr>sb_reserved := take 480 (sb_reserved (format_superblock (n div 8) sb)) @ ?beyond\<rparr>"
    unfolding sb(2) using sb(1) by (intro superblock_sector(1)) (simp_all del: upt_rec_numeral)
  have "plist (part_mem ?s) (partition_list_head ?s) as" using assms(5) by simp
  from partition_find_list [OF this, of "\<lambda>p. pi_lba_start p = lba"] obtain p where
    p: "partition_find (\<lambda>p. pi_lba_start p = lba) (part_mem ?s) (partition_list_head ?s) = Some p" by auto
  show ?thesis using r m p assms(1,4)
    by (simp add: mesafs_mount_def stack_bytes_def d Let_def del: upt_rec_numeral) (simp add: format_superblock_def)
qed

text \<open>
  The block that the code takes for the inode table of a formatted volume holds zeros, so the root
  inode has no type.
\<close>

lemma formatted_root:
  assumes "formatted lba n s" "fs_partition_lba (fs_mem s fs) = lba"
  shows "fs_block s fs (inode_block 1) = replicate 4096 0" "in_type (disk_inode s fs 1) = 0"
proof -
  have "block_lba (fs_mem s fs) (inode_block 1) = lba + 2" by (simp add: block_lba_def inode_block_def assms(2))
  then show z: "fs_block s fs (inode_block 1) = replicate 4096 0" using assms(1) by (simp add: fs_block_def formatted_def)
  show "in_type (disk_inode s fs 1) = 0" by (simp add: disk_inode_def z decode_inode_zeros)
qed

lemma find_in_dir_not_dir:
  assumes "fs_ok fs s" "slot_safe d" "in_type (disk_inode s fs d) \<noteq> MESAFS_TYPE_DIR"
  shows "\<exists>t. find_in_dir fs d name s = Some (0, t)"
  using assms by (auto simp: find_in_dir_def read_inode_fs seen_inode_safe)

lemma list_dir_not_dir:
  assumes "fs_ok fs s" "slot_safe d" "in_type (disk_inode s fs d) \<noteq> MESAFS_TYPE_DIR"
  shows "\<exists>t. mesafs_list_dir fs d m s = Some ((-1, []), t)"
  using assms by (auto simp: mesafs_list_dir_def read_inode_fs seen_inode_safe)

lemma resolve_not_dir:
  assumes "fs_ok fs s" "slot_safe r" "in_type (disk_inode s fs r) \<noteq> MESAFS_TYPE_DIR"
    and "sb_root_inode (fs_sb (fs_mem s fs)) = r"
  shows "\<exists>t. mesafs_find_file fs path s = Some (if strip_slash path = [] then r else 0, t)"
proof (cases "strip_slash path = []")
  case True
  then show ?thesis using assms(1,4) by (simp add: mesafs_find_file_def resolve_path_def strip_slash_def Let_def fs_ok_def)
next
  case False
  let ?s = "s\<lparr>junk_reads := Suc (junk_reads s)\<rparr>"
  have "disk_inode ?s fs r = disk_inode s fs r" by (simp add: disk_inode_def)
  with find_in_dir_not_dir [of fs ?s r] assms obtain t where
    t: "find_in_dir fs r (fill_component (takeWhile (\<lambda>c. c \<noteq> SLASH) (strip_slash path))
      (\<lambda>i. map (stack_junk s (junk_reads s)) [0..<256] ! i)) ?s = Some (0, t)" by auto
  have "mesafs_find_file fs path s =
      resolve_loop fs (strip_slash path) r (\<lambda>i. map (stack_junk s (junk_reads s)) [0..<256] ! i) ?s"
    using False assms(1,4) by (simp add: mesafs_find_file_def resolve_path_def strip_slash_def [symmetric] Let_def fs_ok_def
        stack_bytes_def del: upt_rec_numeral)
  also have "\<dots> = Some (0, t)" using False t by (subst resolve_loop.simps) (simp add: Let_def del: upt_rec_numeral)
  finally show ?thesis using False by simp
qed

section \<open>Paths\<close>

declare path_components.simps [simp del]

lemma name_matches_iff:
  assumes "entry_wf e" "0 \<notin> set cs"
  shows "name_matches e (fill_component cs old) \<longleftrightarrow> entry_name e = cs"
proof -
  let ?len = "unat (de_name_len e)"
  have len: "?len \<le> 58" "length (entry_name e) = ?len"
    using assms(1) by (simp_all add: entry_wf_def entry_name_def word_le_nat_alt)
  then have nth: "de_name e ! j = entry_name e ! j" if "j < ?len" for j using that by (simp add: entry_name_def)
  have m: "name_matches e (fill_component cs old) \<longleftrightarrow>
      (\<forall>j < ?len. entry_name e ! j = fill_component cs old j) \<and> fill_component cs old ?len = 0"
    using len(1) nth by (auto simp: name_matches_def list_all_iff min_def)
  consider "?len < length cs" | "?len = length cs" | "length cs < ?len" by linarith
  then show ?thesis
  proof cases
    case 1
    then have "fill_component cs old ?len \<noteq> 0" using len(1) assms(2) by (auto simp: fill_component_def Let_def dest: nth_mem)
    with m 1 len(2) show ?thesis by auto
  next
    case 2
    then have "fill_component cs old ?len = 0" "\<forall>j < ?len. fill_component cs old j = cs ! j"
      using len(1) by (simp_all add: fill_component_def)
    with m 2 len(2) show ?thesis by (auto intro: nth_equalityI)
  next
    case 3
    then have "entry_name e ! length cs \<in> set (entry_name e)" using len(2) by (intro nth_mem) simp
    then have "entry_name e ! length cs \<noteq> 0" using assms(1) by (metis entry_wf_def)
    moreover have "fill_component cs old (length cs) = 0" using 3 len(1) by (simp add: fill_component_def)
    moreover note 3
    ultimately show ?thesis using m len(2) by auto
  qed
qed

lemma find_entry_map:
  assumes "\<forall>e \<in> set es. entry_used e \<longrightarrow> entry_wf e" "0 \<notin> set cs"
  shows "find_entry es (fill_component cs old) =
    (case map_of (map (\<lambda>e. (entry_name e, de_inode e)) (filter entry_used es)) cs of None \<Rightarrow> 0 | Some n \<Rightarrow> n)"
  using assms(1)
proof (induction es)
  case (Cons e es)
  then show ?case using name_matches_iff [of e cs old] assms(2) by auto
qed simp

lemma dir_map_safe:
  assumes "\<forall>e \<in> set (dir_entries bs). entry_used e \<longrightarrow> entry_wf e" "dir_map bs cs = Some n"
  shows "slot_safe n" "n \<noteq> 0"
  using map_of_SomeD [OF assms(2) [unfolded dir_map_def]] assms(1) by (auto simp: entry_wf_def entry_used_def)

lemma find_in_dir_fs:
  assumes "fs_ok fs s" "dirs_wf s fs" "slot_safe d" "0 \<notin> set cs"
  shows "\<exists>k. find_in_dir fs d (fill_component cs old) s =
    Some (case dir_lookup s fs d cs of None \<Rightarrow> 0 | Some n \<Rightarrow> n, s\<lparr>junk_reads := k\<rparr>)"
proof (cases "has_inode s fs d \<and> in_type (disk_inode s fs d) = MESAFS_TYPE_DIR")
  case True
  let ?b = "in_direct_blocks (disk_inode s fs d) ! 0" and ?s = "s\<lparr>junk_reads := Suc (junk_reads s)\<rparr>"
  have r: "read_block fs ?b ?s = (if ?b < sb_total_blocks (fs_sb (fs_mem s fs)) then Some (Some (fs_block s fs ?b), ?s) else Some (None, ?s))"
    using read_block_fs [of fs ?s ?b] assms(1) by simp
  show ?thesis
  proof (cases "is_dir s fs d")
    case dir: True
    then have "\<forall>e \<in> set (dir_entries (dir_block s fs d)). entry_used e \<longrightarrow> entry_wf e"
      using assms(2,3) by (auto simp: dirs_wf_def)
    from find_entry_map [OF this assms(4)] show ?thesis
      using True dir r assms(1,3)
      by (auto simp: find_in_dir_def read_inode_fs seen_inode_safe dir_lookup_def dir_map_def dir_block_def is_dir_def)
  next
    case False
    then show ?thesis using True r assms(1,3)
      by (auto simp: find_in_dir_def read_inode_fs seen_inode_safe dir_lookup_def is_dir_def)
  qed
next
  case False
  then have "dir_lookup s fs d cs = None" by (auto simp: dir_lookup_def is_dir_def)
  with False assms(1,3) show ?thesis
    by (intro exI [of _ "if has_inode s fs d then Suc (junk_reads s) else junk_reads s"])
       (simp add: find_in_dir_def read_inode_fs seen_inode_safe)
qed

lemma junk_reads_frames [simp]:
  "dirs_wf (s\<lparr>junk_reads := k\<rparr>) fs = dirs_wf s fs" "dir_lookup (s\<lparr>junk_reads := k\<rparr>) = dir_lookup s"
  by (simp_all add: dirs_wf_def is_dir_def has_inode_def disk_inode_def dir_block_def dir_lookup_def fun_eq_iff)

lemma dir_lookup_safe:
  "dirs_wf s fs \<Longrightarrow> slot_safe d \<Longrightarrow> dir_lookup s fs d cs = Some n \<Longrightarrow> slot_safe n \<and> n \<noteq> 0"
  using dir_map_safe [of "dir_block s fs d" cs n] by (auto simp: dir_lookup_def dirs_wf_def split: if_splits)

lemma resolve_loop_fs:
  assumes "fs_ok fs s" "dirs_wf s fs" "slot_safe d" "0 \<notin> set path"
  shows "\<exists>k. resolve_loop fs path d old s =
    Some (case walk (dir_lookup s fs) d (path_components path) of None \<Rightarrow> 0 | Some n \<Rightarrow> n, s\<lparr>junk_reads := k\<rparr>)"
  using assms
proof (induction path arbitrary: d old s rule: length_induct)
  case (1 path)
  show ?case
  proof (cases "path = []")
    case True
    then show ?thesis
      by (auto simp: resolve_loop.simps path_components.simps intro: exI [of _ "junk_reads s"])
  next
    case False
    let ?c = "takeWhile (\<lambda>c. c \<noteq> SLASH) path" and ?r = "tl (dropWhile (\<lambda>c. c \<noteq> SLASH) path)"
    have z: "0 \<notin> set ?c" "0 \<notin> set ?r"
      using "1.prems"(4) set_tl_subset [of "dropWhile (\<lambda>c. c \<noteq> SLASH) path"] by (auto dest: set_takeWhileD set_dropWhileD)
    have comps: "path_components path = ?c # path_components ?r" using False by (simp add: path_components.simps)
    from find_in_dir_fs [OF "1.prems"(1-3) z(1), of old] obtain k where
      k: "find_in_dir fs d (fill_component ?c old) s =
        Some (case dir_lookup s fs d ?c of None \<Rightarrow> 0 | Some n \<Rightarrow> n, s\<lparr>junk_reads := k\<rparr>)" by blast
    show ?thesis
    proof (cases "dir_lookup s fs d ?c")
      case None
      then show ?thesis using k False comps by (auto simp: resolve_loop.simps [of fs path] Let_def)
    next
      case (Some n)
      note n = dir_lookup_safe [OF "1.prems"(2,3) Some]
      have "\<exists>k'. resolve_loop fs ?r n (fill_component ?c old) (s\<lparr>junk_reads := k\<rparr>) =
          Some (case walk (dir_lookup s fs) n (path_components ?r) of None \<Rightarrow> 0 | Some n \<Rightarrow> n, s\<lparr>junk_reads := k'\<rparr>)"
        using "1.IH" [rule_format, OF rest_shorter [OF False], of "s\<lparr>junk_reads := k\<rparr>" n] "1.prems"(1,2) n z(2) by simp
      then show ?thesis using k False comps Some n by (auto simp: resolve_loop.simps [of fs path] Let_def)
    qed
  qed
qed

section \<open>Reading a file\<close>

lemma store_bytes_Nil [simp]: "store_bytes p [] m = m"
  by (simp add: store_bytes_def)

lemma store_bytes_append:
  "store_bytes p (xs @ ys) m = store_bytes (p + of_nat (length xs)) ys (store_bytes p xs m)"
proof -
  let ?f = "\<lambda>i m. m(p + of_nat i := (xs @ ys) ! i)"
  have "fold ?f [0..<length xs] m = store_bytes p xs m"
    unfolding store_bytes_def by (rule fold_cong) (simp_all add: nth_append)
  moreover have "fold ?f [length xs..<length xs + length ys] m' = store_bytes (p + of_nat (length xs)) ys m'" for m'
  proof -
    have "[length xs..<length xs + length ys] = map (\<lambda>i. i + length xs) [0..<length ys]"
      by (simp add: map_add_upt add.commute)
    then show ?thesis by (simp add: store_bytes_def fold_map comp_def nth_append algebra_simps)
  qed
  moreover have "[0..<length (xs @ ys)] = [0..<length xs] @ [length xs..<length xs + length ys]"
    by (simp add: upt_add_eq_append [of 0 "length xs" "length ys", simplified])
  ultimately show ?thesis by (simp add: store_bytes_def [of p "xs @ ys"])
qed

lemma store_bytes_at:
  assumes "unat p + length bs \<le> 2 ^ 64" "i < length bs"
  shows "store_bytes p bs m (p + of_nat i) = bs ! i"
proof -
  have "inj_on (\<lambda>i. p + of_nat i :: u64) (set [0..<length bs])"
    using assms(1) by (intro inj_on_add_of_nat) auto
  from fold_upd_hit [OF _ this] assms(2) show ?thesis by (simp add: store_bytes_def)
qed

lemma store_bytes_outside:
  assumes "unat a < unat p \<or> unat p + length bs \<le> unat a" "unat p + length bs \<le> 2 ^ 64"
  shows "store_bytes p bs m a = m a"
proof -
  have "unat (p + of_nat i :: u64) = unat p + i" if "i < length bs" for i using that assms(2) by (intro unat_offset) simp
  then have "a \<notin> (\<lambda>i. p + of_nat i) ` set [0..<length bs]" using assms(1) by auto
  then show ?thesis by (simp add: store_bytes_def fold_upd_other)
qed

lemma vsector_store:
  assumes "vdisk_ok s" "l < disk_total_sectors s" "off_disk s p (length bs)"
  shows "vsector (s\<lparr>mem := store_bytes p bs (mem s)\<rparr>) l = vsector s l"
proof -
  have "store_bytes p bs (mem s) (vdisk_addr s l i) = mem s (vdisk_addr s l i)" if "i < 512" for i
  proof (rule store_bytes_outside)
    have "unat l < unat (disk_total_sectors s)" using assms(2) by (simp add: word_less_nat_alt)
    then have "(unat l + 1) * 512 \<le> unat (disk_total_sectors s) * 512" by (intro mult_le_mono1) simp
    then show "unat (vdisk_addr s l i) < unat p \<or> unat p + length bs \<le> unat (vdisk_addr s l i)"
      using vdisk_addr_nat [OF assms(1,2) that] assms(3) that by (simp add: off_disk_def) linarith
    show "unat p + length bs \<le> 2 ^ 64" using assms(3) by (simp add: off_disk_def)
  qed
  moreover have "vdisk_addr (s\<lparr>mem := store_bytes p bs (mem s)\<rparr>) = vdisk_addr s" by (simp add: vdisk_addr_def fun_eq_iff)
  ultimately show ?thesis by (simp add: vsector_def del: upt_rec_numeral)
qed

lemma fs_block_store:
  assumes "fs_ok fs s" "b < sb_total_blocks (fs_sb (fs_mem s fs))" "off_disk s p (length bs)"
  shows "fs_block (s\<lparr>mem := store_bytes p bs (mem s)\<rparr>) fs b = fs_block s fs b"
proof -
  let ?l = "block_lba (fs_mem s fs) b"
  have "vsector (s\<lparr>mem := store_bytes p bs (mem s)\<rparr>) (?l + of_nat i) = vsector s (?l + of_nat i)" if "i < 8" for i
  proof -
    have "unat (?l + of_nat i) = unat ?l + i"
      using unat_lba_add [of ?l i "disk_total_sectors s"] fs_ok_fields(2) [OF assms(1,2)] that by simp
    then have "?l + of_nat i < disk_total_sectors s"
      using fs_ok_fields(2) [OF assms(1,2)] that by (simp add: word_less_nat_alt)
    then show ?thesis using assms(1,3) by (intro vsector_store) (simp_all add: fs_ok_def)
  qed
  then show ?thesis by (auto simp: fs_block_def sectors_def intro!: arg_cong [of _ _ concat])
qed

lemma fs_ok_store [simp]: "fs_ok fs (s\<lparr>mem := m\<rparr>) = fs_ok fs s"
  by (simp add: fs_ok_def vdisk_ok_def)

lemma off_disk_split:
  assumes "off_disk s p (m + n)"
  shows "off_disk s p m" "off_disk (s\<lparr>mem := mm\<rparr>) (p + of_nat m) n \<or> n = 0"
proof -
  show "off_disk s p m" using assms by (auto simp: off_disk_def)
  show "off_disk (s\<lparr>mem := mm\<rparr>) (p + of_nat m) n \<or> n = 0"
  proof (cases "n = 0")
    case False
    then have "unat (p + of_nat m) = unat p + m" using assms by (intro unat_offset) (simp add: off_disk_def)
    then show ?thesis using assms by (auto simp: off_disk_def)
  qed simp
qed

lemma unat_ucast_u64: "unat (ucast (w :: u32) :: u64) = unat w"
proof -
  have "unat w < 2 ^ 32" using unsigned_less [of w] by simp
  then show ?thesis by (simp add: unsigned_ucast_eq take_bit_nat_eq_self_iff)
qed

lemma read_loop_fs:
  assumes "fs_ok fs s" "blocks_ok s fs d" "unat off \<le> 4096" "off_disk s dst (unat rem)"
  shows "mesafs_read_loop fs d dst rem idx off s =
    (let bs = take (unat rem) (drop (unat off) (concat (map (fs_block s fs) (drop (unat idx) (file_blocks d)))))
     in Some (Some (rem - of_nat (length bs)), s\<lparr>mem := store_bytes dst bs (mem s)\<rparr>))"
  using assms
proof (induction "10 - unat idx" arbitrary: dst rem idx off s)
  case 0
  then have "length (file_blocks d) \<le> unat idx" "10 \<le> idx" by (simp_all add: file_blocks_def blocks_ok_def word_le_nat_alt)
  then show ?case by (subst mesafs_read_loop.simps) simp
next
  case (Suc k)
  have len: "length (file_blocks d) = min 10 (unat (in_blocks_used d))"
    using Suc.prems(2) by (simp add: file_blocks_def blocks_ok_def)
  have i10: "unat idx < 10" "\<not> 10 \<le> idx" using Suc.hyps(2) by (simp_all add: word_le_nat_alt)
  show ?case
  proof (cases "0 < rem \<and> idx < in_blocks_used d")
    case False
    then have "unat rem = 0 \<or> length (file_blocks d) \<le> unat idx" using len by (auto simp: word_less_nat_alt)
    then show ?thesis using False by (subst mesafs_read_loop.simps) auto
  next
    case True
    then have i: "unat idx < length (file_blocks d)" using len i10 by (simp add: word_less_nat_alt)
    let ?b = "file_blocks d ! unat idx" and ?rest = "concat (map (fs_block s fs) (drop (Suc (unat idx)) (file_blocks d)))"
    have b: "in_direct_blocks d ! unat idx = ?b" using i by (simp add: file_blocks_def)
    have bok: "?b \<noteq> 0" "?b < sb_total_blocks (fs_sb (fs_mem s fs))"
      using Suc.prems(2) nth_mem [OF i] by (auto simp: blocks_ok_def)
    let ?blk = "drop (unat off) (fs_block s fs ?b)"
    let ?av = "ucast (4096 - off) :: u64" define tc where "tc = (if rem < ?av then rem else ?av)"
    have "unat (4096 - off) = 4096 - unat off" using Suc.prems(3) by (subst unat_sub) (simp_all add: word_le_nat_alt)
    then have av: "unat ?av = 4096 - unat off" by (simp add: unat_ucast_u64)
    have tc: "unat tc = min (unat rem) (4096 - unat off)" using av by (simp add: tc_def word_less_nat_alt min_def)
    let ?bs0 = "take (unat tc) ?blk"
    let ?s1 = "s\<lparr>mem := store_bytes dst ?bs0 (mem s)\<rparr>"
    have l0: "length ?bs0 = unat tc" using tc by simp
    have rem1: "unat (rem - tc) = unat rem - unat tc" using tc by (intro unat_sub) (simp add: word_le_nat_alt)
    have sum: "unat tc + unat (rem - tc) = unat rem" using rem1 tc by simp
    have od: "off_disk s dst (length ?bs0)" "off_disk ?s1 (dst + tc) (unat (rem - tc)) \<or> unat (rem - tc) = 0"
      using off_disk_split [of s dst "unat tc" "unat (rem - tc)"] Suc.prems(4) unfolding sum l0 by simp_all
    have idx1: "unat (idx + 1) = Suc (unat idx)" using i10 by (subst unat_add_small) simp_all
    have "\<forall>b \<in> set (file_blocks d). fs_block ?s1 fs b = fs_block s fs b"
      using fs_block_store [OF Suc.prems(1) _ od(1)] Suc.prems(2) by (simp add: blocks_ok_def)
    then have blocks: "concat (map (fs_block ?s1 fs) (drop (Suc (unat idx)) (file_blocks d))) = ?rest"
      by (intro arg_cong [of _ _ concat] map_cong refl) (metis in_set_dropD)
    let ?bs1 = "take (unat (rem - tc)) ?rest"
    have IH: "mesafs_read_loop fs d (dst + tc) (rem - tc) (idx + 1) 0 ?s1 =
        Some (Some (rem - tc - of_nat (length ?bs1)), ?s1\<lparr>mem := store_bytes (dst + tc) ?bs1 (mem ?s1)\<rparr>)"
    proof (cases "unat (rem - tc) = 0")
      case True
      then have "rem - tc = 0" by (simp add: unat_eq_0)
      then show ?thesis using True by (subst mesafs_read_loop.simps) (simp del: diff_eq_eq eq_iff_diff_eq_0 right_minus_eq)
    next
      case False
      have bok1: "blocks_ok ?s1 fs d" using Suc.prems(2) by (simp add: blocks_ok_def)
      show ?thesis
        using Suc.hyps(1) [of "idx + 1" ?s1 0 "dst + tc" "rem - tc"] Suc.hyps(2) Suc.prems(1) bok1 od(2) False i10 idx1 blocks
        by (simp add: Let_def)
    qed
    have whole: "take (unat rem) (drop (unat off) (concat (map (fs_block s fs) (drop (unat idx) (file_blocks d))))) = ?bs0 @ ?bs1"
      using Suc.prems(3) tc rem1 by (simp add: Cons_nth_drop_Suc [OF i, symmetric] min_def)
    have "mesafs_read_loop fs d dst rem idx off s = mesafs_read_loop fs d (dst + tc) (rem - tc) (idx + 1) 0 ?s1"
      using True i10 b bok by (subst mesafs_read_loop.simps) (simp add: read_block_fs [OF Suc.prems(1)] Let_def tc_def)
    then show ?thesis unfolding IH whole Let_def length_append of_nat_add store_bytes_append l0
      by (simp add: algebra_simps)
  qed
qed

lemma drop_blocks:
  assumes "\<And>b. length (f b) = m"
  shows "drop (m * q + r) (concat (map f bs)) = drop r (concat (map f (drop q bs)))"
proof (induction q arbitrary: bs)
  case (Suc q)
  show ?case
  proof (cases bs)
    case (Cons b bs')
    then show ?thesis using Suc.IH [of bs'] assms [of b] by (simp add: algebra_simps)
  qed simp
qed simp

section \<open>A sample volume\<close>

lemma sample_vol_fields:
  "fs_mem sample_vol fs = sample_mount" "virtual_disk sample_vol = 0x200000" "disk_total_sectors sample_vol = 128"
  "mem sample_vol = (\<lambda>a. vol_byte (unat (a - 0x200000)))" "using_virtual_disk sample_vol" "junk_reads sample_vol = 0"
  "partition_list_head sample_vol = 0" "mounted_fs sample_vol = 0x10"
  by (simp_all add: sample_vol_def sample_part_def vdisk_sample_def memory.defs disk.defs partition.defs)

lemma sample_vol_ok: "fs_ok 0x10 sample_vol"
  by (simp add: fs_ok_def vdisk_ok_def sample_vol_fields sample_mount_def)

lemma sample_block_nth:
  assumes "b < 50" "i < 4096"
  shows "fs_block sample_vol fs b ! i = vol_byte (512 * (unat b + 1) + i)"
proof -
  have ok: "vdisk_ok sample_vol" using sample_vol_ok by (simp add: fs_ok_def)
  have b: "unat b < 50" using assms(1) by (simp add: word_less_nat_alt)
  have v: "unat (virtual_disk sample_vol) = 0x200000" by (simp add: sample_vol_fields)
  let ?l = "block_lba sample_mount b + of_nat (i div 512)"
  have "unat (block_lba sample_mount b) = unat b + 1"
    using fs_ok_fields(1) [OF sample_vol_ok, of b] assms(1) by (simp add: sample_vol_fields sample_mount_def)
  moreover have d: "i div 512 < 8" using assms(2) by simp
  ultimately have l: "unat ?l = unat b + 1 + i div 512"
    using unat_lba_add [of "block_lba sample_mount b" "i div 512" 128] b by simp
  then have "?l < disk_total_sectors sample_vol" using b d by (simp add: word_less_nat_alt sample_vol_fields)
  from vdisk_addr_nat [OF ok this, of "i mod 512"]
  have "unat (vdisk_addr sample_vol ?l (i mod 512)) = unat (virtual_disk sample_vol) + (unat ?l * 512 + i mod 512)" by simp
  then have a: "unat (vdisk_addr sample_vol ?l (i mod 512)) = 0x200000 + ((unat b + 1) * 512 + i)"
    using div_mult_mod_eq [of i 512] unfolding l v add_mult_distrib by linarith
  have "unat (vdisk_addr sample_vol ?l (i mod 512) - 0x200000) = 512 * (unat b + 1) + i"
    by (subst unat_sub) (simp_all add: a word_le_nat_alt)
  then show ?thesis
    using assms(2) by (simp add: fs_block_def sectors_nth vsector_def sample_vol_fields del: upt_rec_numeral)
qed

lemma field_nth:
  assumes "off + width \<le> n" "p + off + width \<le> length bs"
  shows "field width off (take n (drop p bs)) = le_word (map (\<lambda>i. bs ! (p + off + i)) [0..<width])"
proof -
  have "take width (drop off (take n (drop p bs))) = map (\<lambda>i. bs ! (p + off + i)) [0..<width]"
    using assms by (intro nth_equalityI) (simp_all add: add_ac)
  then show ?thesis by (simp add: field_def)
qed

text \<open>A field of an inode and of a directory entry of the sample volume, as bytes of it.\<close>

lemma sample_field:
  assumes "b < 50" "p + off + width \<le> 4096" "off + width \<le> n"
  shows "field width off (take n (drop p (fs_block sample_vol fs b))) =
    le_word (map (\<lambda>i. vol_byte (512 * (unat b + 1) + (p + off + i))) [0..<width])"
  using assms(2) by (subst field_nth [OF assms(3)])
    (auto intro!: arg_cong [of _ _ le_word] simp: sample_block_nth [OF assms(1)])

lemma vol_byte_2: "vol_byte n = 2 \<longleftrightarrow> n = 1168"
  by (simp add: vol_byte_def)

lemma inode_block_nat: "n < 256 \<Longrightarrow> unat (inode_block n) = 1 + unat n div 32" "n < 256 \<Longrightarrow> inode_block n < 9"
proof -
  assume "n < 256"
  then have "unat n < 256" by (simp add: word_less_nat_alt)
  moreover from this have "unat (n * 128) = unat n * 128" by (subst unat_mult_small) simp_all
  ultimately show "unat (inode_block n) = 1 + unat n div 32"
    unfolding inode_block_def by (subst unat_add_small) (simp_all add: unat_div)
  then show "inode_block n < 9" using \<open>unat n < 256\<close> by (simp add: word_less_nat_alt)
qed

lemma sample_is_dir: "slot_safe d \<Longrightarrow> is_dir sample_vol 0x10 d \<Longrightarrow> d = 1"
proof -
  assume d: "slot_safe d" "is_dir sample_vol 0x10 d"
  then have n: "d < 256" by (simp add: is_dir_def has_inode_def sample_vol_fields sample_mount_def)
  then have b: "inode_block d < 50" using inode_block_nat(2) [OF n] by (simp add: word_less_nat_alt)
  have "block_slot d + 4 + 1 \<le> 4096" using d(1) by (simp add: slot_safe_inside)
  then have "in_type (disk_inode sample_vol 0x10 d) = vol_byte (512 * (unat (inode_block d) + 1) + (block_slot d + 4))"
    by (simp add: disk_inode_def decode_inode_def sample_field [OF b])
  with d(2) have "vol_byte (512 * (unat (inode_block d) + 1) + (block_slot d + 4)) = 2" by (simp add: is_dir_def)
  then have "512 * (1 + unat d div 32 + 1) + (140 * (unat d mod 32) + 4) = 1168"
    unfolding vol_byte_2 block_slot_nat inode_block_nat(1) [OF n] .
  moreover have "unat d div 32 < 8" "unat d mod 32 < 29" using n d(1) by (simp_all add: word_less_nat_alt slot_safe_def)
  moreover have "q = 0 \<and> r = 1" if "512 * (1 + q + 1) + (140 * r + 4) = 1168"
    "q < 8" "r < 29" for q r :: nat
  proof -
    have q: "q = 0" using that by simp
    show ?thesis using that unfolding q by simp
  qed
  ultimately have "unat d div 32 = 0 \<and> unat d mod 32 = 1" by blast
  then have "unat d = 1" by (metis div_mult_mod_eq add_0 mult_zero_left)
  then show "d = 1" by (simp add: word_unat_eq_iff)
qed

lemmas sample_slots = block_slot_nat inode_block_def decode_inode_def disk_inode_def

lemma sample_root:
  "in_type (disk_inode sample_vol 0x10 1) = 2" "in_direct_blocks (disk_inode sample_vol 0x10 1) ! 0 = 20"
  "has_inode sample_vol 0x10 1"
proof -
  show "in_type (disk_inode sample_vol 0x10 1) = 2"
    by (simp add: sample_slots sample_field vol_byte_def)
  have "in_direct_blocks (disk_inode sample_vol 0x10 1) ! 0 = field 4 16 (take 140 (drop 140 (fs_block sample_vol 0x10 1)))"
    by (simp add: sample_slots)
  also have "\<dots> = 20" by (simp add: sample_field upt_rec vol_byte_def)
  finally show "in_direct_blocks (disk_inode sample_vol 0x10 1) ! 0 = 20" .
  show "has_inode sample_vol 0x10 1" by (simp add: has_inode_def inode_block_def sample_vol_fields sample_mount_def)
qed

lemma sample_dir: "is_dir sample_vol 0x10 1" "dir_block sample_vol 0x10 1 = fs_block sample_vol 0x10 20"
  by (simp_all add: is_dir_def dir_block_def sample_root sample_vol_fields sample_mount_def)

text \<open>The entries of the sample directory: only the first is in use.\<close>

lemma sample_entries:
  "filter entry_used (dir_entries (fs_block sample_vol 0x10 20)) =
    [decode_dirent (take 64 (drop 0 (fs_block sample_vol 0x10 20)))]"
  "de_inode (decode_dirent (take 64 (drop 0 (fs_block sample_vol 0x10 20)))) = 3"
  "de_name_len (decode_dirent (take 64 (drop 0 (fs_block sample_vol 0x10 20)))) = 1"
  "entry_name (decode_dirent (take 64 (drop 0 (fs_block sample_vol 0x10 20)))) = [0x61]"
proof -
  let ?e = "\<lambda>i. decode_dirent (take 64 (drop (64 * i) (fs_block sample_vol 0x10 20)))"
  have z: "de_inode (?e i) = 0" if "0 < i" "i < 64" for i
    using that by (simp add: decode_dirent_def sample_field upt_rec) (simp add: vol_byte_def)
  show 1: "de_inode (decode_dirent (take 64 (drop 0 (fs_block sample_vol 0x10 20)))) = 3"
    "de_name_len (decode_dirent (take 64 (drop 0 (fs_block sample_vol 0x10 20)))) = 1"
    by (simp_all add: decode_dirent_def sample_field [where p = 0, simplified] upt_rec vol_byte_def)
  have "[0..<64] = 0 # [1..<64::nat]" by (simp add: upt_conv_Cons del: upt_rec_numeral)
  then have "dir_entries (fs_block sample_vol 0x10 20) = ?e 0 # map ?e [1..<64]"
    by (simp add: dir_entries_def del: upt_rec_numeral)
  moreover have "filter entry_used (map ?e [1..<64]) = []"
    using z by (auto simp: filter_empty_conv entry_used_def simp del: upt_rec_numeral)
  ultimately show "filter entry_used (dir_entries (fs_block sample_vol 0x10 20)) =
      [decode_dirent (take 64 (drop 0 (fs_block sample_vol 0x10 20)))]"
    using 1 by (simp add: entry_used_def del: upt_rec_numeral)
  have "drop 6 (take 64 (fs_block sample_vol 0x10 20)) \<noteq> []"
    "hd (drop 6 (take 64 (fs_block sample_vol 0x10 20))) = vol_byte (512 * 21 + 6)"
    using sample_block_nth [of 20 6 "0x10"] by (simp_all add: hd_drop_conv_nth)
  then have "take 1 (take 58 (drop 6 (take 64 (fs_block sample_vol 0x10 20)))) = [0x61]"
    by (cases "drop 6 (take 64 (fs_block sample_vol 0x10 20))") (simp_all add: vol_byte_def)
  then show "entry_name (decode_dirent (take 64 (drop 0 (fs_block sample_vol 0x10 20)))) = [0x61]"
    using 1(2) by (simp add: entry_name_def decode_dirent_def)
qed

section \<open>Properties\<close>

lemma sample_dirs_wf: "dirs_wf sample_vol 0x10"
proof -
  have "entry_wf e" if "e \<in> set (dir_entries (fs_block sample_vol 0x10 20))" "entry_used e" for e
  proof -
    have "e = decode_dirent (take 64 (drop 0 (fs_block sample_vol 0x10 20)))"
      using that arg_cong [OF sample_entries(1), of set] by auto
    moreover have "length (de_name (decode_dirent (take 64 (drop 0 (fs_block sample_vol 0x10 20))))) = 58"
      by (simp add: decode_dirent_def)
    ultimately show ?thesis using sample_entries by (simp add: entry_wf_def slot_safe_def)
  qed
  then show ?thesis unfolding dirs_wf_def using sample_is_dir sample_dir(2) by metis
qed

lemma sample_file:
  "has_inode sample_vol 0x10 3" "slot_safe 3" "in_type (disk_inode sample_vol 0x10 3) = 1"
  "in_size (disk_inode sample_vol 0x10 3) = 5" "file_blocks (disk_inode sample_vol 0x10 3) = [40]"
  "blocks_ok sample_vol 0x10 (disk_inode sample_vol 0x10 3)"
proof -
  let ?d = "disk_inode sample_vol 0x10 3"
  show "has_inode sample_vol 0x10 3" "slot_safe 3"
    by (simp_all add: has_inode_def inode_block_def slot_safe_def sample_vol_fields sample_mount_def)
  show "in_type ?d = 1" "in_size ?d = 5" by (simp_all add: sample_slots sample_field upt_rec vol_byte_def)
  have used: "in_blocks_used ?d = 1" by (simp add: sample_slots sample_field upt_rec vol_byte_def)
  have len: "length (in_direct_blocks ?d) = 10" by (simp add: sample_slots)
  have "in_direct_blocks ?d ! 0 = field 4 16 (take 140 (drop 420 (fs_block sample_vol 0x10 1)))"
    by (simp add: sample_slots)
  also have "\<dots> = 40" by (simp add: sample_field upt_rec vol_byte_def)
  finally show f: "file_blocks ?d = [40]" using used len by (cases "in_direct_blocks ?d") (simp_all add: file_blocks_def)
  show "blocks_ok sample_vol 0x10 ?d" using len f by (simp add: blocks_ok_def sample_vol_fields sample_mount_def)
qed

lemma sample_walk: "walk (dir_lookup sample_vol 0x10) 1 [[0x61]] = Some 3"
  by (simp add: dir_lookup_def sample_dir dir_map_def sample_entries [unfolded drop_0])

text \<open>
  C15: \<^verbatim>\<open>mesafs_read\<close> on a mounted volume returns and stores in the caller's buffer exactly the bytes of
  the file from the offset on, at most \<open>cnt\<close> of them, and nothing beyond the end of the file; the
  result is their number.  The file's blocks have to be valid, the buffer must not overlap the disk,
  and offset and count must not wrap around.
\<close>

theorem mesafs_read_correct:
  assumes "fs_ok fs s" "inode \<noteq> 0" "buf \<noteq> 0" "has_inode s fs inode" "slot_safe inode"
    and "in_type (disk_inode s fs inode) = MESAFS_TYPE_FILE" "blocks_ok s fs (disk_inode s fs inode)"
    and "off_disk s buf (unat cnt)" "unat offset + unat cnt < 2 ^ 64"
  shows "\<exists>k. mesafs_read fs inode buf cnt offset s =
    (let bs = take (unat cnt) (drop (unat offset) (file_data s fs (disk_inode s fs inode)))
     in Some (of_nat (length bs), s\<lparr>mem := store_bytes buf bs (mem s), junk_reads := k\<rparr>))"
proof -
  let ?d = "disk_inode s fs inode" let ?s = "s\<lparr>junk_reads := Suc (junk_reads s)\<rparr>"
  let ?size = "ucast (in_size ?d) :: u64" and ?all = "concat (map (fs_block s fs) (file_blocks ?d))"
  define n where "n = (if ?size < offset + cnt then ?size - offset else cnt)"
  let ?bs = "take (unat cnt) (drop (unat offset) (file_data s fs ?d))"
  have sz: "unat ?size = unat (in_size ?d)" by (rule unat_ucast_u64)
  have r: "mesafs_read_inode fs inode s = Some (Some ?d, ?s)"
    using assms(1,4,5) by (simp add: read_inode_fs seen_inode_safe)
  show ?thesis
  proof (cases "?size \<le> offset")
    case True
    then have "?bs = []" using sz by (simp add: file_data_def word_le_nat_alt)
    then show ?thesis using True assms(1-3,6) r by (auto simp: mesafs_read_def fs_ok_def)
  next
    case False
    then have lt: "unat offset < unat (in_size ?d)" using sz by (simp add: word_le_nat_alt)
    have n: "unat n = min (unat cnt) (unat (in_size ?d) - unat offset)"
      using lt sz assms(9) by (auto simp: n_def word_less_nat_alt unat_add_small unat_sub word_le_nat_alt)
    have bs: "?bs = take (unat n) (drop (unat offset) ?all)" by (simp add: n file_data_def drop_take)
    have s32: "unat (in_size ?d) < 2 ^ 32" using unsigned_less [of "in_size ?d"] by simp
    have idx: "unat (ucast (offset div 4096) :: u32) = unat offset div 4096"
      using lt s32 by (simp add: unsigned_ucast_eq unat_div take_bit_nat_eq_self_iff)
    have off: "unat (ucast (offset mod 4096) :: u32) = unat offset mod 4096"
      by (simp add: unsigned_ucast_eq unat_mod take_bit_nat_eq_self_iff)
    have whole: "drop (unat offset) ?all = drop (unat offset mod 4096) (concat (map (fs_block s fs) (drop (unat offset div 4096) (file_blocks ?d))))"
      using drop_blocks [of "fs_block s fs" 4096 "unat offset div 4096" "unat offset mod 4096" "file_blocks ?d"] by simp
    have "off_disk ?s buf (unat n)" using assms(8) n by (auto simp: off_disk_def)
    then have loop: "mesafs_read_loop fs ?d buf n (ucast (offset div 4096)) (ucast (offset mod 4096)) ?s =
        Some (Some (n - of_nat (length ?bs)), ?s\<lparr>mem := store_bytes buf ?bs (mem s)\<rparr>)"
      using read_loop_fs [of fs ?s ?d "ucast (offset mod 4096)" buf n "ucast (offset div 4096)"] assms(1,7)
      by (simp add: idx off bs whole Let_def blocks_ok_def)
    have "length ?bs \<le> unat (in_size ?d)" by (simp add: file_data_def)
    then have l: "ucast (of_nat (length ?bs) :: u64) = (of_nat (length ?bs) :: i32)"
      using s32 by (simp add: word_unat_eq_iff unsigned_ucast_eq unat_of_nat_small take_bit_nat_eq_self_iff)
    have "mesafs_read fs inode buf cnt offset s =
        Some (of_nat (length ?bs), s\<lparr>mem := store_bytes buf ?bs (mem s), junk_reads := Suc (junk_reads s)\<rparr>)"
      using False assms(1-3,6) r loop l by (simp add: mesafs_read_def Let_def n_def [symmetric] fs_ok_def)
    then show ?thesis by (auto simp: Let_def)
  qed
qed

theorem mesafs_read_correct_witness:
  "\<exists>k. mesafs_read 0x10 3 0x1000 3 1 sample_vol =
    Some (3, sample_vol\<lparr>mem := store_bytes 0x1000 [0x65, 0x6C, 0x6C] (mem sample_vol), junk_reads := k\<rparr>)"
proof -
  have od: "off_disk sample_vol 0x1000 (unat (3 :: u64))" "unat (1 :: u64) + unat (3 :: u64) < 2 ^ 64"
    by (simp_all add: off_disk_def sample_vol_fields)
  have "take 3 (drop 1 (take 5 bs)) = map (\<lambda>i. bs ! (1 + i)) [0..<3]" if "length bs = 4096" for bs :: "u8 list"
    using that by (intro nth_equalityI) simp_all
  from this [OF length_fs_block]
  have "take 3 (drop 1 (file_data sample_vol 0x10 (disk_inode sample_vol 0x10 3))) =
      map (\<lambda>i. fs_block sample_vol 0x10 40 ! (1 + i)) [0..<3]"
    by (simp add: file_data_def sample_file)
  also have "\<dots> = [0x65, 0x6C, 0x6C]" by (simp add: upt_rec sample_block_nth vol_byte_def)
  finally show ?thesis
    using mesafs_read_correct [OF sample_vol_ok _ _ sample_file(1,2,3,6) od] by (simp add: Let_def)
qed

text \<open>
  C16: on a volume whose directories are well formed, \<^verbatim>\<open>mesafs_find_file\<close> returns and refines the walk
  through the directories as finite maps from names to inodes: the inode at the end of the walk along
  the components of the path from the root, and 0 when a component is missing or is no directory.
\<close>

theorem mesafs_find_file_refines:
  assumes "fs_ok fs s" "dirs_wf s fs" "slot_safe (sb_root_inode (fs_sb (fs_mem s fs)))" "0 \<notin> set path"
  shows "\<exists>k. mesafs_find_file fs path s =
    Some (case walk (dir_lookup s fs) (sb_root_inode (fs_sb (fs_mem s fs))) (path_components (strip_slash path)) of
      None \<Rightarrow> 0 | Some n \<Rightarrow> n, s\<lparr>junk_reads := k\<rparr>)"
proof (cases "strip_slash path = []")
  case True
  then show ?thesis using assms(1)
    by (intro exI [of _ "junk_reads s"])
       (simp add: mesafs_find_file_def resolve_path_def strip_slash_def [symmetric] fs_ok_def path_components.simps)
next
  case False
  let ?s = "s\<lparr>junk_reads := Suc (junk_reads s)\<rparr>"
  have "0 \<notin> set (strip_slash path)" using assms(4) set_tl_subset [of path] by (auto simp: strip_slash_def)
  from resolve_loop_fs [of fs ?s "sb_root_inode (fs_sb (fs_mem s fs))", OF _ _ assms(3) this] assms(1,2) False
  show ?thesis
    by (simp add: mesafs_find_file_def resolve_path_def strip_slash_def [symmetric] fs_ok_def stack_bytes_def Let_def
        del: upt_rec_numeral)
qed

theorem mesafs_find_file_refines_witness:
  "\<exists>k. mesafs_find_file 0x10 [SLASH, 0x61] sample_vol = Some (3, sample_vol\<lparr>junk_reads := k\<rparr>)"
proof -
  have "walk (dir_lookup sample_vol 0x10) 1 (path_components (strip_slash [SLASH, 0x61])) = Some 3"
    using sample_walk by (simp add: strip_slash_def path_components.simps del: walk.simps)
  moreover have "sb_root_inode (fs_sb (fs_mem sample_vol 0x10)) = 1" "slot_safe 1"
    by (simp_all add: sample_vol_fields sample_mount_def slot_safe_def)
  ultimately show ?thesis
    using mesafs_find_file_refines [OF sample_vol_ok sample_dirs_wf, of "[SLASH, 0x61]"] by simp
qed

text \<open>
  An inode whose place lies inside its block reads back after \<^verbatim>\<open>write_inode\<close> as it was written, and the
  other inodes of the same block keep their contents.
\<close>

theorem write_inode_roundtrip:
  assumes "fs_ok fs s" "has_inode s fs n" "slot_safe n" "inode_wf d"
  shows "\<exists>t u. write_inode fs n d s = Some (True, t) \<and> mesafs_read_inode fs n t = Some (Some d, u) \<and>
    (\<forall>m r v. slot_safe m \<longrightarrow> block_slot m \<noteq> block_slot n \<longrightarrow> inode_block m = inode_block n \<longrightarrow>
      mesafs_read_inode fs m s = Some (r, v) \<longrightarrow> (\<exists>v'. mesafs_read_inode fs m t = Some (r, v')))"
proof -
  from write_inode_fs [OF assms] obtain t where
    t: "write_inode fs n d s = Some (True, t)" "fs_ok fs t" "t = s\<lparr>mem := mem t\<rparr>" "disk_inode t fs n = d"
      "\<And>m. slot_safe m \<Longrightarrow> block_slot m \<noteq> block_slot n \<Longrightarrow> inode_block m = inode_block n \<Longrightarrow> disk_inode t fs m = disk_inode s fs m"
    by blast
  have hi: "has_inode t fs m = has_inode s fs m" for m using mem_frame_fs(1) [OF t(3)] by (simp add: has_inode_def)
  have "mesafs_read_inode fs n t = Some (Some d, t\<lparr>junk_reads := Suc (junk_reads t)\<rparr>)"
    using read_inode_fs [OF t(2), of n] assms(2,3) t(4) hi by (simp add: seen_inode_safe)
  moreover have "\<exists>v'. mesafs_read_inode fs m t = Some (r, v')"
    if "slot_safe m" "block_slot m \<noteq> block_slot n" "inode_block m = inode_block n" "mesafs_read_inode fs m s = Some (r, v)" for m r v
    using that read_inode_fs [OF assms(1), of m] read_inode_fs [OF t(2), of m] t(5) [of m] hi
    by (auto simp: seen_inode_safe split: if_splits)
  ultimately show ?thesis using t(1) by blast
qed

theorem write_inode_roundtrip_witness:
  "\<exists>t u. write_inode 0x10 3 (disk_inode sample_vol 0x10 1) sample_vol = Some (True, t) \<and>
    mesafs_read_inode 0x10 3 t = Some (Some (disk_inode sample_vol 0x10 1), u)"
proof -
  have "inode_wf (disk_inode sample_vol 0x10 1)" unfolding disk_inode_def
    by (rule decode_inode_wf) (simp add: block_slot_nat)
  from write_inode_roundtrip [OF sample_vol_ok sample_file(1,2) this] show ?thesis by blast
qed

text \<open>
  Block \<open>b\<close> starts \<open>b\<close> sectors after block 0 although it is eight sectors long, so neighbouring
  blocks overlap: after \<^verbatim>\<open>write_block\<close> of block \<open>b\<close>, reading block \<open>b + 1\<close> returns the data just written,
  shifted by one sector.
\<close>

theorem mesafs_blocks_overlap:
  assumes "fs_ok fs s" "b + 1 < sb_total_blocks (fs_sb (fs_mem s fs))" "b < b + 1" "length bs = 4096"
  shows "\<exists>t x. write_block fs b bs s = Some (True, t) \<and> read_block fs (b + 1) t = Some (Some (drop 512 bs @ x), t)"
proof -
  have b: "b < sb_total_blocks (fs_sb (fs_mem s fs))" using assms(2,3) by simp
  from write_block_fs [OF assms(1) b assms(4)] obtain t where
    t: "write_block fs b bs s = Some (True, t)" "written (block_lba (fs_mem s fs) b) 8 bs s t" by blast
  note fb = fs_block_written [OF assms(1) b assms(4) t(2)]
  have m: "fs_mem t = fs_mem s" using t(2) mem_frame_fs(1) [of t s] by (simp add: written_def)
  have "fs_block t fs b = vsector t (block_lba (fs_mem s fs) b) @ sectors t (block_lba (fs_mem s fs) b + 1) 7"
    using sectors_Suc [of t "block_lba (fs_mem s fs) b" 7] by (simp add: fs_block_def m)
  then have tail: "sectors t (block_lba (fs_mem s fs) b + 1) 7 = drop 512 bs" using fb(1) by (simp add: append_eq_conv_conj)
  have "sectors t l 8 = sectors t l 7 @ vsector t (l + 7)" for l
    unfolding sectors_def by (simp add: upt_rec)
  then have "fs_block t fs (b + 1) = drop 512 bs @ vsector t (block_lba (fs_mem s fs) b + 1 + 7)"
    using tail by (simp add: fs_block_def m block_lba_def add.assoc)
  then show ?thesis using t(1) read_block_fs [OF fb(2), of "b + 1"] assms(2) m by auto
qed

theorem mesafs_blocks_overlap_witness:
  "\<exists>t x. write_block 0x10 1 (replicate 4096 7) sample_vol = Some (True, t) \<and>
    read_block 0x10 (1 + 1) t = Some (Some (drop 512 (replicate 4096 7) @ x), t)"
proof -
  have "(1 :: u32) + 1 < sb_total_blocks (fs_sb (fs_mem sample_vol 0x10))" "(1 :: u32) < 1 + 1"
    by (simp_all add: sample_vol_fields sample_mount_def)
  from mesafs_blocks_overlap [OF sample_vol_ok this, of "replicate 4096 7"] show ?thesis by simp
qed

text \<open>
  C17: formatting a partition of at least 80 sectors and mounting it succeeds and the mounted volume has
  the block count and root inode that formatting wrote; but the root directory of this volume cannot be
  read: listing it fails and every path but the root itself is reported as missing, because the root
  inode is written one sector before the block it is read from, at index 0 instead of 1.
\<close>

theorem mesafs_format_mount:
  assumes "vdisk_ok s" "80 \<le> num_sectors" "unat lba + unat num_sectors \<le> unat (disk_total_sectors s)" "fs \<noteq> 0"
    and "plist (part_mem s) (partition_list_head s) as"
  shows "\<exists>t u. mesafs_format lba num_sectors s = Some (True, t) \<and> mesafs_mount lba fs t = Some (True, u) \<and>
    mesafs_get_mounted u = fs \<and> fs_ok fs u \<and> sb_total_blocks (fs_sb (fs_mem u fs)) = num_sectors div 8 \<and>
    sb_root_inode (fs_sb (fs_mem u fs)) = 1 \<and> (\<exists>v. mesafs_list_dir fs 1 m u = Some ((-1, []), v)) \<and>
    (\<exists>v. mesafs_find_file fs path u = Some (if strip_slash path = [] then 1 else 0, v))"
proof -
  from mesafs_format_vdisk [OF assms(1-3)] obtain t where
    t: "mesafs_format lba num_sectors s = Some (True, t)" "vdisk_ok t" "formatted lba num_sectors t"
      "disk_total_sectors t = disk_total_sectors s" "part_mem t = part_mem s" "partition_list_head t = partition_list_head s"
    by blast
  have n: "80 \<le> unat num_sectors" using assms(2) by (simp add: word_le_nat_alt)
  then have l: "lba < disk_total_sectors t" using assms(3) t(4) by (simp add: word_less_nat_alt)
  from mesafs_mount_formatted [OF t(2,3) l assms(4), of as] t(5,6) assms(5) obtain u where
    u: "mesafs_mount lba fs t = Some (True, u)" "vdisk_ok u" "vsector u = vsector t" "mounted_fs u = fs"
      "disk_total_sectors u = disk_total_sectors t" "fs_partition_lba (fs_mem u fs) = lba"
      "sb_total_blocks (fs_sb (fs_mem u fs)) = num_sectors div 8" "sb_root_inode (fs_sb (fs_mem u fs)) = 1"
    by (auto simp: Let_def)
  have "unat (num_sectors div 8) = unat num_sectors div 8" by (simp add: unat_div)
  then have ok: "fs_ok fs u" using u assms(3,4) t(4) n by (simp add: fs_ok_def)
  have "formatted lba num_sectors u" using t(3) u(3) by (simp add: formatted_def sectors_def)
  from formatted_root(2) [OF this u(6)] have ty: "in_type (disk_inode u fs 1) \<noteq> MESAFS_TYPE_DIR" by simp
  have safe: "slot_safe 1" by (simp add: slot_safe_def)
  show ?thesis
    using t(1) u(1,4,7,8) ok list_dir_not_dir [OF ok safe ty, of m] resolve_not_dir [OF ok safe ty u(8), of path]
    by (intro exI [of _ t] exI [of _ u]) (simp add: mesafs_get_mounted_def)
qed

theorem mesafs_format_mount_witness:
  "\<exists>t u. mesafs_format 0 100 sample_vol = Some (True, t) \<and> mesafs_mount 0 0x10 t = Some (True, u) \<and>
    (\<exists>v. mesafs_find_file 0x10 [0x61] u = Some (0, v))"
proof -
  have "vdisk_ok sample_vol" "(80 :: u32) \<le> 100" "unat (0 :: u32) + unat (100 :: u32) \<le> unat (disk_total_sectors sample_vol)"
    "(0x10 :: u64) \<noteq> 0" "plist (part_mem sample_vol) (partition_list_head sample_vol) []"
    using sample_vol_ok by (simp_all add: fs_ok_def sample_vol_fields)
  from mesafs_format_mount [OF this, of undefined "[0x61]"] show ?thesis by (auto simp: strip_slash_def)
qed

end
