(* ===== verification/Tss.thy ===== *)
theory Tss
  imports Mesafs
begin

text \<open>
  The task state segment, \<^verbatim>\<open>kernel/tss.c\<close>.  \<open>sym\<close> gives the addresses that the linker chooses for the
  symbols whose addresses the kernel stores in tables of the processor; \<open>gdt_tss\<close> is the descriptor
  at \<^verbatim>\<open>gdt64[5 * 8]\<close>.
\<close>

datatype symbol =
    Sym_kernel_stack_top | Sym_tss | Sym_idt | Sym_cpu_data | Sym_kernel_stacks
  | Sym_isr_stub_0 | Sym_irq_stub_0 | Sym_irq_stub_1 | Sym_syscall_entry | Sym_usermode_entry
  | Sym_shell_main | Sym_ipc_server | Sym_ipc_client | Sym_user_program_1 | Sym_user_program_2 | Sym_root_fs

record tss_t =
  tss_reserved0 :: u32
  tss_rsp0 :: u64
  tss_rsp1 :: u64
  tss_rsp2 :: u64
  tss_reserved1 :: u64
  tss_ist1 :: u64
  tss_ist2 :: u64
  tss_ist3 :: u64
  tss_ist4 :: u64
  tss_ist5 :: u64
  tss_ist6 :: u64
  tss_ist7 :: u64
  tss_reserved2 :: u64
  tss_reserved3 :: u16
  tss_iopb_offset :: u16

record tss_descriptor_t =
  limit_low :: u16
  base_low :: u16
  base_mid :: u8
  tss_access :: u8
  limit_high_flags :: u8
  base_mid2 :: u8
  base_high :: u32
  desc_reserved :: u32

record tss_state = mesafs +
  sym :: "symbol \<Rightarrow> u64"
  tss :: tss_t
  gdt_tss :: tss_descriptor_t

abbreviation (input) "SIZEOF_TSS \<equiv> (104 :: u32)"
abbreviation (input) "TSS_SELECTOR \<equiv> (0x28 :: u16)"

definition tss_zero :: tss_t where
  "tss_zero = \<lparr>tss_reserved0 = 0, tss_rsp0 = 0, tss_rsp1 = 0, tss_rsp2 = 0, tss_reserved1 = 0, tss_ist1 = 0,
     tss_ist2 = 0, tss_ist3 = 0, tss_ist4 = 0, tss_ist5 = 0, tss_ist6 = 0, tss_ist7 = 0, tss_reserved2 = 0,
     tss_reserved3 = 0, tss_iopb_offset = 0\<rparr>"

definition tss_descriptor :: "u64 \<Rightarrow> u32 \<Rightarrow> tss_descriptor_t" where
  "tss_descriptor base limit = \<lparr>limit_low = ucast (limit AND 0xFFFF), base_low = ucast (base AND 0xFFFF),
     base_mid = ucast (drop_bit 16 base AND 0xFF), tss_access = 0x89,
     limit_high_flags = ucast (drop_bit 16 limit AND 0x0F) OR 0x80, base_mid2 = ucast (drop_bit 24 base AND 0xFF),
     base_high = ucast (drop_bit 32 base AND 0xFFFFFFFF), desc_reserved = 0\<rparr>"

definition tss_init :: "'a tss_state_scheme \<Rightarrow> 'a tss_state_scheme" where
  "tss_init s =
     (let s1 = console_puts ''[TSS] Initializing TSS...\<newline>'' s;
          s2 = s1\<lparr>tss := tss_zero\<lparr>tss_rsp0 := sym s1 Sym_kernel_stack_top, tss_ist1 := sym s1 Sym_kernel_stack_top,
                    tss_iopb_offset := ucast SIZEOF_TSS\<rparr>\<rparr>;
          s3 = s2\<lparr>gdt_tss := tss_descriptor (sym s2 Sym_tss) (SIZEOF_TSS - 1)\<rparr>
      in console_puts ''[TSS] TSS loaded and GDT descriptor configured.\<newline>'' (emit (Ltr TSS_SELECTOR) s3))"

definition tss_set_rsp0 :: "u64 \<Rightarrow> 'a tss_state_scheme \<Rightarrow> 'a tss_state_scheme" where
  "tss_set_rsp0 rsp0 s = s\<lparr>tss := (tss s)\<lparr>tss_rsp0 := rsp0\<rparr>\<rparr>"

section \<open>Frames\<close>

lemma tss_field_cong:
  fixes s t :: "'a tss_state_scheme"
  assumes "mesafs.more t = mesafs.more s"
  shows "sym t = sym s" "tss t = tss s" "gdt_tss t = gdt_tss s" "tss_state.more t = tss_state.more s"
  using assms by (cases s; cases t; simp)+

lemmas tss_mesafs_frames [simp] =
  mesafs_frames [THEN tss_field_cong(1)] mesafs_frames [THEN tss_field_cong(2)]
  mesafs_frames [THEN tss_field_cong(3)] mesafs_frames [THEN tss_field_cong(4)]

lemma tss_set_rsp0_frame [simp]: "tss_state.more (tss_set_rsp0 v s) = tss_state.more s"
  by (simp add: tss_set_rsp0_def)

lemmas tss_frames = mesafs_frames [THEN tss_field_cong(4)] tss_set_rsp0_frame

end
