(* ===== verification/Proc.thy ===== *)
theory Proc
  imports Tss
begin

text \<open>
  Processes, \<^verbatim>\<open>proc/proc.c\<close> and \<^verbatim>\<open>proc/switch.asm\<close>.  A \<^verbatim>\<open>pcb_t *\<close> points into the process table: it is
  an index or none for the null pointer.  \<open>kstack_mem\<close> is the memory of the kernel stacks in words of
  eight bytes, by address; \<open>regs\<close> are the registers that a context switch saves.
\<close>

datatype proc_state_t =
    PROC_STATE_UNUSED | PROC_STATE_EMBRYO | PROC_STATE_READY | PROC_STATE_RUNNING | PROC_STATE_WAITING
  | PROC_STATE_ZOMBIE

record pcb_t =
  pcb_pid :: u32
  pcb_state :: proc_state_t
  pcb_rsp :: u64
  pcb_cr3 :: u64
  pcb_kernel_stack :: u64
  pcb_entry_point :: u64
  pcb_heap_start :: u64
  pcb_brk :: u64
  pcb_time_slice :: u64
  pcb_next :: "nat option"

datatype reg = RBP | RBX | R12 | R13 | R14 | R15 | RSP | RIP

record proc = tss_state +
  process_table :: "pcb_t list"
  kstack_mem :: "u64 \<Rightarrow> u64"
  current_process :: "nat option"
  process_list_head :: "nat option"
  next_pid :: u32
  regs :: "reg \<Rightarrow> u64"

text \<open>A function returns with a result, or leaves the processor halted for good.\<close>

datatype ('r, 's) outcome = Return 'r 's | Halt 's

abbreviation (input) "MAX_PROCESSES \<equiv> (64 :: nat)"
abbreviation (input) "KSTACK_SIZE \<equiv> (8192 :: u64)"
abbreviation (input) "USER_HEAP_START \<equiv> (0x400000 :: u64)"
abbreviation (input) "USER_DATA_SEL \<equiv> (0x1B :: u64)"
abbreviation (input) "USER_CODE_SEL \<equiv> (0x23 :: u64)"
abbreviation (input) "USER_STACK_ADDR \<equiv> (0x7FFFF0000000 :: u64)"

definition pcb_zero :: pcb_t where
  "pcb_zero = \<lparr>pcb_pid = 0, pcb_state = PROC_STATE_UNUSED, pcb_rsp = 0, pcb_cr3 = 0, pcb_kernel_stack = 0,
     pcb_entry_point = 0, pcb_heap_start = 0, pcb_brk = 0, pcb_time_slice = 0, pcb_next = None\<rparr>"

abbreviation pcb :: "'a proc_scheme \<Rightarrow> nat \<Rightarrow> pcb_t" where
  "pcb s p \<equiv> process_table s ! p"

definition upd_pcb :: "nat \<Rightarrow> (pcb_t \<Rightarrow> pcb_t) \<Rightarrow> 'a proc_scheme \<Rightarrow> 'a proc_scheme" where
  "upd_pcb p f s = s\<lparr>process_table := (process_table s)[p := f (pcb s p)]\<rparr>"

section \<open>The process table\<close>

fun find_unused :: "nat \<Rightarrow> pcb_t list \<Rightarrow> nat option" where
  "find_unused i [] = None"
| "find_unused i (p # ps) = (if pcb_state p = PROC_STATE_UNUSED then Some i else find_unused (Suc i) ps)"

definition alloc_pcb :: "'a proc_scheme \<Rightarrow> nat option" where
  "alloc_pcb s = find_unused 0 (process_table s)"

definition proc_current :: "'a proc_scheme \<Rightarrow> nat option" where
  "proc_current s = current_process s"

definition kill_current :: "'a proc_scheme \<Rightarrow> 'a proc_scheme" where
  "kill_current s = (case current_process s of None \<Rightarrow> s | Some p \<Rightarrow> upd_pcb p (\<lambda>b. b\<lparr>pcb_state := PROC_STATE_ZOMBIE\<rparr>) s)"

definition process_exit_handler :: "'a proc_scheme \<Rightarrow> (unit, 'a proc_scheme) outcome" where
  "process_exit_handler s = Halt (kill_current (console_puts ''\<newline>[PROC] Process exited unexpectedly!\<newline>'' s))"

definition proc_init :: "'a proc_scheme \<Rightarrow> 'a proc_scheme" where
  "proc_init s =
     (let s1 = console_puts ''[PROC] Initializing process table...\<newline>'' s
      in s1\<lparr>process_table := map (\<lambda>b. b\<lparr>pcb_state := PROC_STATE_UNUSED\<rparr>) (replicate MAX_PROCESSES pcb_zero)\<rparr>)"

section \<open>Creating a process\<close>

text \<open>\<^verbatim>\<open>*(--sp) = v\<close> for each value in turn.\<close>

definition push_word :: "u64 \<Rightarrow> u64 \<times> (u64 \<Rightarrow> u64) \<Rightarrow> u64 \<times> (u64 \<Rightarrow> u64)" where
  "push_word v sm = (case sm of (sp, m) \<Rightarrow> (sp - 8, m(sp - 8 := v)))"

definition initial_context :: "u64 \<Rightarrow> u64 \<Rightarrow> u64 list" where
  "initial_context entry usermode_entry =
     [USER_DATA_SEL, USER_STACK_ADDR, 0x202, USER_CODE_SEL, entry, 0, 0, 0, 0, 0, 0, usermode_entry]"

definition proc_report :: "pcb_t \<Rightarrow> 'a proc_scheme \<Rightarrow> 'a proc_scheme" where
  "proc_report p s =
     console_puts ''\<newline>'' (console_put_hex (pcb_rsp p) (console_puts ''\<newline>       Initial RSP: ''
       (console_put_hex (pcb_kernel_stack p) (console_puts ''\<newline>       kstack: ''
         (console_put_hex (pcb_entry_point p) (console_puts ''       entry:  '' s))))))"

definition proc_create :: "u64 \<Rightarrow> 'a proc_scheme \<Rightarrow> nat option \<times> 'a proc_scheme" where
  "proc_create entry s =
     (case alloc_pcb s of
        None \<Rightarrow> (None, console_puts ''[PROC] ERROR: No free PCB\<newline>'' s)
      | Some idx \<Rightarrow>
          (let s1 = console_puts '')\<newline>'' (console_put_dec (of_nat idx) (console_puts '' (slot ''
                      (console_put_dec (ucast (next_pid s)) (console_puts ''[PROC] Creating PID='' s))));
               s2 = (upd_pcb idx (\<lambda>b. b\<lparr>pcb_pid := next_pid s1, pcb_state := PROC_STATE_EMBRYO, pcb_next := None,
                       pcb_time_slice := 0, pcb_cr3 := mm_create_user_pml4 s1\<rparr>) s1)\<lparr>next_pid := next_pid s1 + 1\<rparr>
           in if pcb_cr3 (pcb s2 idx) = 0
              then (None, console_puts ''[PROC] ERROR: Failed to create user PML4\<newline>'' s2)
              else (let stack = sym s2 Sym_kernel_stacks + of_nat idx * KSTACK_SIZE;
                        (sp, m) = fold push_word (initial_context entry (sym s2 Sym_usermode_entry))
                                    (stack + KSTACK_SIZE, kstack_mem s2);
                        s3 = upd_pcb idx (\<lambda>b. b\<lparr>pcb_entry_point := entry, pcb_kernel_stack := stack,
                               pcb_heap_start := USER_HEAP_START, pcb_brk := USER_HEAP_START, pcb_rsp := sp\<rparr>)
                               (s2\<lparr>kstack_mem := m\<rparr>);
                        s4 = proc_report (pcb s3 idx) s3
                    in (Some idx, upd_pcb idx (\<lambda>b. b\<lparr>pcb_state := PROC_STATE_READY\<rparr>) s4))))"

section \<open>The context switch\<close>

definition push_reg :: "reg \<Rightarrow> 'a proc_scheme \<Rightarrow> 'a proc_scheme" where
  "push_reg r s = (let sp = regs s RSP - 8
     in s\<lparr>kstack_mem := (kstack_mem s)(sp := regs s r), regs := (regs s)(RSP := sp)\<rparr>)"

definition pop_reg :: "reg \<Rightarrow> 'a proc_scheme \<Rightarrow> 'a proc_scheme" where
  "pop_reg r s = s\<lparr>regs := (regs s)(r := kstack_mem s (regs s RSP), RSP := regs s RSP + 8)\<rparr>"

text \<open>
  \<open>old\<close> is the process whose \<^verbatim>\<open>rsp\<close> field receives the old stack pointer, none for the dummy variable;
  the final \<^verbatim>\<open>ret\<close> pops the instruction pointer.
\<close>

definition context_switch :: "nat option \<Rightarrow> u64 \<Rightarrow> u64 \<Rightarrow> 'a proc_scheme \<Rightarrow> 'a proc_scheme" where
  "context_switch old new_rsp new_cr3 s =
     (let s1 = fold push_reg [RBP, RBX, R12, R13, R14, R15] (cli s);
          s2 = (case old of None \<Rightarrow> s1 | Some p \<Rightarrow> upd_pcb p (\<lambda>b. b\<lparr>pcb_rsp := regs s1 RSP\<rparr>) s1);
          s3 = emit (MovCr3 new_cr3) s2;
          s4 = s3\<lparr>regs := (regs s3)(RSP := new_rsp)\<rparr>;
          s5 = sti (fold pop_reg [R15, R14, R13, R12, RBX, RBP] s4)
      in pop_reg RIP s5)"

section \<open>Frames\<close>

lemma proc_field_cong:
  fixes s t :: "'a proc_scheme"
  assumes "tss_state.more t = tss_state.more s"
  shows "process_table t = process_table s" "kstack_mem t = kstack_mem s" "current_process t = current_process s"
    "process_list_head t = process_list_head s" "next_pid t = next_pid s" "regs t = regs s" "proc.more t = proc.more s"
  using assms by (cases s; cases t; simp)+

lemmas proc_tss_frames [simp] =
  tss_frames [THEN proc_field_cong(1)] tss_frames [THEN proc_field_cong(2)] tss_frames [THEN proc_field_cong(3)]
  tss_frames [THEN proc_field_cong(4)] tss_frames [THEN proc_field_cong(5)] tss_frames [THEN proc_field_cong(6)]
  tss_frames [THEN proc_field_cong(7)]

lemmas proc_frames = tss_frames [THEN proc_field_cong(7)]

end
