(* ===== verification/Sched.thy ===== *)
theory Sched
  imports Proc
begin

text \<open>
  The scheduler, \<^verbatim>\<open>sched/sched.c\<close>.  The processes form a circular list through \<^verbatim>\<open>next\<close>; following a null
  pointer is a fault, after which nothing returns.
\<close>

abbreviation (input) "DEFAULT_TIME_SLICE \<equiv> (10 :: u64)"

definition sched_init :: "'a proc_scheme \<Rightarrow> 'a proc_scheme" where
  "sched_init s = console_puts ''[SCHED] Initializing Round-Robin scheduler...\<newline>'' s"

partial_function (option) find_tail :: "pcb_t list \<Rightarrow> nat \<Rightarrow> nat \<Rightarrow> nat option" where
  "find_tail ps head_p tail_p =
     (case pcb_next (ps ! tail_p) of
        None \<Rightarrow> None
      | Some n \<Rightarrow> if n = head_p then Some tail_p else find_tail ps head_p n)"

definition sched_add_process :: "nat option \<Rightarrow> 'a proc_scheme \<Rightarrow> 'a proc_scheme option" where
  "sched_add_process proc s =
     (case proc of
        None \<Rightarrow> Some s
      | Some p \<Rightarrow>
          if pcb_state (pcb s p) \<noteq> PROC_STATE_READY then Some s
          else (let s1 = upd_pcb p (\<lambda>b. b\<lparr>pcb_time_slice := DEFAULT_TIME_SLICE\<rparr>) s
                in case process_list_head s1 of
                     None \<Rightarrow> Some (upd_pcb p (\<lambda>b. b\<lparr>pcb_next := Some p\<rparr>) (s1\<lparr>process_list_head := Some p\<rparr>))
                   | Some h \<Rightarrow>
                       (case find_tail (process_table s1) h h of
                          None \<Rightarrow> None
                        | Some t \<Rightarrow> Some (upd_pcb p (\<lambda>b. b\<lparr>pcb_next := Some h\<rparr>)
                                     (upd_pcb t (\<lambda>b. b\<lparr>pcb_next := Some p\<rparr>) s1)))))"

text \<open>The search that \<^verbatim>\<open>schedule\<close> makes: the next ready process, or the old one itself.\<close>

partial_function (option) find_ready :: "pcb_t list \<Rightarrow> nat \<Rightarrow> nat option \<Rightarrow> nat option" where
  "find_ready ps old p =
     (case p of
        None \<Rightarrow> None
      | Some n \<Rightarrow> if pcb_state (ps ! n) \<noteq> PROC_STATE_READY \<and> n \<noteq> old then find_ready ps old (pcb_next (ps ! n)) else Some n)"

text \<open>
  \<^verbatim>\<open>schedule\<close> either returns, or switches to a process: then the state is the one in which that process
  continues, and what is left of the call, \<open>schedule_resume\<close>, runs when the old context is resumed.
\<close>

datatype schedule_result = Stay | Switched nat

definition start_process :: "nat \<Rightarrow> 'a proc_scheme \<Rightarrow> 'a proc_scheme" where
  "start_process n s =
     (let s1 = upd_pcb n (\<lambda>b. b\<lparr>pcb_state := PROC_STATE_RUNNING, pcb_time_slice := DEFAULT_TIME_SLICE\<rparr>) s
      in tss_set_rsp0 (pcb_kernel_stack (pcb s1 n) + KSTACK_SIZE) s1)"

definition schedule :: "'a proc_scheme \<Rightarrow> (schedule_result \<times> 'a proc_scheme) option" where
  "schedule s =
     (case current_process s of
        None \<Rightarrow>
          (case process_list_head s of
             None \<Rightarrow> Some (Stay, s)
           | Some n \<Rightarrow>
               (let s1 = start_process n s
                in Some (Switched n, context_switch None (pcb_rsp (pcb s1 n)) (pcb_cr3 (pcb s1 n)) s1)))
      | Some old \<Rightarrow>
          if 0 < pcb_time_slice (pcb s old)
          then Some (Stay, upd_pcb old (\<lambda>b. b\<lparr>pcb_time_slice := pcb_time_slice b - 1\<rparr>) s)
          else (case find_ready (process_table s) old (pcb_next (pcb s old)) of
                  None \<Rightarrow> None
                | Some n \<Rightarrow>
                    if n = old then Some (Stay, upd_pcb old (\<lambda>b. b\<lparr>pcb_time_slice := DEFAULT_TIME_SLICE\<rparr>) s)
                    else (let s1 = (if pcb_state (pcb s old) = PROC_STATE_RUNNING
                                    then upd_pcb old (\<lambda>b. b\<lparr>pcb_state := PROC_STATE_READY\<rparr>) s else s);
                              s2 = start_process n s1
                          in Some (Switched n,
                               context_switch (Some old) (pcb_rsp (pcb s2 n)) (pcb_cr3 (pcb s2 n)) s2))))"

definition schedule_resume :: "nat \<Rightarrow> 'a proc_scheme \<Rightarrow> 'a proc_scheme" where
  "schedule_resume next_p s = s\<lparr>current_process := Some next_p\<rparr>"

end
