(* ===== verification/Pic.thy ===== *)
theory Pic
  imports Console
begin

text \<open>The interrupt controllers, \<^verbatim>\<open>kernel/pic.c\<close>.\<close>

abbreviation (input) "PIC1_COMMAND \<equiv> (0x20 :: u16)"
abbreviation (input) "PIC1_DATA \<equiv> (0x21 :: u16)"
abbreviation (input) "PIC2_COMMAND \<equiv> (0xA0 :: u16)"
abbreviation (input) "PIC2_DATA \<equiv> (0xA1 :: u16)"
abbreviation (input) "PIC_EOI \<equiv> (0x20 :: u8)"
abbreviation (input) "ICW1_ICW4 \<equiv> (0x01 :: u8)"
abbreviation (input) "ICW1_INIT \<equiv> (0x10 :: u8)"
abbreviation (input) "ICW4_8086 \<equiv> (0x01 :: u8)"

definition pic_init :: "'a console_scheme \<Rightarrow> 'a console_scheme" where
  "pic_init s =
     (let s1 = console_puts ''[PIC] Initializing and remapping...\<newline>'' s;
          s2 = outb PIC2_COMMAND (ICW1_INIT OR ICW1_ICW4) (outb PIC1_COMMAND (ICW1_INIT OR ICW1_ICW4) s1);
          s3 = outb PIC2_DATA 0x28 (outb PIC1_DATA 0x20 s2);
          s4 = outb PIC2_DATA 0x02 (outb PIC1_DATA 0x04 s3);
          s5 = outb PIC2_DATA ICW4_8086 (outb PIC1_DATA ICW4_8086 s4);
          s6 = outb PIC2_DATA 0xFF (outb PIC1_DATA 0xFF s5)
      in console_puts ''      Master: 0x20-0x27, Slave: 0x28-0x2F\<newline>'' s6)"

definition pic_send_eoi :: "u8 \<Rightarrow> 'a machine_scheme \<Rightarrow> 'a machine_scheme" where
  "pic_send_eoi irq s =
     outb PIC1_COMMAND PIC_EOI (if 8 \<le> irq then outb PIC2_COMMAND PIC_EOI s else s)"

text \<open>The data port and the bit of a line; a line of the slave is counted from 8.\<close>

definition pic_port :: "u8 \<Rightarrow> u16" where
  "pic_port irq = (if irq < 8 then PIC1_DATA else PIC2_DATA)"

definition pic_bit :: "u8 \<Rightarrow> u8" where
  "pic_bit irq = push_bit (unat (if irq < 8 then irq else irq - 8)) 1"

definition pic_unmask_irq :: "u8 \<Rightarrow> 'a machine_scheme \<Rightarrow> 'a machine_scheme" where
  "pic_unmask_irq irq s =
     (case inb (pic_port irq) s of (m, s1) \<Rightarrow> outb (pic_port irq) (m AND NOT (pic_bit irq)) s1)"

definition pic_mask_irq :: "u8 \<Rightarrow> 'a machine_scheme \<Rightarrow> 'a machine_scheme" where
  "pic_mask_irq irq s =
     (case inb (pic_port irq) s of (m, s1) \<Rightarrow> outb (pic_port irq) (m OR pic_bit irq) s1)"

section \<open>Frames\<close>

lemma pic_frames [simp]:
  "console.more (pic_init s) = console.more s" "machine.more (pic_send_eoi irq t) = machine.more t"
  "machine.more (pic_unmask_irq irq t) = machine.more t" "machine.more (pic_mask_irq irq t) = machine.more t"
  by (simp_all add: pic_init_def pic_send_eoi_def pic_unmask_irq_def pic_mask_irq_def split_def Let_def)

end
