(* ===== verification/Idt.thy ===== *)
theory Idt
  imports Sched Pic
begin

text \<open>
  Interrupts, \<^verbatim>\<open>kernel/idt.c\<close> and the stubs of \<^verbatim>\<open>kernel/isr.asm\<close>.
\<close>

record idt_entry_t =
  offset_low :: u16
  gate_selector :: u16
  gate_ist :: u8
  type_attr :: u8
  offset_mid :: u16
  offset_high :: u32
  gate_reserved :: u32

record idt_register_t =
  idtr_limit :: u16
  idtr_base :: u64

record idt_state = proc +
  idt :: "idt_entry_t list"
  idtr :: idt_register_t

abbreviation (input) "IDT_ENTRIES \<equiv> (256 :: nat)"
abbreviation (input) "KERNEL_CS \<equiv> (0x08 :: u16)"
abbreviation (input) "IDT_INTERRUPT_GATE \<equiv> (0x8E :: u8)"

section \<open>The interrupt descriptor table\<close>

definition gate :: "u64 \<Rightarrow> u8 \<Rightarrow> u8 \<Rightarrow> idt_entry_t" where
  "gate handler attr ist = \<lparr>offset_low = ucast (handler AND 0xFFFF), gate_selector = KERNEL_CS, gate_ist = ist,
     type_attr = attr, offset_mid = ucast (drop_bit 16 handler AND 0xFFFF),
     offset_high = ucast (drop_bit 32 handler AND 0xFFFFFFFF), gate_reserved = 0\<rparr>"

definition idt_set_gate :: "u8 \<Rightarrow> u64 \<Rightarrow> u8 \<Rightarrow> u8 \<Rightarrow> 'a idt_state_scheme \<Rightarrow> 'a idt_state_scheme" where
  "idt_set_gate num handler attr ist s = s\<lparr>idt := (idt s)[unat num := gate handler attr ist]\<rparr>"

definition idt_init :: "'a idt_state_scheme \<Rightarrow> 'a idt_state_scheme" where
  "idt_init s =
     (let s1 = console_puts ''[IDT] Initializing IDT...\<newline>'' s;
          s2 = s1\<lparr>idtr := \<lparr>idtr_limit = 4095, idtr_base = sym s1 Sym_idt\<rparr>\<rparr>;
          s3 = fold (\<lambda>i s. idt_set_gate (of_nat i) (sym s Sym_isr_stub_0) IDT_INTERRUPT_GATE 0 s) [0..<IDT_ENTRIES] s2;
          s4 = idt_set_gate 32 (sym s3 Sym_irq_stub_0) IDT_INTERRUPT_GATE 0 s3;
          s5 = idt_set_gate 33 (sym s4 Sym_irq_stub_1) IDT_INTERRUPT_GATE 0 s4
      in console_puts ''[IDT] IDT loaded.\<newline>'' (emit (Lidt (idtr_limit (idtr s5)) (idtr_base (idtr s5))) s5))"

section \<open>Exceptions\<close>

record interrupt_frame_t =
  saved_regs :: "u64 list"
  int_no :: u64
  error_code :: u64
  frame_rip :: u64
  frame_cs :: u64
  frame_rflags :: u64
  frame_rsp :: u64
  frame_ss :: u64

text \<open>The words from the stack pointer upwards, as the structure reads them.\<close>

definition decode_frame :: "u64 list \<Rightarrow> interrupt_frame_t" where
  "decode_frame ws = \<lparr>saved_regs = take 15 ws, int_no = ws ! 15, error_code = ws ! 16, frame_rip = ws ! 17,
     frame_cs = ws ! 18, frame_rflags = ws ! 19, frame_rsp = ws ! 20, frame_ss = ws ! 21\<rparr>"

text \<open>
  What \<^verbatim>\<open>isr_stub_0\<close> and \<^verbatim>\<open>isr_common\<close> put on top of the words that the processor pushed: a zero as error
  code, the number 0, and the fifteen registers, of which \<^verbatim>\<open>r15\<close> is pushed last.
\<close>

definition isr_stub_0_frame :: "u64 list \<Rightarrow> u64 list \<Rightarrow> u64 list" where
  "isr_stub_0_frame registers pushed = registers @ [0, 0] @ pushed"

definition kill_report :: "string \<Rightarrow> u64 \<Rightarrow> 'a idt_state_scheme \<Rightarrow> 'a idt_state_scheme" where
  "kill_report msg fault_addr s =
     kill_current (console_puts ''\<newline>'' (console_put_hex fault_addr (console_puts msg s)))"

text \<open>\<open>cr2\<close> is the register with the faulting address.\<close>

definition page_fault :: "u64 \<Rightarrow> u64 \<Rightarrow> 'a idt_state_scheme \<Rightarrow> 'a idt_state_scheme" where
  "page_fault err cr2 s =
     (if err AND 0x01 \<noteq> 0 then kill_report ''[PF] Permission fault at '' cr2 s
      else if proc_current s \<noteq> None \<and> cr2 < 0xFFFF800000000000
      then (case pmm_alloc_page s of (phys, s1) \<Rightarrow>
              if phys \<noteq> 0
              then mm_map_page (mm_get_kernel_pml4 s1) (cr2 AND NOT 0xFFF) phys ((1 OR 2) OR 4) s1
              else kill_report ''[PF] Unhandled page fault at '' cr2 s1)
      else kill_report ''[PF] Unhandled page fault at '' cr2 s)"

definition exception_handler ::
  "interrupt_frame_t \<Rightarrow> u64 \<Rightarrow> 'a idt_state_scheme \<Rightarrow> (unit, 'a idt_state_scheme) outcome" where
  "exception_handler frame cr2 s =
     (if int_no frame = 14 then Return () (page_fault (error_code frame) cr2 s)
      else Halt (emit Hlt (console_puts ''\<newline>'' (console_put_hex (frame_rip frame) (console_puts ''\<newline>RIP: ''
             (console_put_hex (error_code frame) (console_puts ''Error code: ''
               (console_puts '' !!!\<newline>'' (console_put_dec (int_no frame) (console_puts ''\<newline>!!! EXCEPTION '' s))))))))))"

section \<open>Interrupt requests\<close>

definition runnable :: "pcb_t \<Rightarrow> bool" where
  "runnable b \<longleftrightarrow> pcb_state b = PROC_STATE_READY \<or> pcb_state b = PROC_STATE_RUNNING"

text \<open>The search for a runnable process after the current one; none when it ends at a null pointer.\<close>

partial_function (option) find_runnable :: "pcb_t list \<Rightarrow> nat \<Rightarrow> nat option \<Rightarrow> nat option option" where
  "find_runnable ps cur p =
     (case p of
        None \<Rightarrow> Some None
      | Some n \<Rightarrow> if n \<noteq> cur \<and> \<not> runnable (ps ! n) then find_runnable ps cur (pcb_next (ps ! n)) else Some (Some n))"

definition switch_to :: "nat \<Rightarrow> nat \<Rightarrow> u64 \<Rightarrow> 'a idt_state_scheme \<Rightarrow> u64 \<times> 'a idt_state_scheme" where
  "switch_to cur n irq s =
     (let s1 = (if pcb_state (pcb s cur) = PROC_STATE_RUNNING
                then upd_pcb cur (\<lambda>b. b\<lparr>pcb_state := PROC_STATE_READY\<rparr>) s else s);
          s2 = (start_process n s1)\<lparr>current_process := Some n\<rparr>;
          s3 = (if pcb_cr3 (pcb s2 n) \<noteq> 0 then emit (MovCr3 (pcb_cr3 (pcb s2 n))) s2 else s2);
          s4 = pic_send_eoi (ucast irq) s3
      in (pcb_rsp (pcb s4 n), s4))"

definition timer_irq :: "u64 \<Rightarrow> 'a idt_state_scheme \<Rightarrow> (u64 \<times> 'a idt_state_scheme) option" where
  "timer_irq current_rsp s =
     (case current_process s of
        None \<Rightarrow> Some (current_rsp, pic_send_eoi 0 s)
      | Some cur \<Rightarrow>
          (let s1 = upd_pcb cur (\<lambda>b. b\<lparr>pcb_rsp := current_rsp, pcb_time_slice := pcb_time_slice b - 1\<rparr>) s
           in if pcb_time_slice (pcb s1 cur) \<noteq> 0 then Some (current_rsp, pic_send_eoi 0 s1)
              else case find_runnable (process_table s1) cur (pcb_next (pcb s1 cur)) of
                     None \<Rightarrow> None
                   | Some r \<Rightarrow>
                       (case r of
                          Some n \<Rightarrow>
                            if n \<noteq> cur \<and> runnable (pcb s1 n) then Some (switch_to cur n 0 s1)
                            else Some (current_rsp,
                              pic_send_eoi 0 (upd_pcb cur (\<lambda>b. b\<lparr>pcb_time_slice := DEFAULT_TIME_SLICE\<rparr>) s1))
                        | None \<Rightarrow> Some (current_rsp,
                              pic_send_eoi 0 (upd_pcb cur (\<lambda>b. b\<lparr>pcb_time_slice := DEFAULT_TIME_SLICE\<rparr>) s1)))))"

definition keyboard_irq :: "'a keyboard_scheme \<Rightarrow> 'a keyboard_scheme" where
  "keyboard_irq s = (case inb 0x60 s of (scancode, s1) \<Rightarrow> keyboard_handle_scancode scancode s1)"

definition irq_handler_with_switch :: "u64 \<Rightarrow> 'a idt_state_scheme \<Rightarrow> (u64 \<times> 'a idt_state_scheme) option" where
  "irq_handler_with_switch current_rsp s =
     (let irq = kstack_mem s (current_rsp + 8 * 15) - 32
      in if irq = 0 then timer_irq current_rsp s
         else if irq = 1 then Some (current_rsp, pic_send_eoi (ucast irq) (keyboard_irq s))
         else Some (current_rsp, pic_send_eoi (ucast irq)
                (console_puts ''\<newline>'' (console_put_dec irq (console_puts ''Unhandled IRQ: '' s)))))"

section \<open>Frames\<close>

lemma idt_field_cong:
  fixes s t :: "'a idt_state_scheme"
  assumes "proc.more t = proc.more s"
  shows "idt t = idt s" "idtr t = idtr s" "idt_state.more t = idt_state.more s"
  using assms by (cases s; cases t; simp)+

lemmas idt_proc_frames [simp] =
  proc_frames [THEN idt_field_cong(1)] proc_frames [THEN idt_field_cong(2)] proc_frames [THEN idt_field_cong(3)]

lemma keyboard_irq_frame [simp]: "keyboard.more (keyboard_irq s) = keyboard.more s"
  by (simp add: keyboard_irq_def split_def)

lemmas idt_frames = proc_frames [THEN idt_field_cong(3)]

end
