(* ===== verification/Sched_Props.thy ===== *)
theory Sched_Props
  imports Idt Mesafs_Props
begin

text \<open>
The scheduler: the circular list of processes, and timer interrupts as a round-robin schedule over it
  in which no runnable process starves.
\<close>

section \<open>Specification\<close>

text \<open>The processes \<open>xs\<close> follow each other through \<^verbatim>\<open>next\<close> and the last one leads to \<open>y\<close>.\<close>

fun links_to :: "pcb_t list \<Rightarrow> nat list \<Rightarrow> nat \<Rightarrow> bool" where
  "links_to ps [] y \<longleftrightarrow> True"
| "links_to ps (x # xs) y \<longleftrightarrow> pcb_next (ps ! x) = Some (hd (xs @ [y])) \<and> links_to ps xs y"

text \<open>A circular list of distinct processes of the table.\<close>

definition ring :: "pcb_t list \<Rightarrow> nat list \<Rightarrow> bool" where
  "ring ps xs \<longleftrightarrow> xs \<noteq> [] \<and> distinct xs \<and> set xs \<subseteq> {..<length ps} \<and> links_to ps xs (hd xs)"

text \<open>The scheduler's list holds the processes \<open>xs\<close>, from its head on.\<close>

definition sched_ok :: "'a proc_scheme \<Rightarrow> nat list \<Rightarrow> bool" where
  "sched_ok s xs \<longleftrightarrow> (case process_list_head s of None \<Rightarrow> xs = [] | Some h \<Rightarrow> ring (process_table s) xs \<and> hd xs = h)"

text \<open>
  The scheduler at work: the current process is \<open>cur\<close>, the others follow it in the ring in the order
  \<open>xs\<close>, only the current one is marked as running, and it has ticks left.
\<close>

definition sched_run :: "'a idt_state_scheme \<Rightarrow> nat \<Rightarrow> nat list \<Rightarrow> bool" where
  "sched_run s cur xs \<longleftrightarrow> current_process s = Some cur \<and> ring (process_table s) (cur # xs) \<and>
     (\<forall>x \<in> set xs. pcb_state (pcb s x) \<noteq> PROC_STATE_RUNNING) \<and>
     0 < pcb_time_slice (pcb s cur) \<and> pcb_time_slice (pcb s cur) \<le> 10"

fun ticks :: "u64 list \<Rightarrow> 'a idt_state_scheme \<Rightarrow> 'a idt_state_scheme option" where
  "ticks [] s = Some s"
| "ticks (r # rs) s = (case timer_irq r s of None \<Rightarrow> None | Some (_, t) \<Rightarrow> ticks rs t)"

text \<open>What a tick does: count down, start a new slice, or pass on to the first runnable process.\<close>

definition tick_spec :: "u64 \<Rightarrow> nat \<Rightarrow> nat list \<Rightarrow> 'a idt_state_scheme \<Rightarrow> u64 \<Rightarrow> 'a idt_state_scheme \<Rightarrow> bool" where
  "tick_spec rsp cur xs s r t \<longleftrightarrow>
     (if pcb_time_slice (pcb s cur) \<noteq> 1
      then sched_run t cur xs \<and> r = rsp \<and> pcb_time_slice (pcb t cur) = pcb_time_slice (pcb s cur) - 1
      else case find (\<lambda>n. runnable (pcb s n)) xs of
             None \<Rightarrow> sched_run t cur xs \<and> r = rsp \<and> pcb_time_slice (pcb t cur) = 10
           | Some n \<Rightarrow> r = pcb_rsp (pcb s n) \<and> pcb_state (pcb t n) = PROC_STATE_RUNNING \<and>
               pcb_time_slice (pcb t n) = 10 \<and> tss_rsp0 (tss t) = pcb_kernel_stack (pcb s n) + KSTACK_SIZE \<and>
               (\<forall>ys zs. xs = ys @ n # zs \<longrightarrow> sched_run t n (zs @ cur # ys)))"

definition sample_pcb :: "proc_state_t \<Rightarrow> nat option \<Rightarrow> u64 \<Rightarrow> pcb_t" where
  "sample_pcb st nx ts = pcb_zero\<lparr>pcb_state := st, pcb_next := nx, pcb_time_slice := ts\<rparr>"

text \<open>Process 0 runs, process 1 waits, process 2 is ready; process 3 is ready but not in the ring.\<close>

definition sample_table :: "pcb_t list" where
  "sample_table = [sample_pcb PROC_STATE_RUNNING (Some 1) 1, sample_pcb PROC_STATE_WAITING (Some 2) 10,
     sample_pcb PROC_STATE_READY (Some 0) 10, sample_pcb PROC_STATE_READY None 0]"

definition sample_idt :: "nat option \<Rightarrow> idt_state" where
  "sample_idt cur = proc.extend (tss_state.extend (mesafs.extend sample_vol
       \<lparr>sym = (\<lambda>_. 0x110000), tss = tss_zero, gdt_tss = tss_descriptor 0 0\<rparr>)
       \<lparr>process_table = sample_table, kstack_mem = (\<lambda>_. 32), current_process = cur, process_list_head = Some 0,
         next_pid = 4, regs = (\<lambda>_. 0x100000)\<rparr>)
     \<lparr>idt = replicate 256 (gate 0 0 0), idtr = \<lparr>idtr_limit = 0, idtr_base = 0\<rparr>\<rparr>"

section \<open>Rings\<close>

lemma links_to_append: "links_to ps (xs @ ys) y \<longleftrightarrow> links_to ps xs (hd (ys @ [y])) \<and> links_to ps ys y"
  by (induction xs) (auto simp: hd_append)

lemma links_to_cong: "(\<And>x. x \<in> set xs \<Longrightarrow> pcb_next (ps' ! x) = pcb_next (ps ! x)) \<Longrightarrow> links_to ps' xs y = links_to ps xs y"
  by (induction xs) auto

lemma ring_rotate: "ring ps (xs @ ys) \<Longrightarrow> ring ps (ys @ xs)"
  by (cases xs; cases ys) (auto simp: ring_def links_to_append hd_append)

lemma ring_cong:
  assumes "length ps' = length ps" "\<And>x. x \<in> set xs \<Longrightarrow> pcb_next (ps' ! x) = pcb_next (ps ! x)"
  shows "ring ps' xs = ring ps xs"
  using assms links_to_cong [of xs ps' ps] by (auto simp: ring_def)

lemma find_tail_ring:
  assumes "links_to ps (x # xs) h" "h \<notin> set xs"
  shows "find_tail ps h x = Some (last (x # xs))"
  using assms
proof (induction xs arbitrary: x)
  case Nil
  then show ?case by (subst find_tail.simps) simp
next
  case (Cons y xs)
  then show ?case by (subst find_tail.simps) auto
qed

lemma find_runnable_links:
  assumes "links_to ps xs cur" "cur \<notin> set xs"
  shows "find_runnable ps cur (Some (hd (xs @ [cur]))) =
    Some (Some (case find (\<lambda>n. runnable (ps ! n)) xs of None \<Rightarrow> cur | Some n \<Rightarrow> n))"
  using assms
proof (induction xs)
  case Nil
  then show ?case by (subst find_runnable.simps) simp
next
  case (Cons x xs)
  then show ?case by (subst find_runnable.simps) auto
qed

lemma find_ready_links:
  assumes "links_to ps xs cur" "cur \<notin> set xs"
  shows "find_ready ps cur (Some (hd (xs @ [cur]))) =
    Some (case find (\<lambda>n. pcb_state (ps ! n) = PROC_STATE_READY) xs of None \<Rightarrow> cur | Some n \<Rightarrow> n)"
  using assms
proof (induction xs)
  case Nil
  then show ?case by (subst find_ready.simps) simp
next
  case (Cons x xs)
  then show ?case by (subst find_ready.simps) auto
qed

lemma upd_pcb_table [simp]:
  "length (process_table (upd_pcb p f s)) = length (process_table s)"
  "p < length (process_table s) \<Longrightarrow> process_table (upd_pcb p f s) ! q = (if q = p then f (process_table s ! p) else process_table s ! q)"
  "process_list_head (upd_pcb p f s) = process_list_head s" "current_process (upd_pcb p f s) = current_process s"
  "next_pid (upd_pcb p f s) = next_pid s" "kstack_mem (upd_pcb p f s) = kstack_mem s" "sym (upd_pcb p f s) = sym s"
  "tss (upd_pcb p f s) = tss s" "regs (upd_pcb p f s) = regs s" "proc.more (upd_pcb p f s) = proc.more s"
  by (simp_all add: upd_pcb_def nth_list_update)

text \<open>Appending a process to the ring.\<close>

lemma ring_snoc:
  assumes "ring ps xs" "p \<notin> set xs" "p < length ps" "length ps' = length ps"
    and "\<And>x. x \<noteq> p \<Longrightarrow> x \<noteq> last xs \<Longrightarrow> pcb_next (ps' ! x) = pcb_next (ps ! x)"
    and "pcb_next (ps' ! last xs) = Some p" "pcb_next (ps' ! p) = Some (hd xs)"
  shows "ring ps' (xs @ [p])"
proof -
  from assms(1) obtain ys l where xs: "xs = ys @ [l]" by (metis ring_def append_butlast_last_id)
  have l: "last xs = l" "l \<notin> set ys" "p \<notin> set ys" "p \<noteq> l" using assms(1,2) by (auto simp: xs ring_def)
  have "links_to ps ys l" using assms(1) by (simp add: ring_def xs links_to_append)
  moreover have "links_to ps' ys l = links_to ps ys l"
    using l assms(5) by (intro links_to_cong) metis
  ultimately have "links_to ps' (xs @ [p]) (hd (xs @ [p]))"
    using assms(6,7) l assms(1) by (simp add: xs links_to_append hd_append)
  then show ?thesis using assms(1-4) by (auto simp: ring_def)
qed

lemma sched_add_spec:
  assumes "sched_ok s xs" "p \<notin> set xs" "p < length (process_table s)" "pcb_state (pcb s p) = PROC_STATE_READY"
  shows "\<exists>t. sched_add_process (Some p) s = Some t \<and> sched_ok t (xs @ [p]) \<and> pcb_time_slice (pcb t p) = 10 \<and>
    length (process_table t) = length (process_table s) \<and> current_process t = current_process s \<and>
    (\<forall>x. (pcb t x)\<lparr>pcb_next := None, pcb_time_slice := 0\<rparr> = (pcb s x)\<lparr>pcb_next := None, pcb_time_slice := 0\<rparr>)"
proof (cases "process_list_head s")
  case None
  with assms(1) have "xs = []" by (simp add: sched_ok_def)
  with None assms(3,4) show ?thesis
    by (auto simp: sched_add_process_def Let_def sched_ok_def ring_def)
next
  case (Some h)
  let ?s1 = "upd_pcb p (\<lambda>b. b\<lparr>pcb_time_slice := 10\<rparr>) s"
  have r: "ring (process_table s) xs" "hd xs = h" using assms(1) Some by (simp_all add: sched_ok_def)
  then obtain ys where xs: "xs = h # ys" by (metis ring_def list.collapse)
  have lt: "last xs < length (process_table s)" "last xs \<noteq> p" "h \<notin> set ys"
    using r(1) assms(2) last_in_set [of xs] by (auto simp: ring_def xs)
  have "ring (process_table ?s1) xs" using r(1) assms(2,3) ring_cong [of "process_table ?s1" "process_table s" xs] by auto
  then have "find_tail (process_table ?s1) h h = Some (last xs)"
    using find_tail_ring [of "process_table ?s1" h ys h] lt(3) by (simp add: ring_def xs)
  then have add: "sched_add_process (Some p) s = Some (upd_pcb p (\<lambda>b. b\<lparr>pcb_next := Some h\<rparr>)
      (upd_pcb (last xs) (\<lambda>b. b\<lparr>pcb_next := Some p\<rparr>) ?s1))" (is "_ = Some ?t")
    using Some assms(4) by (simp add: sched_add_process_def Let_def)
  have "ring (process_table ?t) (xs @ [p])"
    using assms(2,3) lt r by (intro ring_snoc [OF r(1)]) auto
  then show ?thesis unfolding add using Some r(2) assms(3) lt by (auto simp: sched_ok_def xs)
qed

section \<open>Timer interrupts\<close>

lemma pic_send_eoi_proc [simp]:
  fixes s :: "'a idt_state_scheme"
  shows "process_table (pic_send_eoi i s) = process_table s" "current_process (pic_send_eoi i s) = current_process s"
    "tss (pic_send_eoi i s) = tss s"
  by (simp_all add: pic_send_eoi_def instruction_defs)

lemma emit_proc [simp]:
  fixes s :: "'a idt_state_scheme"
  shows "process_table (emit e s) = process_table s" "current_process (emit e s) = current_process s" "tss (emit e s) = tss s"
  by (simp_all add: emit_def)

lemma start_process_fields [simp]:
  fixes s :: "'a idt_state_scheme"
  assumes "n < length (process_table s)"
  shows "pcb (start_process n s) q = (if q = n then (pcb s n)\<lparr>pcb_state := PROC_STATE_RUNNING, pcb_time_slice := 10\<rparr> else pcb s q)"
    "length (process_table (start_process n s)) = length (process_table s)"
    "tss_rsp0 (tss (start_process n s)) = pcb_kernel_stack (pcb s n) + KSTACK_SIZE"
  using assms by (simp_all add: start_process_def Let_def tss_set_rsp0_def)

lemma switch_to_fields:
  fixes s :: "'a idt_state_scheme"
  assumes "n < length (process_table s)" "cur < length (process_table s)" "n \<noteq> cur"
  shows "pcb (snd (switch_to cur n irq s)) q =
      (if q = n then (pcb s n)\<lparr>pcb_state := PROC_STATE_RUNNING, pcb_time_slice := 10\<rparr>
       else if q = cur \<and> pcb_state (pcb s cur) = PROC_STATE_RUNNING then (pcb s cur)\<lparr>pcb_state := PROC_STATE_READY\<rparr> else pcb s q)"
    "length (process_table (snd (switch_to cur n irq s))) = length (process_table s)"
    "current_process (snd (switch_to cur n irq s)) = Some n" "fst (switch_to cur n irq s) = pcb_rsp (pcb s n)"
    "tss_rsp0 (tss (snd (switch_to cur n irq s))) = pcb_kernel_stack (pcb s n) + KSTACK_SIZE"
  using assms by (simp_all add: switch_to_def Let_def)

lemma timer_tick:
  fixes s :: "'a idt_state_scheme"
  assumes "sched_run s cur xs"
  shows "\<exists>r t. timer_irq rsp s = Some (r, t) \<and> tick_spec rsp cur xs s r t \<and>
    (\<forall>x \<in> set (cur # xs). runnable (pcb t x) = runnable (pcb s x))"
proof -
  let ?s1 = "upd_pcb cur (\<lambda>b. b\<lparr>pcb_rsp := rsp, pcb_time_slice := pcb_time_slice b - 1\<rparr>) s"
  have cur: "current_process s = Some cur" and r: "ring (process_table s) (cur # xs)"
    and slice: "0 < pcb_time_slice (pcb s cur)" "pcb_time_slice (pcb s cur) \<le> 10"
    and st: "\<forall>x \<in> set xs. pcb_state (pcb s x) \<noteq> PROC_STATE_RUNNING"
    using assms by (simp_all add: sched_run_def)
  have lt: "cur < length (process_table s)" "\<forall>x \<in> set xs. x < length (process_table s)" "cur \<notin> set xs" "distinct xs"
    using r by (auto simp: ring_def)
  have r1: "ring (process_table ?s1) (cur # xs)"
    using r lt(1) ring_cong [of "process_table ?s1" "process_table s" "cur # xs"] by simp
  have ring_t: "ring (process_table t) (cur # xs)" if "length (process_table t) = length (process_table s)"
    "\<And>x. pcb_next (pcb t x) = pcb_next (pcb s x)" for t :: "'a idt_state_scheme"
    using that r ring_cong [of "process_table t" "process_table s" "cur # xs"] by simp
  show ?thesis
  proof (cases "pcb_time_slice (pcb s cur) = 1")
    case False
    let ?t = "pic_send_eoi 0 ?s1"
    have nz: "pcb_time_slice (pcb s cur) - 1 \<noteq> 0" using False by simp
    then have t: "timer_irq rsp s = Some (rsp, ?t)" using cur lt(1) by (simp add: timer_irq_def Let_def)
    have "ring (process_table ?t) (cur # xs)" using lt(1) by (intro ring_t) simp_all
    moreover have "pcb_time_slice (pcb s cur) - 1 \<le> 10" "0 < pcb_time_slice (pcb s cur) - 1"
      using slice nz word_dec_le [of "pcb_time_slice (pcb s cur)" 10] by (simp_all add: word_gt_0)
    ultimately have "sched_run ?t cur xs" using cur lt st by (auto simp: sched_run_def)
    then show ?thesis using t False lt by (auto simp: tick_spec_def runnable_def)
  next
    case True
    then have z: "pcb_time_slice (pcb ?s1 cur) = 0" using lt(1) by simp
    have fr: "find_runnable (process_table ?s1) cur (pcb_next (pcb ?s1 cur)) =
        Some (Some (case find (\<lambda>n. runnable (pcb ?s1 n)) xs of None \<Rightarrow> cur | Some n \<Rightarrow> n))"
      using r1 lt(3) find_runnable_links [of "process_table ?s1" xs cur] by (simp add: ring_def del: upd_pcb_table(2))
    have "find (\<lambda>n. runnable (pcb ?s1 n)) xs = find (\<lambda>n. runnable (pcb s n)) xs"
      using lt(1,3) by (intro find_cong) auto
    note fr = fr [unfolded this]
    show ?thesis
    proof (cases "find (\<lambda>n. runnable (pcb s n)) xs")
      case None
      let ?t = "pic_send_eoi 0 (upd_pcb cur (\<lambda>b. b\<lparr>pcb_time_slice := 10\<rparr>) ?s1)"
      have t: "timer_irq rsp s = Some (rsp, ?t)" using cur z fr None by (simp add: timer_irq_def Let_def)
      have "ring (process_table ?t) (cur # xs)" using lt(1) by (intro ring_t) simp_all
      then have "sched_run ?t cur xs" using cur lt st by (auto simp: sched_run_def)
      then show ?thesis using t True None lt by (auto simp: tick_spec_def runnable_def)
    next
      case (Some n)
      then have n: "n \<in> set xs" "runnable (pcb s n)" by (auto simp: find_Some_iff)
      then have ne: "n \<noteq> cur" "n < length (process_table s)" using lt by auto
      let ?t = "snd (switch_to cur n 0 ?s1)"
      have t: "timer_irq rsp s = Some (pcb_rsp (pcb s n), ?t)"
        using cur z fr Some ne n(2) lt(1) switch_to_fields(4) [of n ?s1 cur 0]
        by (auto simp: timer_irq_def Let_def prod_eq_iff)
      have f: "pcb ?t q = (if q = n then (pcb s n)\<lparr>pcb_state := PROC_STATE_RUNNING, pcb_time_slice := 10\<rparr>
          else if q = cur \<and> pcb_state (pcb s cur) = PROC_STATE_RUNNING then (pcb ?s1 cur)\<lparr>pcb_state := PROC_STATE_READY\<rparr> else pcb ?s1 q)"
        "length (process_table ?t) = length (process_table s)" "current_process ?t = Some n"
        "tss_rsp0 (tss ?t) = pcb_kernel_stack (pcb s n) + KSTACK_SIZE" for q
        using switch_to_fields [of n ?s1 cur 0] ne lt(1) by simp_all
      have rt: "ring (process_table ?t) (cur # xs)" using f(1,2) lt(1) by (intro ring_t) simp_all
      have run: "sched_run ?t n (zs @ cur # ys)" if xs: "xs = ys @ n # zs" for ys zs
      proof -
        have "ring (process_table ?t) ((n # zs) @ (cur # ys))" using rt ring_rotate [of _ "cur # ys" "n # zs"] by (simp add: xs)
        then show ?thesis using f st lt(1,3,4) ne by (auto simp: sched_run_def xs)
      qed
      have "\<forall>x \<in> set (cur # xs). runnable (pcb ?t x) = runnable (pcb s x)"
        using f(1) n(2) lt(1) by (auto simp: runnable_def)
      then show ?thesis using t True Some run f by (auto simp: tick_spec_def)
    qed
  qed
qed

lemma ticks_append: "ticks (rs @ rs') s = (case ticks rs s of None \<Rightarrow> None | Some t \<Rightarrow> ticks rs' t)"
  by (induction rs arbitrary: s) (auto split: option.splits)

text \<open>A whole time slice.\<close>

lemma ticks_slice:
  assumes "sched_run s cur xs" "length rs = unat (pcb_time_slice (pcb s cur))"
  shows "\<exists>t. ticks rs s = Some t \<and> (\<forall>x \<in> set (cur # xs). runnable (pcb t x) = runnable (pcb s x)) \<and>
    (case find (\<lambda>n. runnable (pcb s n)) xs of None \<Rightarrow> sched_run t cur xs
     | Some n \<Rightarrow> \<forall>ys zs. xs = ys @ n # zs \<longrightarrow> sched_run t n (zs @ cur # ys))"
  using assms
proof (induction rs arbitrary: s)
  case Nil
  then have "pcb_time_slice (pcb s cur) = 0" by (simp add: unat_eq_0)
  with Nil.prems(1) show ?case by (simp add: sched_run_def)
next
  case (Cons r rs)
  from timer_tick [OF Cons.prems(1), of r] obtain r' t where
    t: "timer_irq r s = Some (r', t)" "tick_spec r cur xs s r' t"
      "\<And>x. x \<in> set (cur # xs) \<Longrightarrow> runnable (pcb t x) = runnable (pcb s x)" by blast
  have f: "find (\<lambda>n. runnable (pcb t n)) xs = find (\<lambda>n. runnable (pcb s n)) xs" using t(3) by (intro find_cong) auto
  show ?case
  proof (cases "pcb_time_slice (pcb s cur) = 1")
    case True
    then have "rs = []" using Cons.prems(2) by simp
    then show ?thesis using t True by (auto simp: tick_spec_def split: option.splits)
  next
    case False
    then have run: "sched_run t cur xs" "pcb_time_slice (pcb t cur) = pcb_time_slice (pcb s cur) - 1"
      using t(2) by (simp_all add: tick_spec_def)
    have "0 < pcb_time_slice (pcb s cur)" using Cons.prems(1) by (simp add: sched_run_def)
    then have "length rs = unat (pcb_time_slice (pcb t cur))"
      using run(2) Cons.prems(2) unat_minus_one [of "pcb_time_slice (pcb s cur)"] by (simp add: word_gt_0)
    from Cons.IH [OF run(1) this] t(1,3) f show ?thesis by auto
  qed
qed

lemma ticks_reach:
  assumes "sched_run s cur (us @ q # vs)" "runnable (pcb s q)" "10 * (length us + 1) \<le> length rs"
  shows "\<exists>k t. k \<le> 10 * (length us + 1) \<and> ticks (take k rs) s = Some t \<and> current_process t = Some q"
  using assms
proof (induction "length us" arbitrary: s cur us vs rs rule: less_induct)
  case less
  let ?n = "unat (pcb_time_slice (pcb s cur))"
  have n: "?n \<le> 10" using less.prems(1) by (simp add: sched_run_def word_le_nat_alt)
  have "length (take ?n rs) = ?n" using n less.prems(3) by simp
  from ticks_slice [OF less.prems(1) this] obtain t where
    t: "ticks (take ?n rs) s = Some t" "\<And>x. x \<in> set (cur # us @ q # vs) \<Longrightarrow> runnable (pcb t x) = runnable (pcb s x)"
      "case find (\<lambda>n. runnable (pcb s n)) (us @ q # vs) of None \<Rightarrow> sched_run t cur (us @ q # vs)
       | Some n \<Rightarrow> \<forall>ys zs. us @ q # vs = ys @ n # zs \<longrightarrow> sched_run t n (zs @ cur # ys)" by blast
  show ?case
  proof (cases "\<exists>x \<in> set us. runnable (pcb s x)")
    case False
    then have "find (\<lambda>n. runnable (pcb s n)) (us @ q # vs) = Some q"
      using less.prems(2) by (induction us) auto
    with t(3) have "current_process t = Some q" by (auto simp: sched_run_def)
    then show ?thesis using t(1) n by (intro exI [of _ ?n] exI [of _ t]) simp
  next
    case True
    then obtain ys m zs where us: "us = ys @ m # zs" "runnable (pcb s m)" "\<forall>x \<in> set ys. \<not> runnable (pcb s x)"
      using split_list_first_prop [OF True] by blast
    then have "find (\<lambda>n. runnable (pcb s n)) (us @ q # vs) = Some m" by (auto simp: find_Some_iff nth_append intro!: exI [of _ "length ys"])
    with t(3) have "\<forall>ys' zs'. us @ q # vs = ys' @ m # zs' \<longrightarrow> sched_run t m (zs' @ cur # ys')" by simp
    from this [rule_format, of ys "zs @ q # vs"] us(1) have run: "sched_run t m (zs @ q # (vs @ cur # ys))" by simp
    have "runnable (pcb t q)" using t(2) less.prems(2) by simp
    moreover have "length zs < length us" "10 * (length zs + 1) \<le> length (drop ?n rs)"
      using us(1) n less.prems(3) by simp_all
    ultimately obtain k u where k: "k \<le> 10 * (length zs + 1)" "ticks (take k (drop ?n rs)) t = Some u" "current_process u = Some q"
      using less.hyps [OF _ run] by blast
    have "ticks (take (?n + k) rs) s = Some u" using t(1) k(2) by (simp add: take_add ticks_append)
    moreover have "?n + k \<le> 10 * (length us + 1)" using k(1) n us(1) by simp
    ultimately show ?thesis using k(3) by blast
  qed
qed

section \<open>A sample system\<close>

lemma sample_idt_fields [simp]:
  "process_table (sample_idt cur) = sample_table" "current_process (sample_idt cur) = cur"
  "process_list_head (sample_idt cur) = Some 0" "kstack_mem (sample_idt cur) = (\<lambda>_. 32)"
  "sym (sample_idt cur) = (\<lambda>_. 0x110000)" "regs (sample_idt cur) = (\<lambda>_. 0x100000)" "next_pid (sample_idt cur) = 4"
  "length (idt (sample_idt cur)) = 256"
  by (simp_all add: sample_idt_def mesafs.defs tss_state.defs proc.defs)

lemma sample_ring: "ring sample_table [0, 1, 2]" "length sample_table = 4"
  by (auto simp: ring_def sample_table_def sample_pcb_def)

lemma sample_run: "sched_run (sample_idt (Some 0)) 0 ([1] @ 2 # [])" "runnable (pcb (sample_idt (Some 0)) 2)"
  using sample_ring by (simp_all add: sched_run_def runnable_def) (simp_all add: sample_table_def sample_pcb_def)

section \<open>Properties\<close>

text \<open>
  \<^verbatim>\<open>sched_add_process\<close> of a ready process returns and appends it to the circular list, with a full
  time slice; no other field of any process changes.
\<close>

theorem sched_add_process_appends:
  assumes "sched_ok s xs" "p \<notin> set xs" "p < length (process_table s)" "pcb_state (pcb s p) = PROC_STATE_READY"
  shows "\<exists>t. sched_add_process (Some p) s = Some t \<and> sched_ok t (xs @ [p]) \<and> pcb_time_slice (pcb t p) = 10 \<and>
    length (process_table t) = length (process_table s) \<and> current_process t = current_process s \<and>
    (\<forall>x. (pcb t x)\<lparr>pcb_next := None, pcb_time_slice := 0\<rparr> = (pcb s x)\<lparr>pcb_next := None, pcb_time_slice := 0\<rparr>)"
  by (rule sched_add_spec [OF assms])

theorem sched_add_process_appends_witness:
  "\<exists>t. sched_add_process (Some 3) (sample_idt None) = Some t \<and> sched_ok t [0, 1, 2, 3]"
proof -
  have "sched_ok (sample_idt None) [0, 1, 2]" using sample_ring by (simp add: sched_ok_def)
  moreover have "pcb_state (pcb (sample_idt None) 3) = PROC_STATE_READY" by (simp add: sample_table_def sample_pcb_def)
  ultimately show ?thesis
    using sched_add_process_appends [of "sample_idt None" "[0, 1, 2]" 3] sample_ring(2) by auto
qed

text \<open>
  C19: a timer interrupt with a current process returns and schedules round robin: the time slice is
  counted down; when it is used up the first runnable process after the current one in the ring is
  started with a new slice, its saved stack pointer is returned and its kernel stack is entered in the
  TSS, or the current process gets a new slice when there is none.  Only the current process is ever
  marked as running.
\<close>

theorem timer_irq_round_robin:
  assumes "sched_run s cur xs"
  shows "\<exists>r t. timer_irq rsp s = Some (r, t) \<and> tick_spec rsp cur xs s r t"
  using timer_tick [OF assms] by blast

theorem timer_irq_round_robin_witness:
  "\<exists>r t. timer_irq 0x5000 (sample_idt (Some 0)) = Some (r, t) \<and> tick_spec 0x5000 0 ([1] @ 2 # []) (sample_idt (Some 0)) r t"
  by (rule timer_irq_round_robin [OF sample_run(1)])

text \<open>
  C20: no process starves: with a current process, every runnable process of the ring is current after at
  most ten timer interrupts for each process from the current one up to it.
\<close>

theorem timer_no_starvation:
  assumes "sched_run s cur (us @ q # vs)" "runnable (pcb s q)" "10 * (length us + 1) \<le> length rs"
  shows "\<exists>k t. k \<le> 10 * (length us + 1) \<and> ticks (take k rs) s = Some t \<and> current_process t = Some q"
  by (rule ticks_reach [OF assms])

theorem timer_no_starvation_witness:
  "\<exists>k t. k \<le> 20 \<and> ticks (take k (replicate 20 0x5000)) (sample_idt (Some 0)) = Some t \<and> current_process t = Some 2"
  using timer_no_starvation [OF sample_run, of "replicate 20 0x5000"] by simp

end
