(* ===== verification/Idt_Props.thy ===== *)
theory Idt_Props
  imports Sched_Props
begin

text \<open>
Creation of processes, the first context switch, the interrupt descriptor table, page faults, and
  what interrupts do while no process is current.
\<close>

section \<open>Specification\<close>

definition fresh_idt :: idt_state where
  "fresh_idt = (sample_idt None)\<lparr>process_table := replicate 64 pcb_zero, process_list_head := None, next_pid := 1\<rparr>"

text \<open>Interrupt requests one after the other, each with the stack pointer it is entered with.\<close>

fun irq_run :: "u64 list \<Rightarrow> 'a idt_state_scheme \<Rightarrow> 'a idt_state_scheme option" where
  "irq_run [] s = Some s"
| "irq_run (r # rs) s = (case irq_handler_with_switch r s of None \<Rightarrow> None | Some (_, t) \<Rightarrow> irq_run rs t)"

text \<open>The address that the processor reads from a gate.\<close>

definition gate_target :: "idt_entry_t \<Rightarrow> u64" where
  "gate_target e = ucast (offset_low e) OR push_bit 16 (ucast (offset_mid e)) OR push_bit 32 (ucast (offset_high e))"

definition tss_base :: "tss_descriptor_t \<Rightarrow> u64" where
  "tss_base d = ucast (base_low d) OR push_bit 16 (ucast (base_mid d)) OR push_bit 24 (ucast (base_mid2 d)) OR
     push_bit 32 (ucast (base_high d))"

text \<open>
  C22: a page fault on an absent user page, with a current process and enough free pages, is handled by
  mapping the lowest free page at the faulting address and nothing else: the handler returns and the
  page walk then translates the page.
\<close>

theorem page_fault_maps:
  assumes "pt_ok (boot_pml4 s) s" "int_no fr = 14" "error_code fr AND 1 = 0" "proc_current s \<noteq> None"
    and "cr2 < 0xFFFF800000000000" "no_huge (pmem s) (boot_pml4 s) (cr2 AND NOT 0xFFF)"
    and "missing (pmem s) (boot_pml4 s) (cr2 AND NOT 0xFFF) < card (free_pages s)"
  shows "\<exists>t. exception_handler fr cr2 s = Return () t \<and> pt_ok (boot_pml4 s) t \<and>
    translate (pmem t) (boot_pml4 s) (cr2 AND NOT 0xFFF) = Some (page_addr (Min (free_pages s))) \<and>
    (\<forall>w. \<not> same_page (cr2 AND NOT 0xFFF) w \<longrightarrow> mapping (pmem t) (boot_pml4 s) w = mapping (pmem s) (boot_pml4 s) w)"
proof -
  let ?v = "cr2 AND NOT 0xFFF"
  obtain phys s1 where a: "pmm_alloc_page s = (phys, s1)" by force
  have al: "page_aligned ?v" by (simp add: page_aligned_def and.assoc)
  have f: "(7 :: u64) AND 0xFFF = 7" by simp
  have ne: "free_pages s \<noteq> {}" using assms(7) by auto
  note m = alloc_map_page [OF assms(1) al assms(6,7) f a]
  have "exception_handler fr cr2 s = Return () (mm_map_page (boot_pml4 s) ?v phys 7 s1)"
    using assms(2-5) a m(2) pmm_alloc_pt(8) [OF assms(1) ne a]
    by (simp add: exception_handler_def page_fault_def mm_get_kernel_pml4_def)
  then show ?thesis using m by auto
qed

lemma sample_idt_mm:
  "pmem (sample_idt c) = pmem marked_mm" "free_pages (sample_idt c) = free_pages marked_mm" "boot_pml4 (sample_idt c) = 0x101000"
proof -
  show "pmem (sample_idt c) = pmem marked_mm" "boot_pml4 (sample_idt c) = 0x101000"
    by (simp_all add: sample_idt_def sample_vol_def sample_part_def vdisk_sample_def cold_memory_def cold_keyboard_def
        marked_mm_def mm.defs keyboard.defs memory.defs disk.defs partition.defs mesafs.defs tss_state.defs proc.defs)
  have "phys_bitmap (sample_idt c) = phys_bitmap marked_mm"
    by (simp add: sample_idt_def sample_vol_def sample_part_def vdisk_sample_def cold_memory_def cold_keyboard_def
        marked_mm_def mm.defs keyboard.defs memory.defs disk.defs partition.defs mesafs.defs tss_state.defs proc.defs)
  then show "free_pages (sample_idt c) = free_pages marked_mm" by (simp add: free_pages_def)
qed

theorem page_fault_maps_witness:
  "\<exists>t. exception_handler (decode_frame (replicate 15 0 @ [14, 0, 0, 0, 0, 0, 0])) 0x7FFFEFFFF123 (sample_idt (Some 0)) = Return () t \<and>
    translate (pmem t) 0x101000 0x7FFFEFFFF000 = Some 0x200000"
proof -
  have fr: "int_no (decode_frame (replicate 15 0 @ [14, 0, 0, 0, 0, 0, 0])) = 14"
    "error_code (decode_frame (replicate 15 0 @ [14, 0, 0, 0, 0, 0, 0])) AND 1 = 0"
    by (simp_all add: decode_frame_def nth_append)
  have v: "(0x7FFFEFFFF123 :: u64) AND NOT 0xFFF = 0x7FFFEFFFF000" by simp
  have ok: "pt_ok (boot_pml4 (sample_idt (Some 0))) (sample_idt (Some 0))"
    using marked_mm_ok by (simp add: pt_ok_def sample_idt_mm)
  have "page_addr (Min (free_pages (sample_idt (Some 0)))) = 0x200000"
    by (simp add: sample_idt_mm marked_mm_free pages_from_facts page_addr_def)
  then show ?thesis
    using page_fault_maps [OF ok fr, of "0x7FFFEFFFF123"] boot_user_stack(2,3) [OF sample_layout, of "\<lambda>_. 0"] marked_mm_free
    by (simp add: v sample_idt_mm proc_current_def marked_mm_def pages_from_facts) blast
qed

section \<open>Creating processes\<close>

lemma find_unused_Some:
  "find_unused i ps = Some k \<Longrightarrow> \<exists>j < length ps. k = i + j \<and> pcb_state (ps ! j) = PROC_STATE_UNUSED \<and>
     (\<forall>m < j. pcb_state (ps ! m) \<noteq> PROC_STATE_UNUSED)"
proof (induction ps arbitrary: i)
  case (Cons p ps)
  show ?case
  proof (cases "pcb_state p = PROC_STATE_UNUSED")
    case False
    with Cons.prems have "find_unused (Suc i) ps = Some k" by simp
    from Cons.IH [OF this] obtain j where j: "j < length ps" "k = Suc i + j" "pcb_state (ps ! j) = PROC_STATE_UNUSED"
      "\<forall>m < j. pcb_state (ps ! m) \<noteq> PROC_STATE_UNUSED" by blast
    then show ?thesis using False by (intro exI [of _ "Suc j"]) (auto simp: nth_Cons split: nat.splits)
  qed (use Cons.prems in auto)
qed simp

lemma push_word_pair: "push_word v (sp, m) = (sp - 8, m(sp - 8 := v))"
  by (simp add: push_word_def)

lemma push_words:
  assumes "length vs < 2 ^ 60" "fold push_word vs (sp, m) = (sp', m')"
  shows "sp' = sp - 8 * of_nat (length vs) \<and> (\<forall>j < length vs. m' (sp' + 8 * of_nat j) = rev vs ! j) \<and>
    (\<forall>a. (\<forall>j < length vs. a \<noteq> sp' + 8 * of_nat j) \<longrightarrow> m' a = m a)"
  using assms
proof (induction vs arbitrary: sp' m' rule: rev_induct)
  case Nil
  then show ?case by simp
next
  case (snoc v vs)
  obtain sp1 m1 where f: "fold push_word vs (sp, m) = (sp1, m1)" by force
  have IH: "sp1 = sp - 8 * of_nat (length vs)" "\<And>j. j < length vs \<Longrightarrow> m1 (sp1 + 8 * of_nat j) = rev vs ! j"
    "\<And>a. (\<forall>j < length vs. a \<noteq> sp1 + 8 * of_nat j) \<Longrightarrow> m1 a = m a"
    using snoc.IH [OF _ f] snoc.prems(1) by auto
  have s': "sp' = sp1 - 8" "m' = m1(sp1 - 8 := v)" using snoc.prems(2) f by (auto simp: push_word_pair)
  have shift: "sp' + 8 * of_nat (Suc j) = sp1 + 8 * of_nat j" for j by (simp add: s'(1) algebra_simps)
  have ne: "sp1 + 8 * of_nat j \<noteq> sp1 - 8" if "j < length vs" for j
  proof -
    have "unat (8 * of_nat (Suc j) :: u64) = 8 * Suc j"
      using that snoc.prems(1) by (subst unat_mult_small) (simp_all add: unat_of_nat_small del: of_nat_Suc)
    then have "8 * of_nat (Suc j) \<noteq> (0 :: u64)" by (metis unat_0 mult_is_0 nat.distinct(1) zero_neq_numeral)
    then show ?thesis by (simp add: algebra_simps eq_neg_iff_add_eq_0)
  qed
  have "m' (sp' + 8 * of_nat j) = rev (vs @ [v]) ! j" if "j < length (vs @ [v])" for j
  proof (cases j)
    case 0
    then show ?thesis by (simp add: s')
  next
    case (Suc i)
    then have "i < length vs" using that by simp
    then show ?thesis unfolding Suc shift using IH(2) ne by (simp add: s'(2))
  qed
  moreover have "m' a = m a" if a: "\<forall>j < length (vs @ [v]). a \<noteq> sp' + 8 * of_nat j" for a
  proof -
    have "a \<noteq> sp1 - 8" using a [rule_format, of 0] s'(1) by simp
    moreover have "\<forall>j < length vs. a \<noteq> sp1 + 8 * of_nat j" using a shift by (metis Suc_less_eq length_append_singleton)
    ultimately show ?thesis using IH(3) by (simp add: s'(2))
  qed
  moreover have "sp' = sp - 8 * of_nat (length (vs @ [v]))" unfolding s'(1) IH(1) by (simp add: algebra_simps)
  ultimately show ?case by blast
qed

lemma proc_report_frames [simp]:
  "process_table (proc_report p s) = process_table s" "kstack_mem (proc_report p s) = kstack_mem s"
  "next_pid (proc_report p s) = next_pid s" "regs (proc_report p s) = regs s" "sym (proc_report p s) = sym s"
  "current_process (proc_report p s) = current_process s" "process_list_head (proc_report p s) = process_list_head s"
  by (simp_all add: proc_report_def)

lemma upd_pcb_mm [simp]: "boot_pml4 (upd_pcb p f s) = boot_pml4 s"
  by (simp add: upd_pcb_def)

lemma boot_pml4_console [simp]: "boot_pml4 (console_puts cs s) = boot_pml4 s" "boot_pml4 (console_put_dec n s) = boot_pml4 s"
  by simp_all

lemma proc_create_spec:
  assumes "alloc_pcb s = Some idx" "boot_pml4 s \<noteq> 0"
  shows "\<exists>t. proc_create entry s = (Some idx, t) \<and>
    (let stack = sym s Sym_kernel_stacks + of_nat idx * KSTACK_SIZE; sp = stack + KSTACK_SIZE - 8 * 12;
         ctx = initial_context entry (sym s Sym_usermode_entry)
     in pcb t idx = \<lparr>pcb_pid = next_pid s, pcb_state = PROC_STATE_READY, pcb_rsp = sp, pcb_cr3 = boot_pml4 s,
          pcb_kernel_stack = stack, pcb_entry_point = entry, pcb_heap_start = USER_HEAP_START, pcb_brk = USER_HEAP_START,
          pcb_time_slice = 0, pcb_next = None\<rparr> \<and>
        (\<forall>q. q \<noteq> idx \<longrightarrow> pcb t q = pcb s q) \<and> length (process_table t) = length (process_table s) \<and>
        next_pid t = next_pid s + 1 \<and> regs t = regs s \<and> (\<forall>j < 12. kstack_mem t (sp + 8 * of_nat j) = rev ctx ! j) \<and>
        (\<forall>a. (\<forall>j < 12. a \<noteq> sp + 8 * of_nat j) \<longrightarrow> kstack_mem t a = kstack_mem s a) \<and>
        current_process t = current_process s \<and> process_list_head t = process_list_head s)"
proof -
  have lt: "idx < length (process_table s)" using find_unused_Some [of 0 "process_table s" idx] assms(1) by (simp add: alloc_pcb_def)
  let ?stack = "sym s Sym_kernel_stacks + of_nat idx * KSTACK_SIZE"
  let ?ctx = "initial_context entry (sym s Sym_usermode_entry)"
  have len: "length ?ctx = 12" by (simp add: initial_context_def)
  let ?sp = "?stack + KSTACK_SIZE - 8 * 12"
  obtain m where f: "fold push_word ?ctx (?stack + KSTACK_SIZE, kstack_mem s) = (?sp, m)"
    and m: "\<forall>j < 12. m (?sp + 8 * of_nat j) = rev ?ctx ! j" "\<forall>a. (\<forall>j < 12. a \<noteq> ?sp + 8 * of_nat j) \<longrightarrow> m a = kstack_mem s a"
  proof -
    obtain sp m where f: "fold push_word ?ctx (?stack + KSTACK_SIZE, kstack_mem s) = (sp, m)" by force
    from push_words [OF _ f, unfolded len] f that show ?thesis by auto
  qed
  show ?thesis using assms lt f m
    by (simp add: proc_create_def Let_def mm_create_user_pml4_def)
qed

text \<open>Two states that differ in the console alone still do after an update of the processes.\<close>

lemma console_proc_updates:
  fixes s t :: "'a proc_scheme"
  assumes "console.more t = console.more s"
  shows "console.more (t\<lparr>process_table := ps\<rparr>) = console.more (s\<lparr>process_table := ps\<rparr>)"
    "console.more (upd_pcb p f t) = console.more (upd_pcb p f s)"
    "console.more (t\<lparr>next_pid := n\<rparr>) = console.more (s\<lparr>next_pid := n\<rparr>)"
    "console.more (t\<lparr>kstack_mem := m\<rparr>) = console.more (s\<lparr>kstack_mem := m\<rparr>)"
  using assms by (cases s; cases t; simp add: upd_pcb_def)+

lemma proc_create_frame:
  assumes "alloc_pcb s = Some idx" "boot_pml4 s \<noteq> 0" "proc_create entry s = (Some idx, t)"
  shows "console.more t = console.more (s\<lparr>process_table := process_table t, next_pid := next_pid t, kstack_mem := kstack_mem t\<rparr>)"
proof -
  have report: "console.more (proc_report q u) = console.more u" for q and u :: "'a proc_scheme"
    by (simp add: proc_report_def)
  let ?puts = "console_puts '')\<newline>'' (console_put_dec (of_nat idx) (console_puts '' (slot ''
      (console_put_dec (ucast (next_pid s)) (console_puts ''[PROC] Creating PID='' s))))"
  obtain f g h p n m where "t = upd_pcb idx h (proc_report p (upd_pcb idx g ((upd_pcb idx f ?puts)\<lparr>next_pid := n, kstack_mem := m\<rparr>)))"
    using assms by (auto simp: proc_create_def Let_def split_def mm_create_user_pml4_def split: if_splits)
  then have "console.more t = console.more (upd_pcb idx h (upd_pcb idx g ((upd_pcb idx f s)\<lparr>next_pid := n, kstack_mem := m\<rparr>)))"
    by (simp only:) (intro console_proc_updates report [THEN trans], simp)
  then show ?thesis by (cases s; cases t; simp add: upd_pcb_def)
qed

text \<open>
  C23: \<^verbatim>\<open>proc_create\<close> takes the first unused slot of the table, gives the new process the next PID, its own
  kernel stack and an empty heap, and marks it ready.  From its stack pointer upwards lie the address
  of \<^verbatim>\<open>usermode_entry\<close>, six zero registers and the frame of \<^verbatim>\<open>iretq\<close>: the entry point, the user code
  selector, the flags with interrupts enabled, the user stack and the user data selector.  The other
  processes, the rest of the stacks and everything else the kernel keeps, apart from the console that
  reports the process, stay as they were.
\<close>

theorem proc_create_correct:
  assumes "alloc_pcb s = Some idx" "boot_pml4 s \<noteq> 0"
  shows "idx < length (process_table s) \<and> pcb_state (pcb s idx) = PROC_STATE_UNUSED \<and>
    (\<forall>q < idx. pcb_state (pcb s q) \<noteq> PROC_STATE_UNUSED) \<and>
    (\<exists>t. proc_create entry s = (Some idx, t) \<and>
    (let stack = sym s Sym_kernel_stacks + of_nat idx * KSTACK_SIZE; sp = stack + KSTACK_SIZE - 8 * 12;
         word = (\<lambda>j. kstack_mem t (sp + 8 * of_nat j))
     in process_table t = (process_table s)[idx :=
          \<lparr>pcb_pid = next_pid s, pcb_state = PROC_STATE_READY, pcb_rsp = sp, pcb_cr3 = boot_pml4 s,
           pcb_kernel_stack = stack, pcb_entry_point = entry, pcb_heap_start = USER_HEAP_START, pcb_brk = USER_HEAP_START,
           pcb_time_slice = 0, pcb_next = None\<rparr>] \<and>
        next_pid t = next_pid s + 1 \<and>
        word 0 = sym s Sym_usermode_entry \<and> (\<forall>j \<in> {1..6}. word j = 0) \<and>
        word 7 = entry \<and> word 8 = 0x23 \<and> word 9 = 0x202 \<and> word 10 = 0x7FFFF0000000 \<and> word 11 = 0x1B \<and>
        (\<forall>a. (\<forall>j < 12. a \<noteq> sp + 8 * of_nat j) \<longrightarrow> kstack_mem t a = kstack_mem s a) \<and>
        console.more t = console.more
          (s\<lparr>process_table := process_table t, next_pid := next_pid t, kstack_mem := kstack_mem t\<rparr>)))"
proof -
  let ?stack = "sym s Sym_kernel_stacks + of_nat idx * KSTACK_SIZE"
  let ?sp = "?stack + KSTACK_SIZE - 8 * 12"
  let ?p = "\<lparr>pcb_pid = next_pid s, pcb_state = PROC_STATE_READY, pcb_rsp = ?sp, pcb_cr3 = boot_pml4 s,
      pcb_kernel_stack = ?stack, pcb_entry_point = entry, pcb_heap_start = USER_HEAP_START, pcb_brk = USER_HEAP_START,
      pcb_time_slice = 0, pcb_next = None\<rparr>"
  from proc_create_spec [OF assms, of entry, unfolded Let_def] obtain t where t: "proc_create entry s = (Some idx, t)"
    and p: "pcb t idx = ?p" "\<forall>q. q \<noteq> idx \<longrightarrow> pcb t q = pcb s q" "length (process_table t) = length (process_table s)"
    and pid: "next_pid t = next_pid s + 1"
    and w: "\<forall>j < 12. kstack_mem t (?sp + 8 * of_nat j) = rev (initial_context entry (sym s Sym_usermode_entry)) ! j"
    and outside: "\<forall>a. (\<forall>j < 12. a \<noteq> ?sp + 8 * of_nat j) \<longrightarrow> kstack_mem t a = kstack_mem s a" by blast
  have unused: "idx < length (process_table s)" "pcb_state (pcb s idx) = PROC_STATE_UNUSED"
    "\<forall>q < idx. pcb_state (pcb s q) \<noteq> PROC_STATE_UNUSED"
    using find_unused_Some [of 0 "process_table s" idx] assms(1) by (simp_all add: alloc_pcb_def)
  have "process_table t = (process_table s)[idx := pcb t idx]"
    using p(2,3) unused(1) by (intro nth_equalityI) (auto simp: nth_list_update)
  then have table: "process_table t = (process_table s)[idx := ?p]" unfolding p(1) .
  define word where "word j = kstack_mem t (?sp + 8 * of_nat j)" for j :: nat
  have word: "word j = rev (initial_context entry (sym s Sym_usermode_entry)) ! j" if "j < 12" for j
    using w that unfolding word_def by blast
  have "{1..6 :: nat} = {1, 2, 3, 4, 5, 6}" by auto
  then have "\<forall>j \<in> {1..6}. word j = 0" by (simp add: word initial_context_def)
  moreover have "word 0 = sym s Sym_usermode_entry" "word 7 = entry" "word 8 = 0x23" "word 9 = 0x202"
    "word 10 = 0x7FFFF0000000" "word 11 = 0x1B"
    by (simp_all add: word initial_context_def)
  ultimately show ?thesis
    using unused t table pid outside proc_create_frame [OF assms t] unfolding word_def Let_def by blast
qed

lemma fresh_idt_fields [simp]:
  "process_table fresh_idt = replicate 64 pcb_zero" "next_pid fresh_idt = 1" "sym fresh_idt = (\<lambda>_. 0x110000)"
  "boot_pml4 fresh_idt = 0x101000" "regs fresh_idt = (\<lambda>_. 0x100000)" "current_process fresh_idt = None"
  "alloc_pcb fresh_idt = Some 0"
  by (simp_all add: fresh_idt_def sample_idt_mm alloc_pcb_def pcb_zero_def numeral_eq_Suc)

theorem proc_create_correct_witness:
  "\<exists>t. proc_create 0x200000 fresh_idt = (Some 0, t) \<and> pcb_pid (pcb t 0) = 1 \<and> pcb_state (pcb t 0) = PROC_STATE_READY"
proof -
  have "boot_pml4 fresh_idt \<noteq> 0" "length (process_table fresh_idt) = 64" by simp_all
  with proc_create_correct [of fresh_idt 0 "0x200000"] show ?thesis by (auto simp: Let_def)
qed

section \<open>The first context switch\<close>

lemma context_switch_pops:
  assumes "\<And>i j. i \<in> {1..6} \<Longrightarrow> j < 7 \<Longrightarrow> regs s RSP - 8 * of_nat i \<noteq> sp + 8 * of_nat j"
  shows "regs (context_switch old sp cr3 s) RIP = kstack_mem s (sp + 48)"
    "regs (context_switch old sp cr3 s) R15 = kstack_mem s sp"
    "regs (context_switch old sp cr3 s) RSP = sp + 56"
proof -
  have i: "{1..6 :: nat} = {1, 2, 3, 4, 5, 6}" by auto
  have ne: "regs s RSP - 8 \<noteq> sp + a" "regs s RSP - 16 \<noteq> sp + a" "regs s RSP - 24 \<noteq> sp + a" "regs s RSP - 32 \<noteq> sp + a"
    "regs s RSP - 40 \<noteq> sp + a" "regs s RSP - 48 \<noteq> sp + a" if "a \<in> {0, 48}" for a
    using that assms [of 1 0] assms [of 2 0] assms [of 3 0] assms [of 4 0] assms [of 5 0] assms [of 6 0]
      assms [of 1 6] assms [of 2 6] assms [of 3 6] assms [of 4 6] assms [of 5 6] assms [of 6 6]
    by (auto simp: i)
  note ne0 = ne [of 0, simplified] and ne48 = ne [of 48, simplified]
  show "regs (context_switch old sp cr3 s) RIP = kstack_mem s (sp + 48)"
    "regs (context_switch old sp cr3 s) R15 = kstack_mem s sp"
    "regs (context_switch old sp cr3 s) RSP = sp + 56"
    using ne0 [symmetric] ne48 [symmetric]
    by (auto simp: context_switch_def push_reg_def pop_reg_def Let_def algebra_simps split: option.splits)
qed

text \<open>
  C24: the frame that \<^verbatim>\<open>proc_create\<close> builds does not fit \<^verbatim>\<open>context_switch\<close>: the address of \<^verbatim>\<open>usermode_entry\<close> lies
  below the saved registers instead of above them, so the first switch to a process loads it into
  \<^verbatim>\<open>r15\<close> and returns to address 0.
\<close>

theorem first_switch_jumps_to_null:
  assumes "alloc_pcb s = Some idx" "boot_pml4 s \<noteq> 0" "proc_create entry s = (Some idx, t)"
    and "\<And>i j. i \<in> {1..6} \<Longrightarrow> j < 7 \<Longrightarrow> regs t RSP - 8 * of_nat i \<noteq> pcb_rsp (pcb t idx) + 8 * of_nat j"
  shows "regs (context_switch old (pcb_rsp (pcb t idx)) (pcb_cr3 (pcb t idx)) t) RIP = 0 \<and>
    regs (context_switch old (pcb_rsp (pcb t idx)) (pcb_cr3 (pcb t idx)) t) R15 = sym s Sym_usermode_entry"
proof -
  let ?sp = "pcb_rsp (pcb t idx)"
  have w: "\<forall>j < 12. kstack_mem t (?sp + 8 * of_nat j) = rev (initial_context entry (sym s Sym_usermode_entry)) ! j"
    using proc_create_spec [OF assms(1,2), of entry] assms(3) by (auto simp: Let_def)
  have "kstack_mem t (?sp + 48) = 0" "kstack_mem t ?sp = sym s Sym_usermode_entry"
    using w [rule_format, of 6] w [rule_format, of 0] by (simp_all add: initial_context_def)
  then show ?thesis using context_switch_pops [of t ?sp old "pcb_cr3 (pcb t idx)", OF assms(4)] by simp
qed

theorem first_switch_jumps_to_null_witness:
  "\<exists>t. proc_create 0x200000 fresh_idt = (Some 0, t) \<and>
    regs (context_switch None (pcb_rsp (pcb t 0)) (pcb_cr3 (pcb t 0)) t) RIP = 0"
proof -
  from proc_create_spec [of fresh_idt 0 "0x200000"] obtain t where
    t: "proc_create 0x200000 fresh_idt = (Some 0, t)" "pcb_rsp (pcb t 0) = 0x111FA0" "regs t RSP = 0x100000"
    by (auto simp: Let_def)
  have "regs t RSP - 8 * of_nat i \<noteq> pcb_rsp (pcb t 0) + 8 * of_nat j" if "i \<in> {1..6}" "j < 7" for i j
  proof -
    have "unat (0x100000 - 8 * of_nat i :: u64) \<le> 0x100000"
      using that by (subst unat_sub) (simp_all add: word_le_nat_alt unat_mult_small unat_of_nat_small)
    moreover have "unat (0x111FA0 + 8 * of_nat j :: u64) = 0x111FA0 + 8 * j"
      using that by (simp add: unat_add_small unat_mult_small unat_of_nat_small)
    ultimately have "unat (0x100000 - 8 * of_nat i :: u64) \<noteq> unat (0x111FA0 + 8 * of_nat j :: u64)" by simp
    then show ?thesis unfolding t(2,3) by metis
  qed
  from first_switch_jumps_to_null [OF _ _ t(1) this, of None] t(1) show ?thesis by auto
qed

section \<open>The scheduler without a current process\<close>

lemma keyboard_to_proc:
  fixes s t :: "'a idt_state_scheme"
  assumes "keyboard.more t = keyboard.more s"
  shows "process_table t = process_table s" "current_process t = current_process s" "process_list_head t = process_list_head s"
    "kstack_mem t = kstack_mem s"
  using assms by (cases s; cases t; simp)+

lemma pic_send_eoi_kbd: "keyboard.more (pic_send_eoi i s) = keyboard.more s"
  for s :: "'a idt_state_scheme"
  by (simp add: pic_send_eoi_def instruction_defs)

lemma irq_without_current:
  fixes s :: "'a idt_state_scheme"
  assumes "current_process s = None"
  shows "\<exists>t. irq_handler_with_switch rsp s = Some (rsp, t) \<and> keyboard.more t = keyboard.more s"
  using assms by (simp add: irq_handler_with_switch_def timer_irq_def Let_def pic_send_eoi_kbd)

text \<open>
  While there is no current process, no sequence of interrupts starts one: every interrupt returns to
  the code it interrupted, and neither the process table nor the list of processes changes.  The boot
  code leaves no current process and nothing calls \<^verbatim>\<open>schedule\<close>, so the created processes never run.
\<close>

theorem irqs_never_start_a_process:
  assumes "current_process s = None"
  shows "\<exists>t. irq_run rs s = Some t \<and> current_process t = None \<and> process_table t = process_table s \<and>
    process_list_head t = process_list_head s"
  using assms
proof (induction rs arbitrary: s)
  case (Cons r rs)
  from irq_without_current [OF Cons.prems, of r] obtain t where
    t: "irq_handler_with_switch r s = Some (r, t)" "keyboard.more t = keyboard.more s" by blast
  note f = keyboard_to_proc [OF t(2)]
  with Cons.IH [of t] Cons.prems t(1) show ?case by auto
qed simp

theorem irqs_never_start_a_process_witness:
  "\<exists>t. irq_run (replicate 100 0x5000) (sample_idt None) = Some t \<and> current_process t = None"
  using irqs_never_start_a_process [of "sample_idt None" "replicate 100 0x5000"] by auto

section \<open>The interrupt descriptor table\<close>

lemma masks: "(0xFFFF :: 'a::len word) = mask 16" "(0xFFFFFFFF :: 'a::len word) = mask 32" "(0xFF :: 'a::len word) = mask 8"
  by (simp_all add: mask_eq_exp_minus_1)

lemma gate_target_gate [simp]: "gate_target (gate h attr ist) = h"
  unfolding gate_target_def gate_def masks
  by (rule bit_word_eqI) (auto simp: bit_simps not_less less_diff_conv2 le_diff_conv, (rule ccontr, simp add: not_less)+)

lemma tss_base_descriptor [simp]: "tss_base (tss_descriptor b l) = b"
  unfolding tss_base_def tss_descriptor_def masks
  by (rule bit_word_eqI) (auto simp: bit_simps not_less less_diff_conv2 le_diff_conv, (rule ccontr, simp add: not_less)+)

lemma set_gates:
  fixes s :: "'a idt_state_scheme"
  assumes "length (idt s) = 256" "n \<le> 256"
  shows "let t = fold (\<lambda>i s. idt_set_gate (of_nat i) (sym s x) a b s) [0..<n] s
    in length (idt t) = 256 \<and> sym t = sym s \<and> (\<forall>v < 256. idt t ! v = (if v < n then gate (sym s x) a b else idt s ! v))"
  using assms(2)
proof (induction n)
  case 0
  then show ?case using assms(1) by simp
next
  case (Suc n)
  then have "unat (of_nat n :: u8) = n" by (intro unat_of_nat_small) simp
  then show ?case using Suc by (auto simp: Let_def idt_set_gate_def nth_list_update)
qed

lemma idt_emit [simp]: "idt (emit e s) = idt s" "sym (emit e s) = sym s" for s :: "'a idt_state_scheme"
  by (simp_all add: emit_def)

lemma idt_init_gates:
  assumes "length (idt s) = 256" "v < 256"
  shows "gate_target (idt (idt_init s) ! v) =
    sym s (if v = 32 then Sym_irq_stub_0 else if v = 33 then Sym_irq_stub_1 else Sym_isr_stub_0)"
proof -
  let ?s2 = "(console_puts ''[IDT] Initializing IDT...\<newline>'' s)\<lparr>idtr := \<lparr>idtr_limit = 4095, idtr_base = sym s Sym_idt\<rparr>\<rparr>"
  have "length (idt ?s2) = 256" using assms(1) by simp
  from set_gates [OF this order_refl, of Sym_isr_stub_0 IDT_INTERRUPT_GATE 0] assms(2) show ?thesis
    by (auto simp: idt_init_def Let_def idt_set_gate_def nth_list_update simp del: upt_rec_numeral)
qed

text \<open>
  C21: after \<^verbatim>\<open>idt_init\<close> the gates of the timer and the keyboard lead to their stubs and every other gate to
  \<^verbatim>\<open>isr_stub_0\<close>.  That stub pushes the number 0, so every exception, the page fault included, is reported
  as exception 0 and halts the machine: the code for page faults is never reached.
\<close>

theorem exceptions_all_halt:
  assumes "length (idt s) = 256" "v < 256" "v \<noteq> 32" "v \<noteq> 33" "length registers = 15"
  shows "gate_target (idt (idt_init s) ! v) = sym s Sym_isr_stub_0 \<and>
    (\<exists>t. exception_handler (decode_frame (isr_stub_0_frame registers pushed)) cr2 u = Halt t)"
  using idt_init_gates [OF assms(1,2)] assms(3-5)
  by (simp add: exception_handler_def decode_frame_def isr_stub_0_frame_def nth_append)

theorem exceptions_all_halt_witness:
  "gate_target (idt (idt_init (sample_idt None)) ! 14) = 0x110000 \<and>
    (\<exists>t. exception_handler (decode_frame (isr_stub_0_frame (replicate 15 0) [2, 0x200000, 0x23, 0x202, 0, 0x1B])) 0x500000 (sample_idt None) = Halt t)"
  using exceptions_all_halt [of "sample_idt None" 14 "replicate 15 0" "[2, 0x200000, 0x23, 0x202, 0, 0x1B]" "0x500000" "sample_idt None"]
  by simp

end
