(* ===== verification/Vfs.thy ===== *)
theory Vfs
  imports Idt
begin

text \<open>
  The console devices behind the file descriptors, \<^verbatim>\<open>drivers/vfs.c\<close>.  \<open>keys_ahead\<close> is what the
  environment will do: the scan codes that the keyboard delivers, in order, each when the processor
  waits in \<^verbatim>\<open>hlt\<close>.  Once they are used up the processor sleeps for good.  Timer interrupts
  that arrive in between are not part of it.
\<close>

record vfs = idt_state +
  keys_ahead :: "u8 list"

datatype read_fn = Console_read
datatype write_fn = Console_write
datatype open_fn = Console_open
datatype close_fn = Console_close
datatype ioctl_fn = Console_ioctl

record vfs_ops_t =
  op_read :: "read_fn option"
  op_write :: "write_fn option"
  op_open :: "open_fn option"
  op_close :: "close_fn option"
  op_ioctl :: "ioctl_fn option"

record vfs_node_t =
  node_name :: string
  node_type :: u32
  node_flags :: u32
  node_size :: u64
  node_inode :: u32
  node_ops :: "vfs_ops_t option"
  node_private_data :: u64
  node_parent :: u64
  node_children :: u64
  node_next :: u64

abbreviation (input) "VFS_CHARDEVICE \<equiv> (0x03 :: u32)"
abbreviation (input) "O_RDONLY \<equiv> (0x0000 :: u32)"
abbreviation (input) "O_WRONLY \<equiv> (0x0001 :: u32)"

section \<open>The console as a device\<close>

text \<open>The keyboard interrupt with the scan code that the controller hands over.\<close>

definition key_interrupt :: "u8 \<Rightarrow> 'a keyboard_scheme \<Rightarrow> 'a keyboard_scheme" where
  "key_interrupt scancode s = pic_send_eoi 1 (keyboard_handle_scancode scancode (emit (InB 0x60 scancode) s))"

text \<open>\<^verbatim>\<open>while (!keyboard_buffer_pop(&c)) hlt\<close>: with interrupts off nothing ends the \<^verbatim>\<open>hlt\<close>.\<close>

primrec wait_key :: "u8 list \<Rightarrow> 'a vfs_scheme \<Rightarrow> (char \<times> 'a vfs_scheme) option" where
  "wait_key [] s =
     (case keyboard_buffer_pop s of
        (Some c, s1) \<Rightarrow> Some (c, s1\<lparr>keys_ahead := []\<rparr>)
      | (None, s1) \<Rightarrow> None)"
| "wait_key (k # ks) s =
     (case keyboard_buffer_pop s of
        (Some c, s1) \<Rightarrow> Some (c, s1\<lparr>keys_ahead := k # ks\<rparr>)
      | (None, s1) \<Rightarrow> if iflag s1 then wait_key ks (key_interrupt k (emit Hlt s1)) else None)"

partial_function (option) console_read_loop ::
  "u64 \<Rightarrow> u64 \<Rightarrow> u64 \<Rightarrow> 'a vfs_scheme \<Rightarrow> (u64 \<times> 'a vfs_scheme) option" where
  "console_read_loop dst cnt n s =
     (if \<not> n < cnt then Some (n, s)
      else case wait_key (keys_ahead s) s of
             None \<Rightarrow> None
           | Some (c, s1) \<Rightarrow>
               if c = KEYCODE_UP then console_read_loop dst cnt n (console_scroll_up s1)
               else if c = KEYCODE_DOWN then console_read_loop dst cnt n (console_scroll_down s1)
               else if c = KEYCODE_LEFT \<or> c = KEYCODE_RIGHT then console_read_loop dst cnt n s1
               else (let s2 = s1\<lparr>mem := (mem s1)(dst + n := char_byte c)\<rparr>
                     in if c = CHR 0x0A then Some (n + 1, s2) else console_read_loop dst cnt (n + 1) s2))"

definition console_read ::
  "vfs_node_t \<Rightarrow> u64 \<Rightarrow> u64 \<Rightarrow> u64 \<Rightarrow> 'a vfs_scheme \<Rightarrow> (u64 \<times> 'a vfs_scheme) option" where
  "console_read node buf cnt offset s = console_read_loop buf cnt 0 s"

definition console_write ::
  "vfs_node_t \<Rightarrow> u64 \<Rightarrow> u64 \<Rightarrow> u64 \<Rightarrow> 'a memory_scheme \<Rightarrow> u64 \<times> 'a memory_scheme" where
  "console_write node buf cnt offset s =
     (cnt, fold (\<lambda>i s. console_putchar (byte_char (mem s (buf + of_nat i))) s) [0..<unat cnt] s)"

definition console_open :: "vfs_node_t \<Rightarrow> u32 \<Rightarrow> 's \<Rightarrow> i32 \<times> 's" where
  "console_open node flags s = (0, s)"

definition console_close :: "vfs_node_t \<Rightarrow> 's \<Rightarrow> i32 \<times> 's" where
  "console_close node s = (0, s)"

definition console_in_ops :: vfs_ops_t where
  "console_in_ops = \<lparr>op_read = Some Console_read, op_write = None, op_open = Some Console_open,
     op_close = Some Console_close, op_ioctl = None\<rparr>"

definition console_out_ops :: vfs_ops_t where
  "console_out_ops = \<lparr>op_read = None, op_write = Some Console_write, op_open = Some Console_open,
     op_close = Some Console_close, op_ioctl = None\<rparr>"

definition console_in_node :: vfs_node_t where
  "console_in_node = \<lparr>node_name = ''stdin'', node_type = VFS_CHARDEVICE, node_flags = O_RDONLY, node_size = 0,
     node_inode = 0, node_ops = Some console_in_ops, node_private_data = 0, node_parent = 0, node_children = 0,
     node_next = 0\<rparr>"

definition console_out_node :: vfs_node_t where
  "console_out_node = \<lparr>node_name = ''stdout'', node_type = VFS_CHARDEVICE, node_flags = O_WRONLY, node_size = 0,
     node_inode = 1, node_ops = Some console_out_ops, node_private_data = 0, node_parent = 0, node_children = 0,
     node_next = 0\<rparr>"

definition console_err_node :: vfs_node_t where
  "console_err_node = \<lparr>node_name = ''stderr'', node_type = VFS_CHARDEVICE, node_flags = O_WRONLY, node_size = 0,
     node_inode = 2, node_ops = Some console_out_ops, node_private_data = 0, node_parent = 0, node_children = 0,
     node_next = 0\<rparr>"

section \<open>The file interface\<close>

definition vfs_init :: "'a console_scheme \<Rightarrow> 'a console_scheme" where
  "vfs_init s =
     console_set_color VGA_WHITE VGA_BLACK (console_puts ''OK\<newline>'' (console_set_color VGA_LIGHT_GREEN VGA_BLACK
       (console_puts ''       Status: '' (console_puts ''[VFS] Initializing VFS (stdin/stdout/stderr)...\<newline>'' s))))"

text \<open>A \<^verbatim>\<open>vfs_node_t *\<close> is none when it is the null pointer.\<close>

definition node_op :: "(vfs_ops_t \<Rightarrow> 'f option) \<Rightarrow> vfs_node_t option \<Rightarrow> (vfs_node_t \<times> 'f) option" where
  "node_op sel node =
     (case node of
        None \<Rightarrow> None
      | Some n \<Rightarrow> (case node_ops n of
                      None \<Rightarrow> None
                    | Some ops \<Rightarrow> (case sel ops of None \<Rightarrow> None | Some f \<Rightarrow> Some (n, f))))"

definition vfs_read ::
  "vfs_node_t option \<Rightarrow> u64 \<Rightarrow> u64 \<Rightarrow> u64 \<Rightarrow> 'a vfs_scheme \<Rightarrow> (u64 \<times> 'a vfs_scheme) option" where
  "vfs_read node buf cnt offset s =
     (case node_op op_read node of
        None \<Rightarrow> Some (-1, s)
      | Some (n, Console_read) \<Rightarrow> console_read n buf cnt offset s)"

definition vfs_write ::
  "vfs_node_t option \<Rightarrow> u64 \<Rightarrow> u64 \<Rightarrow> u64 \<Rightarrow> 'a memory_scheme \<Rightarrow> u64 \<times> 'a memory_scheme" where
  "vfs_write node buf cnt offset s =
     (case node_op op_write node of
        None \<Rightarrow> (-1, s)
      | Some (n, Console_write) \<Rightarrow> console_write n buf cnt offset s)"

definition vfs_open :: "vfs_node_t option \<Rightarrow> u32 \<Rightarrow> 's \<Rightarrow> i32 \<times> 's" where
  "vfs_open node flags s =
     (case node_op op_open node of None \<Rightarrow> (-1, s) | Some (n, Console_open) \<Rightarrow> console_open n flags s)"

definition vfs_close :: "vfs_node_t option \<Rightarrow> 's \<Rightarrow> i32 \<times> 's" where
  "vfs_close node s =
     (case node_op op_close node of None \<Rightarrow> (-1, s) | Some (n, Console_close) \<Rightarrow> console_close n s)"

definition vfs_get_console_in :: "vfs_node_t option" where
  "vfs_get_console_in = Some console_in_node"

definition vfs_get_console_out :: "vfs_node_t option" where
  "vfs_get_console_out = Some console_out_node"

definition vfs_get_console_err :: "vfs_node_t option" where
  "vfs_get_console_err = Some console_err_node"

section \<open>Frames\<close>

lemma vfs_field_cong:
  fixes s t :: "'a vfs_scheme"
  assumes "idt_state.more t = idt_state.more s"
  shows "keys_ahead t = keys_ahead s" "vfs.more t = vfs.more s"
  using assms by (cases s; cases t; simp)+

lemmas vfs_idt_frames [simp] = idt_frames [THEN vfs_field_cong(1)] idt_frames [THEN vfs_field_cong(2)]

lemma key_interrupt_frame [simp]: "keyboard.more (key_interrupt k s) = keyboard.more s"
  by (simp add: key_interrupt_def pic_send_eoi_def)

lemma console_write_frame: "keyboard.more (snd (console_write node buf cnt off s)) = keyboard.more s"
proof -
  have "keyboard.more (fold (\<lambda>i s. console_putchar (byte_char (mem s (buf + of_nat i))) s) is s) = keyboard.more s"
    for "is" by (induction "is" arbitrary: s) simp_all
  then show ?thesis by (simp add: console_write_def)
qed

lemma vfs_write_frame: "keyboard.more (snd (vfs_write node buf cnt off s)) = keyboard.more s"
  by (auto simp: vfs_write_def console_write_frame split: option.splits write_fn.splits)

lemma vfs_init_frame [simp]: "console.more (vfs_init s) = console.more s"
  by (simp add: vfs_init_def)

lemmas vfs_frames = idt_frames [THEN vfs_field_cong(2)]

end
