(* ===== verification/Vfs_Props.thy ===== *)
theory Vfs_Props
  imports Vfs Idt_Props
begin

text \<open>
Correctness of \<^verbatim>\<open>drivers/vfs.c\<close>: what a read from the console delivers of the keys that are typed.
\<close>

section \<open>Specification\<close>

text \<open>What a program that reads the buffer empty between scan codes sees of them.\<close>

primrec key_stream :: "u8 list \<Rightarrow> kb_spec \<Rightarrow> string" where
  "key_stream [] a = []"
| "key_stream (k # ks) a =
     (let b = spec_scancode k (a\<lparr>typed := []\<rparr>) in typed b @ key_stream ks (b\<lparr>typed := []\<rparr>))"

definition input_stream :: "'a vfs_scheme \<Rightarrow> string" where
  "input_stream s = typed (kb_abs s) @ key_stream (keys_ahead s) (kb_abs s)"

definition arrow_key :: "char \<Rightarrow> bool" where
  "arrow_key c \<longleftrightarrow> c \<in> {CHR 0x80, CHR 0x81, CHR 0x82, CHR 0x83}"

text \<open>The first line of a stream, cut after \<open>n\<close> characters; none when the stream ends before.\<close>

fun read_line :: "nat \<Rightarrow> string \<Rightarrow> string option" where
  "read_line 0 cs = Some []"
| "read_line (Suc n) [] = None"
| "read_line (Suc n) (c # cs) = (if c = CHR 0x0A then Some [c] else map_option ((#) c) (read_line n cs))"

definition typing_vfs :: "u8 list \<Rightarrow> vfs" where
  "typing_vfs ks = idt_state.extend fresh_idt \<lparr>keys_ahead = ks\<rparr>"

section \<open>Waiting for a key\<close>

lemma pop_frame:
  "keyboard_buffer_pop s = (r, t) \<Longrightarrow> keyboard.more t = keyboard.more s \<and> iflag t = iflag s \<and>
     kb_abs t = (kb_abs s)\<lparr>typed := kb_queue (kb_buffer t)\<rparr>"
  using keyboard_op_frames(2) [of s] by (auto simp: keyboard_op_defs kb_abs_def split: if_splits)

lemma wait_pop:
  assumes "kb_ok (kb_buffer s)"
  shows "keyboard_buffer_pop s = (r, t) \<Longrightarrow> kb_ok (kb_buffer t) \<and> keyboard.more t = keyboard.more s \<and> iflag t = iflag s \<and>
     (case typed (kb_abs s) of [] \<Rightarrow> r = None \<and> kb_abs t = kb_abs s
      | c # cs \<Rightarrow> r = Some c \<and> kb_abs t = (kb_abs s)\<lparr>typed := cs\<rparr>)"
  using kb_ring.pop_law [OF assms] pop_frame [of s r t]
  by (auto split: list.splits) (simp_all add: kb_abs_def)

lemma key_stream_typed [simp]: "key_stream ks (a\<lparr>typed := cs\<rparr>) = key_stream ks a"
  by (cases ks) simp_all

lemma key_interrupt_abs:
  assumes "kb_ok (kb_buffer s)"
  shows "kb_ok (kb_buffer (key_interrupt k s)) \<and> kb_abs (key_interrupt k s) = spec_scancode k (kb_abs s)"
proof -
  let ?s = "emit (InB 0x60 k) s"
  have "kb_ok (kb_buffer ?s)" "kb_abs ?s = kb_abs s" using assms by (simp_all add: kb_abs_def)
  with handle_abs [of ?s k] show ?thesis
    by (simp add: key_interrupt_def pic_send_eoi_def kb_abs_def)
qed

lemma key_interrupt_iflag [simp]: "iflag (key_interrupt k s) = iflag s"
  by (simp add: key_interrupt_def pic_send_eoi_def)

lemma wait_key_stream:
  assumes "kb_ok (kb_buffer s)" "iflag s"
  shows "case typed (kb_abs s) @ key_stream ks (kb_abs s) of
      [] \<Rightarrow> wait_key ks s = None
    | c # cs \<Rightarrow> \<exists>t. wait_key ks s = Some (c, t) \<and> kb_ok (kb_buffer t) \<and> iflag t \<and> input_stream t = cs \<and> mem t = mem s"
  using assms
proof (induction ks arbitrary: s)
  case Nil
  obtain r t where p: "keyboard_buffer_pop s = (r, t)" by force
  note w = wait_pop [OF Nil.prems(1) p]
  have "mem t = mem s" using w memory_field_cong by blast
  with w p Nil.prems show ?case
    by (cases "typed (kb_abs s)") (auto simp: input_stream_def kb_abs_def)
next
  case (Cons k ks)
  obtain r t where p: "keyboard_buffer_pop s = (r, t)" by force
  note w = wait_pop [OF Cons.prems(1) p]
  have m: "mem t = mem s" using w memory_field_cong by blast
  show ?case
  proof (cases "typed (kb_abs s)")
    case Nil
    let ?u = "key_interrupt k (emit Hlt t)"
    have t: "kb_ok (kb_buffer (emit Hlt t))" "kb_abs (emit Hlt t) = kb_abs s"
      using w Nil by (simp_all add: kb_abs_def)
    note u = key_interrupt_abs [OF t(1), of k]
    have m': "mem ?u = mem s" using m memory_field_cong(1) [of ?u t] by simp
    have "(kb_abs s)\<lparr>typed := []\<rparr> = kb_abs s" using Nil by (simp add: kb_abs_def)
    then have "key_stream (k # ks) (kb_abs s) = typed (kb_abs ?u) @ key_stream ks (kb_abs ?u)"
      using u t by (simp add: Let_def)
    moreover have "wait_key (k # ks) s = wait_key ks ?u" using p w Nil Cons.prems by simp
    moreover have "iflag ?u" using w Cons.prems by simp
    ultimately show ?thesis using Cons.IH [of ?u] u m' Nil by (auto simp del: wait_key.simps key_stream.simps split: list.splits)
  next
    case (Cons c cs)
    with w p m Cons.prems show ?thesis by (auto simp: input_stream_def kb_abs_def)
  qed
qed

section \<open>Reading a line\<close>

lemma scroll_view_keeps:
  "kb_abs (console_scroll_up s) = kb_abs s" "kb_abs (console_scroll_down s) = kb_abs s"
  "iflag (console_scroll_up s) = iflag s" "iflag (console_scroll_down s) = iflag s"
  "mem (console_scroll_up m) = mem m" "mem (console_scroll_down m) = mem m"
  "input_stream (console_scroll_up v) = input_stream v" "input_stream (console_scroll_down v) = input_stream v"
  by (simp_all add: kb_abs_def input_stream_def) (simp_all add: console_scroll_up_def console_scroll_down_def)

lemma store_bytes_Cons: "store_bytes p (b # bs) m = store_bytes (p + 1) bs (m(p := b))"
  using store_bytes_append [of p "[b]" bs m] by (simp add: store_bytes_def [of p "[b]"])

lemma read_loop_step:
  assumes "kb_ok (kb_buffer s)" "iflag s" "input_stream s = c # cs" "n < cnt"
  obtains t where "wait_key (keys_ahead s) s = Some (c, t)" "kb_ok (kb_buffer t)" "iflag t" "input_stream t = cs"
    "mem t = mem s"
  using wait_key_stream [OF assms(1,2), of "keys_ahead s"] assms(3) by (auto simp: input_stream_def)

text \<open>The characters that reach the buffer: the arrow keys only scroll.\<close>

lemma console_read_loop_spec:
  assumes "n \<le> cnt" "kb_ok (kb_buffer s)" "iflag s"
  shows "case read_line (unat (cnt - n)) (filter (\<lambda>c. \<not> arrow_key c) (input_stream s)) of
      None \<Rightarrow> console_read_loop dst cnt n s = None
    | Some l \<Rightarrow> \<exists>t. console_read_loop dst cnt n s = Some (n + of_nat (length l), t) \<and>
        mem t = store_bytes (dst + n) (map char_byte l) (mem s)"
  using assms
proof (induction "input_stream s" arbitrary: s n)
  case Nil
  have "wait_key (keys_ahead s) s = None"
    using wait_key_stream [OF Nil.prems(2,3), of "keys_ahead s"] Nil.hyps by (simp add: input_stream_def)
  show ?case
  proof (cases "n < cnt")
    case True
    then have "unat (cnt - n) \<noteq> 0" by (simp add: unat_eq_zero)
    then obtain k where "unat (cnt - n) = Suc k" by (cases "unat (cnt - n)") auto
    with True \<open>wait_key (keys_ahead s) s = None\<close> Nil.hyps [symmetric] show ?thesis
      by (simp add: console_read_loop.simps)
  next
    case False
    then have "n = cnt" using Nil.prems(1) by simp
    then show ?thesis by (simp add: console_read_loop.simps [of dst cnt])
  qed
next
  case (Cons c cs)
  show ?case
  proof (cases "n < cnt")
    case False
    then have "n = cnt" using Cons.prems(1) by simp
    then show ?thesis by (simp add: console_read_loop.simps [of dst cnt])
  next
    case True
    then have "0 < unat (cnt - n)" by (simp add: unat_gt_0)
    with True have k: "unat (cnt - n) = Suc (unat (cnt - (n + 1)))" "n + 1 \<le> cnt"
      by (simp_all add: diff_diff_add [symmetric] unat_minus_one inc_le)
    obtain t where t: "wait_key (keys_ahead s) s = Some (c, t)" "kb_ok (kb_buffer t)" "iflag t" "input_stream t = cs"
      "mem t = mem s"
      by (rule read_loop_step [OF Cons.prems(2,3) Cons.hyps(2) [symmetric] True])
    let ?u = "t\<lparr>mem := (mem t)(dst + n := char_byte c)\<rparr>"
    note loop = console_read_loop.simps [of dst cnt n s] t(1) True
    show ?thesis
    proof (cases "arrow_key c")
      case True
      define u where "u = (if c = CHR 0x80 then console_scroll_up t else if c = CHR 0x81 then console_scroll_down t else t)"
      have "kb_ok (kb_buffer u)" "iflag u" "mem u = mem s" "cs = input_stream u"
        using t by (auto simp: u_def scroll_view_keeps)
      moreover have "console_read_loop dst cnt n s = console_read_loop dst cnt n u"
        using True loop by (auto simp: u_def arrow_key_def)
      ultimately show ?thesis
        using Cons.hyps(1) [of u n] Cons.prems(1) True Cons.hyps(2) [symmetric]
        by (simp split: option.splits)
    next
      case False
      have u: "kb_ok (kb_buffer ?u)" "iflag ?u" "cs = input_stream ?u"
        using t by (simp_all add: input_stream_def kb_abs_def)
      have "console_read_loop dst cnt n s =
          (if c = CHR 0x0A then Some (n + 1, ?u) else console_read_loop dst cnt (n + 1) ?u)"
        using False loop by (auto simp: arrow_key_def)
      then show ?thesis
        using Cons.hyps(1) [OF u(3) k(2) u(1,2)] False Cons.hyps(2) [symmetric] k(1) t(5) u(3) [unfolded t(5), symmetric]
        by (auto simp: store_bytes_Cons add.assoc split: option.splits)
    qed
  qed
qed

section \<open>What typing delivers\<close>

lemma press_delivers:
  assumes "typeable c" "\<not> shift a" "\<not> ctrl a" "\<not> caps a" "\<not> ext a"
  shows "spec_scancode (key_of c) (a\<lparr>typed := []\<rparr>) = a\<lparr>typed := [c]\<rparr>"
proof -
  note k = key_of_facts [OF assms(1)] stroke_codes [OF key_of_facts(2) [OF assms(1)]]
  have "glyph (key_of c) (a\<lparr>typed := []\<rparr>) = c" "c \<noteq> CHR 0x00"
    using assms k(1) by (simp_all add: glyph_def typeable_def)
  then show ?thesis
    using assms(2-) k by (simp add: spec_scancode_def spec_key_def spec_press_def enqueue_def)
qed

lemma release_delivers:
  assumes "typeable c" "\<not> ext a"
  shows "spec_scancode (key_of c OR 0x80) (a\<lparr>typed := []\<rparr>) = a\<lparr>typed := []\<rparr>"
proof -
  note k = key_of_facts [OF assms(1)] stroke_codes [OF key_of_facts(2) [OF assms(1)]]
  have "key_of c OR 0x80 \<noteq> 0xE0"
  proof
    assume "key_of c OR 0x80 = 0xE0"
    from k(7) [unfolded this] have "key_of c = 0x60" by simp
    then show False using k(1) assms(1) by (simp add: scancode_ascii_lower_def typeable_def)
  qed
  then show ?thesis using assms(2) k by (simp add: spec_scancode_def spec_key_def)
qed

lemma key_stream_strokes:
  assumes "\<forall>c \<in> set str. typeable c" "\<not> shift a" "\<not> ctrl a" "\<not> caps a" "\<not> ext a"
  shows "key_stream (strokes str @ ks) a = str @ key_stream ks a"
  using assms(1)
proof (induction str)
  case (Cons c cs)
  have "strokes (c # cs) @ ks = key_of c # (key_of c OR 0x80) # strokes cs @ ks" by (simp add: strokes_def)
  with Cons assms(2-) show ?case by (simp add: press_delivers release_delivers Let_def)
qed (simp add: strokes_def)

lemma key_stream_backspace:
  "\<not> ext a \<Longrightarrow> key_stream (0x0E # 0x8E # ks) a = key_stream ks a"
  by (simp add: spec_scancode_def spec_key_def spec_press_def rub_out_def Let_def)

lemma read_line_newline: "CHR 0x0A \<notin> set l \<Longrightarrow> length l < n \<Longrightarrow> read_line n (l @ CHR 0x0A # cs) = Some (l @ [CHR 0x0A])"
proof (induction l arbitrary: n)
  case Nil
  then show ?case by (cases n) simp_all
next
  case (Cons c l)
  then show ?case by (cases n) auto
qed

lemma console_read_line_spec:
  assumes "kb_ok (kb_buffer s)" "iflag s"
  shows "case read_line (unat cnt) (filter (\<lambda>c. \<not> arrow_key c) (input_stream s)) of
      None \<Rightarrow> vfs_read vfs_get_console_in buf cnt offset s = None
    | Some l \<Rightarrow> \<exists>t. vfs_read vfs_get_console_in buf cnt offset s = Some (of_nat (length l), t) \<and>
        mem t = store_bytes buf (map char_byte l) (mem s)"
  using console_read_loop_spec [of 0 cnt s buf] assms
  by (simp add: vfs_read_def vfs_get_console_in_def node_op_def console_in_node_def console_in_ops_def console_read_def
      split: option.splits)

lemma typing_vfs_fields [simp]:
  "kb_ok (kb_buffer (typing_vfs ks))" "iflag (typing_vfs ks)" "keys_ahead (typing_vfs ks) = ks"
  "kb_queue (kb_buffer (typing_vfs ks)) = []" "\<not> shift_pressed (typing_vfs ks)" "\<not> ctrl_pressed (typing_vfs ks)"
  "\<not> caps_lock (typing_vfs ks)" "\<not> extended_key (typing_vfs ks)"
  "kb_abs (typing_vfs ks) = \<lparr>typed = [], shift = False, ctrl = False, caps = False, ext = False\<rparr>"
  by (simp_all add: typing_vfs_def idt_state.defs fresh_idt_def sample_idt_def sample_vol_def sample_part_def vdisk_sample_def
      cold_memory_def cold_keyboard_def mesafs.defs tss_state.defs proc.defs partition.defs disk.defs memory.defs keyboard.defs
      mm.defs kb_ok_def kb_abs_def kb_queue_def marked_mm_def boot_mm_def kheap.defs
      sample_heap_def kheap_init_def Let_def console.defs cold_console_def)

text \<open>
  C25: a read from the console, with interrupts on, returns the first line of what is in the buffer
  and then typed, cut to the size of the caller's array; the arrow keys scroll the screen and are not
  part of it.  The bytes are stored in order at the caller's address and nowhere else.  When neither a
  newline nor enough characters come, the call does not return.
\<close>

theorem console_read_line:
  assumes "kb_ok (kb_buffer s)" "iflag s"
  shows "case read_line (unat cnt) (filter (\<lambda>c. \<not> arrow_key c) (input_stream s)) of
      None \<Rightarrow> vfs_read vfs_get_console_in buf cnt offset s = None
    | Some l \<Rightarrow> \<exists>t. vfs_read vfs_get_console_in buf cnt offset s = Some (of_nat (length l), t) \<and>
        mem t = store_bytes buf (map char_byte l) (mem s)"
  using console_read_line_spec [OF assms] .

theorem console_read_line_witness:
  "\<exists>t. vfs_read vfs_get_console_in 0x500000 256 0 (typing_vfs ([0xE0, 0x48] @ strokes [CHR ''l'', CHR ''s'', CHR 0x0A])) =
    Some (3, t) \<and> mem t 0x500001 = 0x73"
proof -
  let ?s = "typing_vfs ([0xE0, 0x48] @ strokes [CHR ''l'', CHR ''s'', CHR 0x0A])"
  have "input_stream ?s = CHR 0x80 # [CHR ''l'', CHR ''s'', CHR 0x0A]"
    using key_stream_strokes [of "[CHR ''l'', CHR ''s'', CHR 0x0A]" "(kb_abs ?s)\<lparr>typed := [CHR 0x80]\<rparr>" "[]"]
    by (simp add: input_stream_def spec_scancode_def spec_key_def arrow_def enqueue_def typeable_def
        scancode_ascii_lower_def)
  then have "read_line 256 (filter (\<lambda>c. \<not> arrow_key c) (input_stream ?s)) = Some [CHR ''l'', CHR ''s'', CHR 0x0A]"
    by (simp add: arrow_key_def numeral_eq_Suc)
  then obtain t where t: "vfs_read vfs_get_console_in 0x500000 256 0 ?s = Some (3, t)"
    "mem t = store_bytes 0x500000 (map char_byte [CHR ''l'', CHR ''s'', CHR 0x0A]) (mem ?s)"
    using console_read_line [of ?s "0x500000" 256 0] by (auto simp del: map_eq_Cons_conv)
  have "mem t 0x500001 = 0x73" by (simp add: t(2) store_bytes_Cons char_byte_def)
  with t(1) show ?thesis by blast
qed

text \<open>
  While a read waits, the backspace key erases nothing: every character has left the buffer by the
  time the key arrives, so a line typed with a correction is delivered with the character that was
  to be erased.
\<close>

theorem waiting_read_ignores_backspace:
  assumes "kb_ok (kb_buffer s)" "iflag s" "kb_queue (kb_buffer s) = []" "\<not> shift_pressed s" "\<not> ctrl_pressed s"
    "\<not> caps_lock s" "\<not> extended_key s" "\<forall>c \<in> set (l @ r). typeable c \<and> c \<noteq> CHR 0x0A"
    "keys_ahead s = strokes l @ [0x0E, 0x8E] @ strokes (r @ [CHR 0x0A])" "length (l @ r) < unat cnt"
  shows "\<exists>t. vfs_read vfs_get_console_in buf cnt offset s = Some (of_nat (length (l @ r @ [CHR 0x0A])), t) \<and>
    mem t = store_bytes buf (map char_byte (l @ r @ [CHR 0x0A])) (mem s)"
proof -
  let ?a = "kb_abs s"
  have a: "typed ?a = []" "\<not> shift ?a" "\<not> ctrl ?a" "\<not> caps ?a" "\<not> ext ?a" using assms by (simp_all add: kb_abs_def)
  have nl: "typeable (CHR 0x0A)" by (simp add: typeable_def scancode_ascii_lower_def)
  have "key_stream (strokes l @ 0x0E # 0x8E # strokes (r @ [CHR 0x0A])) ?a = l @ r @ [CHR 0x0A]"
    using key_stream_strokes [OF _ a(2-), of l] key_stream_strokes [OF _ a(2-), of "r @ [CHR 0x0A]" "[]"]
      key_stream_backspace [OF a(5)] assms(8) nl by simp
  then have "input_stream s = (l @ r) @ CHR 0x0A # []" by (simp add: input_stream_def a(1) assms(9))
  moreover have "\<not> arrow_key c" if "typeable c" for c
    using that by (auto simp: typeable_def arrow_key_def scancode_ascii_lower_def)
  ultimately have "filter (\<lambda>c. \<not> arrow_key c) (input_stream s) = (l @ r) @ CHR 0x0A # []"
    using assms(8) nl by (auto simp: filter_id_conv)
  moreover have "read_line (unat cnt) ((l @ r) @ CHR 0x0A # []) = Some ((l @ r) @ [CHR 0x0A])"
    using assms(8,10) by (intro read_line_newline) auto
  ultimately show ?thesis using console_read_line_spec [OF assms(1,2), of buf cnt offset] by simp
qed

theorem waiting_read_ignores_backspace_witness:
  "\<exists>t. vfs_read vfs_get_console_in 0x500000 256 0
      (typing_vfs (strokes ''lz'' @ [0x0E, 0x8E] @ strokes [CHR ''s'', CHR 0x0A])) = Some (4, t)"
  using waiting_read_ignores_backspace [of "typing_vfs (strokes ''lz'' @ [0x0E, 0x8E] @ strokes [CHR ''s'', CHR 0x0A])"
      "''lz''" "''s''" 256 "0x500000" 0]
  by (auto simp: typeable_def scancode_ascii_lower_def)

end
