(* ===== verification/Elf.thy ===== *)
theory Elf
  imports Vfs
begin

text \<open>
  The ELF loader, \<^verbatim>\<open>elf/elf.c\<close>.  The file lies in memory at an address; its structures are packed and
  read field by field.  Memory is kept by virtual address: that a page which is mapped anew shows
  another frame is not visible in \<open>mem\<close>, so that bytes which the loader does not store keep their
  value in the model.
\<close>

definition load_le :: "nat \<Rightarrow> u64 \<Rightarrow> (u64 \<Rightarrow> u8) \<Rightarrow> 'b::len word" where
  "load_le width a m = le_word (map (\<lambda>i. m (a + of_nat i)) [0..<width])"

record elf64_ehdr_t =
  e_ident :: "u8 list"
  e_type :: u16
  e_machine :: u16
  e_version :: u32
  e_entry :: u64
  e_phoff :: u64
  e_shoff :: u64
  e_flags :: u32
  e_ehsize :: u16
  e_phentsize :: u16
  e_phnum :: u16
  e_shentsize :: u16
  e_shnum :: u16
  e_shstrndx :: u16

record elf64_phdr_t =
  p_type :: u32
  p_flags :: u32
  p_offset :: u64
  p_vaddr :: u64
  p_paddr :: u64
  p_filesz :: u64
  p_memsz :: u64
  p_align :: u64

abbreviation (input) "ET_EXEC \<equiv> (2 :: u16)"
abbreviation (input) "EM_X86_64 \<equiv> (62 :: u16)"
abbreviation (input) "PT_LOAD \<equiv> (1 :: u32)"
abbreviation (input) "PF_W \<equiv> (2 :: u32)"

definition read_ehdr :: "u64 \<Rightarrow> (u64 \<Rightarrow> u8) \<Rightarrow> elf64_ehdr_t" where
  "read_ehdr a m = \<lparr>e_ident = map (\<lambda>i. m (a + of_nat i)) [0..<16], e_type = load_le 2 (a + 16) m,
     e_machine = load_le 2 (a + 18) m, e_version = load_le 4 (a + 20) m, e_entry = load_le 8 (a + 24) m,
     e_phoff = load_le 8 (a + 32) m, e_shoff = load_le 8 (a + 40) m, e_flags = load_le 4 (a + 48) m,
     e_ehsize = load_le 2 (a + 52) m, e_phentsize = load_le 2 (a + 54) m, e_phnum = load_le 2 (a + 56) m,
     e_shentsize = load_le 2 (a + 58) m, e_shnum = load_le 2 (a + 60) m, e_shstrndx = load_le 2 (a + 62) m\<rparr>"

definition read_phdr :: "u64 \<Rightarrow> (u64 \<Rightarrow> u8) \<Rightarrow> elf64_phdr_t" where
  "read_phdr a m = \<lparr>p_type = load_le 4 a m, p_flags = load_le 4 (a + 4) m, p_offset = load_le 8 (a + 8) m,
     p_vaddr = load_le 8 (a + 16) m, p_paddr = load_le 8 (a + 24) m, p_filesz = load_le 8 (a + 32) m,
     p_memsz = load_le 8 (a + 40) m, p_align = load_le 8 (a + 48) m\<rparr>"

definition elf_validate :: "u64 \<Rightarrow> 'a memory_scheme \<Rightarrow> bool" where
  "elf_validate ehdr s =
     (let h = read_ehdr ehdr (mem s)
      in if ehdr = 0 then False
         else if e_ident h ! 0 \<noteq> 0x7F \<or> e_ident h ! 1 \<noteq> 0x45 \<or> e_ident h ! 2 \<noteq> 0x4C \<or> e_ident h ! 3 \<noteq> 0x46 then False
         else if e_ident h ! 4 \<noteq> 2 then False
         else if e_type h \<noteq> ET_EXEC then False
         else if e_machine h \<noteq> EM_X86_64 then False
         else True)"

section \<open>One segment\<close>

text \<open>What the loader stores in a page that it has mapped.\<close>

definition zero_bytes :: "u64 \<Rightarrow> nat \<Rightarrow> nat \<Rightarrow> (u64 \<Rightarrow> u8) \<Rightarrow> (u64 \<Rightarrow> u8)" where
  "zero_bytes p i n m = fold (\<lambda>j m. m(p + of_nat j := 0)) [i..<n] m"

definition elf_fill_page ::
  "u64 \<Rightarrow> u64 \<Rightarrow> u64 \<Rightarrow> u64 \<Rightarrow> u64 \<Rightarrow> u64 \<Rightarrow> (u64 \<Rightarrow> u8) \<Rightarrow> (u64 \<Rightarrow> u8)" where
  "elf_fill_page data offset vaddr filesz memsz page_addr m =
     (if vaddr \<le> page_addr \<and> page_addr < vaddr + filesz
      then let copy_offset = page_addr - vaddr;
               copy_size = (if filesz < copy_offset + PAGE_SIZE then filesz - copy_offset else PAGE_SIZE);
               m1 = copy_bytes page_addr (data + offset + copy_offset) (unat copy_size) m
           in if copy_size < PAGE_SIZE \<and> filesz < memsz then zero_bytes page_addr (unat copy_size) 4096 m1 else m1
      else if page_addr < vaddr + memsz then zero_bytes page_addr 0 4096 m
      else m)"

text \<open>The loop over the pages of a segment: false when no page is left.\<close>

partial_function (option) elf_load_pages ::
  "u64 \<Rightarrow> u64 \<Rightarrow> u64 \<Rightarrow> elf64_phdr_t \<Rightarrow> u64 \<Rightarrow> u64 \<Rightarrow> 'a memory_scheme \<Rightarrow> (bool \<times> 'a memory_scheme) option" where
  "elf_load_pages pml4 data phdr ph page_addr end_page s =
     (if \<not> page_addr < end_page then Some (True, s)
      else case pmm_alloc_page s of (phys, s1) \<Rightarrow>
        if phys = 0 then Some (False, console_puts ''[ELF] Out of memory\<newline>'' s1)
        else (let flags = (if p_flags (read_phdr phdr (mem s1)) AND PF_W \<noteq> 0
                           then (PTE_PRESENT OR PTE_USER) OR PTE_WRITABLE else PTE_PRESENT OR PTE_USER);
                  s2 = mm_map_page pml4 page_addr phys flags s1;
                  s3 = s2\<lparr>mem := elf_fill_page data (p_offset ph) (p_vaddr ph) (p_filesz ph) (p_memsz ph) page_addr (mem s2)\<rparr>
              in elf_load_pages pml4 data phdr ph (page_addr + PAGE_SIZE) end_page s3))"

definition page_down :: "u64 \<Rightarrow> u64" where
  "page_down a = a AND NOT (PAGE_SIZE - 1)"

definition elf_load_segment ::
  "u64 \<Rightarrow> u64 \<Rightarrow> u64 \<Rightarrow> 'a memory_scheme \<Rightarrow> (bool \<times> 'a memory_scheme) option" where
  "elf_load_segment pml4 data phdr s =
     (let ph = read_phdr phdr (mem s);
          s1 = console_puts '' bytes)\<newline>'' (console_put_dec (p_memsz ph) (console_puts '' (''
                 (console_put_hex (p_vaddr ph) (console_puts ''[ELF] Loading segment at '' s))))
      in elf_load_pages pml4 data phdr ph (page_down (p_vaddr ph)) (page_down (p_vaddr ph + p_memsz ph + PAGE_SIZE - 1)) s1)"

section \<open>All segments\<close>

partial_function (option) elf_segments_loop ::
  "u64 \<Rightarrow> u64 \<Rightarrow> u64 \<Rightarrow> u64 \<Rightarrow> u16 \<Rightarrow> 'a memory_scheme \<Rightarrow> (bool \<times> 'a memory_scheme) option" where
  "elf_segments_loop pml4 ehdr data phdrs i s =
     (if \<not> i < e_phnum (read_ehdr ehdr (mem s)) then Some (True, s)
      else let phdr = phdrs + 56 * ucast i
           in if p_type (read_phdr phdr (mem s)) = PT_LOAD
              then case elf_load_segment pml4 data phdr s of
                     None \<Rightarrow> None
                   | Some (ok, s1) \<Rightarrow>
                       if ok then elf_segments_loop pml4 ehdr data phdrs (i + 1) s1 else Some (False, s1)
              else elf_segments_loop pml4 ehdr data phdrs (i + 1) s)"

text \<open>The result 0 comes with the value stored in \<^verbatim>\<open>*entry_point\<close>, none stands for the result -1.\<close>

definition elf_load_segments ::
  "u64 \<Rightarrow> u64 \<Rightarrow> nat option \<Rightarrow> 'a memory_scheme \<Rightarrow> (u64 option \<times> 'a memory_scheme) option" where
  "elf_load_segments ehdr file_data proc s =
     (if \<not> elf_validate ehdr s then Some (None, console_puts ''[ELF] Invalid ELF file\<newline>'' s)
      else if proc = None then Some (None, console_puts ''[ELF] No process provided\<newline>'' s)
      else let h = read_ehdr ehdr (mem s)
           in case elf_segments_loop (mm_get_kernel_pml4 s) ehdr file_data (file_data + e_phoff h) 0 s of
                None \<Rightarrow> None
              | Some (ok, s1) \<Rightarrow> Some (if ok then Some (e_entry h) else None, s1))"

end
