(* ===== verification/Range_Props.thy ===== *)
theory Range_Props
  imports Mm_Props
begin

text \<open>
Mapping a range of pages, the loop that \<^verbatim>\<open>sys_brk\<close>, \<^verbatim>\<open>sys_mmap\<close> and the ELF loader share: each page gets a
  frame of its own and the rest of the address space stays as it was.
\<close>

section \<open>Specification\<close>

text \<open>
  The pages from \<open>a\<close> on have been mapped, each to a frame of its own that was free, with flags that
  satisfy \<open>P\<close>, and nothing else of the mapping has changed.
\<close>

definition nth_page :: "u64 \<Rightarrow> nat \<Rightarrow> u64" where
  "nth_page a k = a + 0x1000 * of_nat k"

definition range_mapped ::
  "u64 \<Rightarrow> u64 \<Rightarrow> nat \<Rightarrow> (u64 \<Rightarrow> bool) \<Rightarrow> 'a mm_scheme \<Rightarrow> 'b mm_scheme \<Rightarrow> bool" where
  "range_mapped r a n P s t \<longleftrightarrow>
     (\<exists>frame flags. inj_on frame {..<n} \<and>
        (\<forall>k < n. frame k \<in> free_pages s - free_pages t \<and> P (flags k) \<and>
           flags k AND 0xFFF = flags k \<and>
           mapping (pmem t) r (nth_page a k) = (page_addr (frame k) OR flags k) OR PTE_PRESENT)) \<and>
     (\<forall>w. (\<forall>k < n. \<not> same_page (nth_page a k) w) \<longrightarrow> mapping (pmem t) r w = mapping (pmem s) r w)"

section \<open>Pages of a range\<close>

lemma same_page_bits:
  assumes "same_page v w" "12 \<le> n" "n < 48"
  shows "bit v n = bit w n"
proof -
  have idx: "(x AND 0x1FF :: u64) = take_bit 9 x" for x by (simp add: take_bit_eq_mask mask_eq_exp_minus_1)
  have eq: "take_bit 9 (drop_bit 39 v) = take_bit 9 (drop_bit 39 w)" "take_bit 9 (drop_bit 30 v) = take_bit 9 (drop_bit 30 w)"
    "take_bit 9 (drop_bit 21 v) = take_bit 9 (drop_bit 21 w)" "take_bit 9 (drop_bit 12 v) = take_bit 9 (drop_bit 12 w)"
    using assms(1) by (simp_all add: same_page_def vpath_def pml4_index_def pdpt_index_def pd_index_def pt_index_def idx)
  have b: "bit v (j + k) = bit w (j + k)" if "take_bit 9 (drop_bit j v) = take_bit 9 (drop_bit j w)" "k < 9" "j + k < 64" for j k
    using arg_cong [OF that(1), of "\<lambda>x. bit x k"] that(2,3) by (simp add: bit_simps)
  consider "39 \<le> n" | "30 \<le> n" "n < 39" | "21 \<le> n" "n < 30" | "n < 21" by linarith
  then show ?thesis
    using b [OF eq(1), of "n - 39"] b [OF eq(2), of "n - 30"] b [OF eq(3), of "n - 21"] b [OF eq(4), of "n - 12"] assms(2,3)
    by cases simp_all
qed

lemma same_page_aligned:
  assumes "same_page v w" "page_aligned v" "page_aligned w"
  shows "take_bit 48 v = take_bit 48 w"
proof (rule bit_word_eqI)
  fix n assume "n < LENGTH(64)"
  have "\<not> bit x n" if "page_aligned x" "n < 12" for x :: u64 and n
  proof -
    have "take_bit 12 x = 0" using that(1) by (simp add: page_aligned_def take_bit_eq_mask mask_eq_exp_minus_1)
    from arg_cong [OF this, of "\<lambda>y. bit y n"] that(2) show ?thesis by (simp add: bit_simps)
  qed
  with same_page_bits [OF assms(1), of n] assms(2,3) show "bit (take_bit 48 v) n = bit (take_bit 48 w) n"
    by (cases "n < 12") (auto simp: bit_simps)
qed

lemma page_aligned_nat: "page_aligned a \<longleftrightarrow> unat a mod 0x1000 = 0"
proof -
  have "unat (a AND 0xFFF) = unat a mod 2 ^ 12"
    using unat_take_bit_mod [of 12 a] by (simp add: take_bit_eq_mask mask_eq_exp_minus_1)
  then show ?thesis by (simp add: page_aligned_def unat_eq_0 [symmetric])
qed

lemma nth_page_0 [simp]: "nth_page a 0 = a"
  by (simp add: nth_page_def)

lemma nth_page_Suc: "nth_page a (Suc k) = nth_page a k + 0x1000"
  by (simp add: nth_page_def algebra_simps)

lemma unat_nth_page:
  assumes "unat a + 0x1000 * n < 2 ^ 64" "k \<le> n"
  shows "unat (nth_page a k) = unat a + 0x1000 * k"
proof -
  have "unat (0x1000 * of_nat k :: u64) = 0x1000 * k"
    using assms by (simp add: unat_word_ariths unat_of_nat)
  then show ?thesis using assms by (simp add: nth_page_def unat_add_small)
qed

lemma nth_page_aligned:
  assumes "page_aligned a" "unat a + 0x1000 * n < 2 ^ 64" "k \<le> n"
  shows "page_aligned (nth_page a k)"
  using assms unat_nth_page [OF assms(2,3)] by (simp add: page_aligned_nat mod_add_left_eq)

lemma nth_page_distinct:
  assumes "page_aligned a" "unat a + 0x1000 * n < 2 ^ 64" "j < n" "k < n" "n \<le> 0x8000" "same_page (nth_page a j) (nth_page a k)"
  shows "j = k"
proof -
  have al: "page_aligned (nth_page a j)" "page_aligned (nth_page a k)"
    using assms nth_page_aligned [OF assms(1,2)] by simp_all
  have "unat (take_bit 48 (nth_page a j)) = unat (take_bit 48 (nth_page a k))"
    using same_page_aligned [OF assms(6) al] by simp
  then have "(unat a + 0x1000 * j) mod 2 ^ 48 = (unat a + 0x1000 * k) mod 2 ^ 48"
    using assms unat_nth_page [OF assms(2)] by (simp add: unat_take_bit_mod)
  then have "(int (unat a) + 0x1000 * int j) mod 2 ^ 48 = (int (unat a) + 0x1000 * int k) mod 2 ^ 48"
    by (metis (mono_tags, opaque_lifting) of_nat_add of_nat_mult of_nat_mod of_nat_numeral of_nat_power)
  then have "2 ^ 48 dvd (int (unat a) + 0x1000 * int j) - (int (unat a) + 0x1000 * int k)"
    by (simp add: mod_eq_dvd_iff)
  then obtain q where "0x1000 * (int j - int k) = 2 ^ 48 * q" by (auto simp: algebra_simps)
  then have "int j - int k = 2 ^ 36 * q" by simp
  moreover have "\<bar>int j - int k\<bar> < 2 ^ 36" using assms by auto
  ultimately have "q = 0" by (cases "q = 0") (auto simp: abs_mult dest: zless_imp_add1_zle)
  with \<open>int j - int k = 2 ^ 36 * q\<close> show ?thesis by simp
qed

section \<open>One page more\<close>

lemma missing_le: "missing m r v \<le> 3"
  by (simp add: missing_eq)

lemma mapping_translate:
  assumes "mapping m r v = (phys OR f) OR PTE_PRESENT" "page_aligned phys" "unat phys < 2 ^ 52" "f AND 0xFFF = f" "page_aligned v"
  shows "translate m r v = Some phys"
proof -
  have "(phys OR f) OR PTE_PRESENT \<noteq> 0" using leaf_address(2) [OF assms(2-4)] by force
  with assms(1) obtain t where t: "table_at m r (vpath v) = Some t"
    by (auto simp: mapping_def entry_at_def split: option.splits)
  show ?thesis using translate_mapping [OF t] assms(1,5) leaf_address [OF assms(2-4)] by (simp add: page_aligned_def)
qed

lemma page_addr_facts: "i < 0x8000 \<Longrightarrow> page_aligned (page_addr i) \<and> unat (page_addr i) < 2 ^ 52"
  by (simp add: page_aligned_nat unat_page_addr)

lemma map_one_page:
  assumes "pt_ok r s" "page_aligned v" "no_huge (pmem s) r v" "4 \<le> card (free_pages s)" "f AND 0xFFF = f"
    and a: "pmm_alloc_page s = (phys, s1)" and t: "t = mm_map_page r v phys f s1"
  obtains i where "i \<in> free_pages s - free_pages t" "phys = page_addr i" "phys \<noteq> 0" "pt_ok r t" "grows r s t"
    "card (free_pages s) \<le> card (free_pages t) + 4"
    "\<And>w. mapping (pmem t) r w = (if same_page v w then (phys OR f) OR PTE_PRESENT else mapping (pmem s) r w)"
proof (rule that [of "Min (free_pages s)"])
  have ne: "free_pages s \<noteq> {}" using assms(4) by auto
  note p = pmm_alloc_pt [OF assms(1) ne a]
  have miss: "missing (pmem s) r v < card (free_pages s)" using missing_le [of "pmem s" r v] assms(4) by simp
  note m = alloc_map_page [OF assms(1-3) miss assms(5) a, folded t]
  show "phys = page_addr (Min (free_pages s))" "phys \<noteq> 0" "pt_ok r t" by (fact m)+
  show "mapping (pmem t) r w = (if same_page v w then (phys OR f) OR PTE_PRESENT else mapping (pmem s) r w)" for w
    using m(4) by blast
  show "card (free_pages s) \<le> card (free_pages t) + 4" using m(5) missing_le [of "pmem s" r v] by linarith
  have f1: "free_pages s1 = free_pages s - {Min (free_pages s)}" using pmm.alloc_least [OF ne] a by simp
  have "grows r s s1" using f1 p(2) by (auto simp: grows_def)
  moreover have "grows r s1 t"
    using mm_map_page_mapping [OF p(1) assms(2) p(5) _ t] assms(3) p(2) by simp
  ultimately show "grows r s t" by (rule grows_trans)
  show "Min (free_pages s) \<in> free_pages s - free_pages t"
    using f1 ne \<open>grows r s1 t\<close> by (auto simp: grows_def)
qed

lemma range_mapped_Nil: "pmem t = pmem s \<Longrightarrow> range_mapped r a 0 P s t"
  by (simp add: range_mapped_def)

lemma range_mapped_snoc:
  assumes m: "range_mapped r a n P s u" and g: "grows r s u" and ok: "pt_ok r u"
    and a: "page_aligned a" "unat a + 0x1000 * Suc n < 2 ^ 64" "Suc n \<le> 0x8000"
    and h: "no_huge (pmem u) r (nth_page a n)" "4 \<le> card (free_pages u)" "f AND 0xFFF = f" "P f"
    and al: "pmm_alloc_page u = (phys, u1)" and t: "t = mm_map_page r (nth_page a n) phys f u1"
  shows "range_mapped r a (Suc n) P s t \<and> grows r s t \<and> pt_ok r t \<and> card (free_pages u) \<le> card (free_pages t) + 4 \<and> phys \<noteq> 0"
proof -
  have v: "page_aligned (nth_page a n)" using nth_page_aligned [OF a(1,2)] by simp
  obtain i where i: "i \<in> free_pages u - free_pages t" "phys = page_addr i" "phys \<noteq> 0" "pt_ok r t" "grows r u t"
    "card (free_pages u) \<le> card (free_pages t) + 4"
    "\<And>w. mapping (pmem t) r w = (if same_page (nth_page a n) w then (phys OR f) OR PTE_PRESENT else mapping (pmem u) r w)"
    using map_one_page [OF ok v h(1-3) al t] by blast
  obtain frame flags where fr: "inj_on frame {..<n}"
    "\<forall>k < n. frame k \<in> free_pages s - free_pages u \<and> P (flags k) \<and> flags k AND 0xFFF = flags k \<and>
       mapping (pmem u) r (nth_page a k) = (page_addr (frame k) OR flags k) OR PTE_PRESENT"
    and other: "\<forall>w. (\<forall>k < n. \<not> same_page (nth_page a k) w) \<longrightarrow> mapping (pmem u) r w = mapping (pmem s) r w"
    using m by (auto simp: range_mapped_def)
  let ?frame = "frame(n := i)" and ?flags = "flags(n := f)"
  have "range_mapped r a (Suc n) P s t"
    unfolding range_mapped_def
  proof (intro conjI exI [of _ ?frame] exI [of _ ?flags] allI impI)
    have "i \<notin> frame ` {..<n}" using fr(2) i(1) by auto
    then show "inj_on ?frame {..<Suc n}" using fr(1) by (auto simp: lessThan_Suc inj_on_fun_updI)
  next
    fix k assume k: "k < Suc n"
    have sp: "same_page (nth_page a n) (nth_page a k) \<longleftrightarrow> k = n"
      using nth_page_distinct [OF a(1,2), of n k] k a(3) by (auto simp: same_page_def)
    show fk: "?frame k \<in> free_pages s - free_pages t"
      using k i(1,5) fr(2) g by (auto simp: less_Suc_eq grows_def)
    show "P (?flags k)" "?flags k AND 0xFFF = ?flags k" using k fr(2) h(3,4) by (auto simp: less_Suc_eq)
    show mk: "mapping (pmem t) r (nth_page a k) = (page_addr (?frame k) OR ?flags k) OR PTE_PRESENT"
      using k fr(2) i(2,7) sp by (auto simp: less_Suc_eq)
  next
    fix w assume "\<forall>k < Suc n. \<not> same_page (nth_page a k) w"
    then show "mapping (pmem t) r w = mapping (pmem s) r w" using i(7) other by simp
  qed
  with i grows_trans [OF g i(5)] show ?thesis by blast
qed

lemma range_mapped_translate:
  assumes "range_mapped r a n P s t" "page_aligned a" "unat a + 0x1000 * n < 2 ^ 64" "k < n"
  shows "\<exists>i \<in> free_pages s - free_pages t. translate (pmem t) r (nth_page a k) = Some (page_addr i)"
proof -
  obtain i f where i: "i \<in> free_pages s - free_pages t" "f AND 0xFFF = f"
    "mapping (pmem t) r (nth_page a k) = (page_addr i OR f) OR PTE_PRESENT"
    using assms(1,4) by (auto simp: range_mapped_def)
  then have "translate (pmem t) r (nth_page a k) = Some (page_addr i)"
    using page_addr_facts [of i] free_pages_bound [of i s] nth_page_aligned [OF assms(2,3), of k] assms(4)
    by (intro mapping_translate) auto
  with i(1) show ?thesis by blast
qed

lemma boot_heap_no_huge:
  assumes "boot_layout r" "0x400000 \<le> v" "v < 0x40000000"
  shows "no_huge (boot_paging r m) r v"
proof -
  have v: "unat v < 2 ^ 48" "unat v < 2 ^ 39" "unat v < 2 ^ 30" "2 ^ 22 \<le> unat v"
    using assms(2,3) by (simp_all add: word_less_nat_alt word_le_nat_alt)
  then have idx: "pml4_index v = 0" "pdpt_index v = 0" "pd_index v \<noteq> 0" "pd_index v \<noteq> 1" using low_index [of v] by simp_all
  have t: "table_at (boot_paging r m) r [] = Some r" "table_at (boot_paging r m) r [0] = Some (r + 0x1000)"
    "table_at (boot_paging r m) r [0, 0] = Some (r + 0x2000)"
    by (simp_all add: boot_tables [OF assms(1)] table_path_def)
  have e: "entry_at (boot_paging r m) r [] 0 AND PTE_HUGE = 0" "entry_at (boot_paging r m) r [0] 0 AND PTE_HUGE = 0"
    "entry_at (boot_paging r m) r [0, 0] (pd_index v) AND PTE_HUGE = 0"
    using boot_entries [OF assms(1), of 0 m] boot_entries(3) [OF assms(1), of "pd_index v" m] boot_links [OF assms(1)] idx
    by (simp_all add: entry_at_def t links_def)
  then show ?thesis unfolding no_huge_def vpath_def idx by (simp add: All_less_Suc numeral_3_eq_3)
qed

end
