(* ===== verification/Elf_Props.thy ===== *)
theory Elf_Props
  imports Elf Range_Props Vfs_Props
begin

text \<open>
Correctness of \<^verbatim>\<open>elf/elf.c\<close>: which bytes of a segment arrive in memory.
\<close>

section \<open>Specification\<close>

definition in_page :: "u64 \<Rightarrow> u64 \<Rightarrow> bool" where
  "in_page p x \<longleftrightarrow> unat p \<le> unat x \<and> unat x < unat p + 0x1000"

text \<open>The pages of a segment: the first one, and how many.\<close>

definition seg_start :: "elf64_phdr_t \<Rightarrow> u64" where
  "seg_start ph = page_down (p_vaddr ph)"

definition seg_pages :: "elf64_phdr_t \<Rightarrow> nat" where
  "seg_pages ph = (unat (p_vaddr ph) + unat (p_memsz ph) + 0xFFF) div 0x1000 - unat (p_vaddr ph) div 0x1000"

text \<open>A segment inside the address space, whose bytes in the file at \<open>src\<close> lie outside its pages.\<close>

definition seg_ok :: "u64 \<Rightarrow> elf64_phdr_t \<Rightarrow> bool" where
  "seg_ok data ph \<longleftrightarrow>
     unat (p_vaddr ph) + unat (p_memsz ph) + 0xFFF < 2 ^ 64 \<and> p_filesz ph \<le> p_memsz ph \<and>
     unat (data + p_offset ph) + unat (p_filesz ph) \<le> 2 ^ 64 \<and>
     (unat (data + p_offset ph) + unat (p_filesz ph) \<le> unat (seg_start ph) \<or>
      unat (seg_start ph) + 0x1000 * seg_pages ph \<le> unat (data + p_offset ph))"

definition seg_flags :: "u64 \<Rightarrow> bool" where
  "seg_flags f \<longleftrightarrow> f = PTE_PRESENT OR PTE_USER \<or> f = (PTE_PRESENT OR PTE_USER) OR PTE_WRITABLE"

definition phdr_bytes :: "u64 \<Rightarrow> u8 list" where
  "phdr_bytes v = le_bytes 4 (PT_LOAD) @ le_bytes 4 (6 :: u32) @ le_bytes 8 (0x1000 :: u64) @ le_bytes 8 v @
     le_bytes 8 (0 :: u64) @ le_bytes 8 (3 :: u64) @ le_bytes 8 (0x10 :: u64) @ le_bytes 8 (0x1000 :: u64)"

definition elf_sample :: "u64 \<Rightarrow> memory" where
  "elf_sample v = cold_memory\<lparr>mem := (\<lambda>a. if unat a < 56 then phdr_bytes v ! unat a else 0xAB)\<rparr>"

section \<open>Filling one page\<close>

lemma zero_bytes_at:
  assumes "unat p + 0x1000 \<le> 2 ^ 64" "j < 0x1000"
  shows "zero_bytes p i 0x1000 m (p + of_nat j) = (if i \<le> j then 0 else m (p + of_nat j))"
proof -
  have inj: "inj_on (\<lambda>i. p + of_nat i :: u64) A" if "A \<subseteq> {..<0x1000}" for A
    using inj_on_subset [OF inj_on_add_of_nat [where n = "0x1000" and b = p]] that by (simp add: lessThan_atLeast0)
  show ?thesis
  proof (cases "i \<le> j")
    case True
    with assms(2) fold_upd_hit [of j "[i..<0x1000]" "\<lambda>i. p + of_nat i" "\<lambda>_. 0" m] inj [of "set [i..<0x1000]"]
    show ?thesis by (simp add: zero_bytes_def subset_eq)
  next
    case False
    have "p + of_nat j \<notin> (\<lambda>i. p + of_nat i) ` set [i..<0x1000]"
    proof
      assume "p + of_nat j \<in> (\<lambda>i. p + of_nat i) ` set [i..<0x1000]"
      then obtain k where k: "p + of_nat j = p + of_nat k" "i \<le> k" "k < 0x1000" by auto
      from inj_onD [OF inj [OF subset_refl] k(1)] assms(2) k False show False by simp
    qed
    with False show ?thesis by (simp add: zero_bytes_def fold_upd_other)
  qed
qed

lemma in_page_offset:
  assumes "unat p + 0x1000 \<le> 2 ^ 64" "j < 0x1000"
  shows "unat (p + of_nat j) = unat p + j" "in_page p (p + of_nat j)"
  using assms by (simp_all add: in_page_def unat_offset)

lemma in_pageE:
  assumes "in_page p x" "unat p + 0x1000 \<le> 2 ^ 64"
  obtains j where "j < 0x1000" "x = p + of_nat j"
proof (rule that [of "unat x - unat p"])
  show "unat x - unat p < 0x1000" using assms(1) by (auto simp: in_page_def)
  with assms show "x = p + of_nat (unat x - unat p)"
    by (intro word_unat_eq_iff [THEN iffD2]) (simp add: in_page_offset(1) in_page_def)
qed

lemma copy_size_nat:
  fixes p v fs :: u64
  assumes "unat p + 0x1000 < 2 ^ 64" "unat v + unat fs < 2 ^ 64"
  shows "v \<le> p \<and> p < v + fs \<longleftrightarrow> unat v \<le> unat p \<and> unat p < unat v + unat fs"
    "v \<le> p \<Longrightarrow> unat (p - v) = unat p - unat v"
    "v \<le> p \<Longrightarrow> p < v + fs \<Longrightarrow>
       unat (if fs < (p - v) + 0x1000 then fs - (p - v) else 0x1000) = min 0x1000 (unat v + unat fs - unat p)"
proof -
  have vf: "unat (v + fs) = unat v + unat fs" using assms(2) by (simp add: unat_add_small)
  then show "v \<le> p \<and> p < v + fs \<longleftrightarrow> unat v \<le> unat p \<and> unat p < unat v + unat fs"
    by (simp add: word_le_nat_alt word_less_nat_alt)
  assume v: "v \<le> p"
  then show co: "unat (p - v) = unat p - unat v" by (simp add: unat_sub)
  have c4: "unat ((p - v) + 0x1000) = unat p - unat v + 0x1000" using assms(1) co by (simp add: unat_add_small)
  assume "p < v + fs"
  then have lt: "unat p < unat v + unat fs" using vf by (simp add: word_less_nat_alt)
  then have "p - v \<le> fs" using co v by (simp add: word_le_nat_alt)
  then have "unat (fs - (p - v)) = unat fs - (unat p - unat v)" using co by (simp add: unat_sub)
  with c4 lt v show "unat (if fs < (p - v) + 0x1000 then fs - (p - v) else 0x1000) = min 0x1000 (unat v + unat fs - unat p)"
    by (auto simp: word_less_nat_alt word_le_nat_alt)
qed

lemma elf_fill_cases:
  assumes "unat p + 0x1000 < 2 ^ 64" "unat v + unat fs < 2 ^ 64" "unat v + unat ms < 2 ^ 64"
  shows "elf_fill_page data off v fs ms p m =
    (if unat v \<le> unat p \<and> unat p < unat v + unat fs
     then let n = min 0x1000 (unat v + unat fs - unat p); m1 = copy_bytes p (data + off + (p - v)) n m
          in if n < 0x1000 \<and> fs < ms then zero_bytes p n 0x1000 m1 else m1
     else if unat p < unat v + unat ms then zero_bytes p 0 0x1000 m else m)"
proof -
  note c = copy_size_nat [OF assms(1,2)]
  have vm: "p < v + ms \<longleftrightarrow> unat p < unat v + unat ms" using assms(3) by (simp add: unat_add_small word_less_nat_alt)
  show ?thesis
  proof (cases "v \<le> p \<and> p < v + fs")
    case True
    let ?n = "if fs < (p - v) + 0x1000 then fs - (p - v) else 0x1000"
    have n: "unat ?n = min 0x1000 (unat v + unat fs - unat p)" "?n < 0x1000 \<longleftrightarrow> unat ?n < 0x1000"
      using c(3) True by (simp_all add: word_less_nat_alt)
    from True show ?thesis unfolding elf_fill_page_def Let_def n c(1) [symmetric] by (simp only: if_True simp_thms)
  next
    case False
    then show ?thesis unfolding elf_fill_page_def vm c(1) by (simp only: if_False)
  qed
qed

lemma elf_fill_outside:
  assumes "\<not> in_page p x" "unat p + 0x1000 < 2 ^ 64" "unat v + unat fs < 2 ^ 64" "unat v + unat ms < 2 ^ 64"
  shows "elf_fill_page data off v fs ms p m x = m x"
proof -
  have ne: "x \<noteq> p + of_nat j" if "j < 0x1000" for j using assms(1,2) in_page_offset(2) [OF _ that, of p] by auto
  have z: "zero_bytes p i 0x1000 m' x = m' x" for i m'
    unfolding zero_bytes_def using ne by (intro fold_upd_other) fastforce
  have c: "copy_bytes p src n m x = m x" if "n \<le> 0x1000" for src n m
    using ne that by (intro copy_bytes_outside) auto
  show ?thesis unfolding elf_fill_cases [OF assms(2-4)] using z c by (simp add: Let_def)
qed

lemma elf_fill_inside:
  assumes "unat p + 0x1000 < 2 ^ 64" "unat v + unat fs < 2 ^ 64" "unat v + unat ms < 2 ^ 64" "j < 0x1000"
    and src: "\<And>i. i < unat fs \<Longrightarrow> \<not> in_page p (data + off + of_nat i)"
    and byte: "unat v \<le> unat p + j" "unat p + j < unat v + unat ms"
  shows "elf_fill_page data off v fs ms p m (p + of_nat j) =
    (if unat v \<le> unat p \<and> unat p + j < unat v + unat fs then m (data + off + of_nat (unat p + j - unat v)) else 0)"
proof (cases "unat v \<le> unat p \<and> unat p < unat v + unat fs")
  case False
  then show ?thesis unfolding elf_fill_cases [OF assms(1-3)] using assms by (auto simp: zero_bytes_at)
next
  case True
  let ?n = "min 0x1000 (unat v + unat fs - unat p)" and ?src = "data + off + (p - v)"
  have src_i: "?src + of_nat i = data + off + of_nat (unat p + i - unat v)" for i
  proof -
    have "of_nat (unat (p - v)) = p - v" by simp
    moreover have "unat (p - v) = unat p - unat v" using True by (simp add: unat_sub word_le_nat_alt)
    ultimately have "p - v + of_nat i = of_nat (unat p - unat v + i)" by (simp add: of_nat_add)
    moreover have "unat p - unat v + i = unat p + i - unat v" using True by linarith
    ultimately show ?thesis by (simp add: add.assoc)
  qed
  have "copy_bytes p ?src ?n m (p + of_nat j) = m (?src + of_nat j)" if "j < ?n"
  proof (rule copy_bytes_spec [OF _ _ that])
    fix i k assume "i < ?n" "k < ?n"
    then have "\<not> in_page p (?src + of_nat k)" unfolding src_i using True by (intro src) linarith
    moreover have "in_page p (p + of_nat i)" using assms(1) \<open>i < ?n\<close> by (intro in_page_offset(2)) simp_all
    ultimately show "p + of_nat i \<noteq> ?src + of_nat k" by metis
  qed simp
  moreover have "fs < ms" if "\<not> j < ?n" using that True assms(4) byte(2) by (simp add: word_less_nat_alt)
  ultimately show ?thesis unfolding elf_fill_cases [OF assms(1-3)] Let_def src_i using True assms(1,4)
    by (auto simp: zero_bytes_at)
qed

section \<open>The pages of a segment\<close>

lemma page_down_nat: "unat (page_down a) = unat a div 0x1000 * 0x1000" "page_aligned (page_down a)"
proof -
  show "unat (page_down a) = unat a div 0x1000 * 0x1000"
    using unat_and_not_mask [of a 12] by (simp add: page_down_def mask_eq_exp_minus_1)
  then show "page_aligned (page_down a)" by (simp add: page_aligned_nat)
qed

lemma nth_pages_cover:
  assumes "unat a + 0x1000 * n < 2 ^ 64" "unat a \<le> unat x" "unat x < unat a + 0x1000 * n"
  obtains k where "k < n" "in_page (nth_page a k) x"
proof (rule that [of "(unat x - unat a) div 0x1000"])
  show "(unat x - unat a) div 0x1000 < n" using assms by (simp add: div_less_iff_less_mult mult.commute)
  then show "in_page (nth_page a ((unat x - unat a) div 0x1000)) x"
    using assms unat_nth_page [OF assms(1), of "(unat x - unat a) div 0x1000"] by (simp add: in_page_def) linarith
qed

lemma fills_outside:
  assumes "\<And>k. k \<in> set ks \<Longrightarrow> \<not> in_page (nth_page a k) x"
    and "\<And>k. k \<in> set ks \<Longrightarrow> unat (nth_page a k) + 0x1000 < 2 ^ 64"
    and "unat v + unat fs < 2 ^ 64" "unat v + unat ms < 2 ^ 64"
  shows "fold (\<lambda>k. elf_fill_page data off v fs ms (nth_page a k)) ks m x = m x"
  using assms by (intro fold_same [where g = "\<lambda>m. m x"]) (simp add: elf_fill_outside)

lemma fills_inside:
  assumes n: "unat a + 0x1000 * n < 2 ^ 64" and seg: "unat v + unat fs < 2 ^ 64" "unat v + unat ms < 2 ^ 64"
    and src: "\<And>i. i < unat fs \<Longrightarrow> unat (data + off + of_nat i) < unat a \<or> unat a + 0x1000 * n \<le> unat (data + off + of_nat i)"
    and k: "k < n" "j < 0x1000" "unat v \<le> unat (nth_page a k) + j" "unat (nth_page a k) + j < unat v + unat ms"
  shows "fold (\<lambda>k. elf_fill_page data off v fs ms (nth_page a k)) [0..<n] m (nth_page a k + of_nat j) =
    (if unat v \<le> unat (nth_page a k) \<and> unat (nth_page a k) + j < unat v + unat fs
     then m (data + off + of_nat (unat (nth_page a k) + j - unat v)) else 0)"
proof -
  let ?f = "\<lambda>k. elf_fill_page data off v fs ms (nth_page a k)" and ?x = "nth_page a k + of_nat j"
  have pg: "unat (nth_page a i) = unat a + 0x1000 * i" "unat (nth_page a i) + 0x1000 < 2 ^ 64" if "i < n" for i
    using unat_nth_page [OF n, of i] n that by simp_all
  have out: "\<not> in_page (nth_page a i) (data + off + of_nat q)" if "i < n" "q < unat fs" for i q
    using src [OF that(2)] pg(1) [OF that(1)] that by (auto simp: in_page_def)
  have x: "unat ?x = unat a + 0x1000 * k + j" using pg [OF k(1)] k(2) by (simp add: unat_offset)
  have "[0..<n] = [0..<k] @ k # [Suc k..<n]" using k(1) by (metis upt_add_eq_append upt_conv_Cons le_add_diff_inverse less_imp_le_nat zero_le)
  then have "fold ?f [0..<n] m ?x = fold ?f [Suc k..<n] (?f k (fold ?f [0..<k] m)) ?x" by simp
  also have "\<dots> = ?f k (fold ?f [0..<k] m) ?x"
    using x pg seg k(2) by (intro fills_outside) (auto simp: in_page_def)
  finally have eq: "fold ?f [0..<n] m ?x = ?f k (fold ?f [0..<k] m) ?x" .
  have fill: "?f k (fold ?f [0..<k] m) ?x = (if unat v \<le> unat (nth_page a k) \<and> unat (nth_page a k) + j < unat v + unat fs
     then fold ?f [0..<k] m (data + off + of_nat (unat (nth_page a k) + j - unat v)) else 0)"
    using pg [OF k(1)] seg k out by (intro elf_fill_inside) auto
  have "fold ?f [0..<k] m (data + off + of_nat q) = m (data + off + of_nat q)" if "q < unat fs" for q
    using out that pg seg k(1) by (intro fills_outside) auto
  from this [of "unat (nth_page a k) + j - unat v"]
  have keep: "fold ?f [0..<k] m (data + off + of_nat (unat (nth_page a k) + j - unat v)) =
      m (data + off + of_nat (unat (nth_page a k) + j - unat v))"
    if "unat v \<le> unat (nth_page a k)" "unat (nth_page a k) + j < unat v + unat fs"
    using that by linarith
  show ?thesis unfolding eq fill using keep by (intro if_cong refl) blast
qed

section \<open>Loading a segment\<close>

lemma upd_mem_mm [simp]:
  "free_pages (s\<lparr>mem := m\<rparr>) = free_pages s" "pt_ok r (s\<lparr>mem := m\<rparr>) = pt_ok r s" "grows r s0 (s\<lparr>mem := m\<rparr>) = grows r s0 s"
  "range_mapped r a n P s0 (s\<lparr>mem := m\<rparr>) = range_mapped r a n P s0 s"
  by (simp_all add: free_pages_def pt_ok_def grows_def range_mapped_def)

lemma elf_load_pages_run:
  assumes "range_mapped r a k seg_flags s0 s" "grows r s0 s" "pt_ok r s" "4 * n \<le> card (free_pages s)" "k + n \<le> 0x8000"
    and "page_aligned a" "unat a + 0x1000 * (k + n) < 2 ^ 64" "\<forall>j < k + n. no_huge (pmem s0) r (nth_page a j)"
  shows "\<exists>t. elf_load_pages r data phdr ph (nth_page a k) (nth_page a (k + n)) s = Some (True, t) \<and>
    mem t = fold (\<lambda>j. elf_fill_page data (p_offset ph) (p_vaddr ph) (p_filesz ph) (p_memsz ph) (nth_page a j)) [k..<k + n] (mem s) \<and>
    range_mapped r a (k + n) seg_flags s0 t \<and> pt_ok r t \<and> grows r s0 t"
  using assms(1-5,7,8)
proof (induction n arbitrary: k s)
  case 0
  then show ?case by (simp add: elf_load_pages.simps)
next
  case (Suc n)
  let ?v = "nth_page a k" and ?e = "nth_page a (k + Suc n)"
  let ?fill = "elf_fill_page data (p_offset ph) (p_vaddr ph) (p_filesz ph) (p_memsz ph) ?v"
  have lt: "?v < ?e"
    using unat_nth_page [OF Suc.prems(6), of k] unat_nth_page [OF Suc.prems(6), of "k + Suc n"] by (simp add: word_less_nat_alt)
  obtain phys s1 where al: "pmm_alloc_page s = (phys, s1)" by force
  define f where "f = (if p_flags (read_phdr phdr (mem s1)) AND PF_W \<noteq> 0
      then (PTE_PRESENT OR PTE_USER) OR PTE_WRITABLE else PTE_PRESENT OR PTE_USER)"
  have f: "seg_flags f" "f AND 0xFFF = f" by (auto simp: f_def seg_flags_def)
  define u where "u = mm_map_page r ?v phys f s1"
  let ?t = "u\<lparr>mem := ?fill (mem u)\<rparr>"
  have huge: "no_huge (pmem s) r ?v" using grows_huge [OF Suc.prems(2)] Suc.prems(7) by simp
  have bound: "unat a + 0x1000 * Suc k < 2 ^ 64" "Suc k \<le> 0x8000" "4 \<le> card (free_pages s)" using Suc.prems(4-6) by simp_all
  note step = range_mapped_snoc [OF Suc.prems(1-3) assms(6) bound(1,2) huge bound(3) f(2,1) al u_def]
  have "mem (snd (pmm_alloc_page s)) = mem s" by simp
  then have "mem s1 = mem s" by (simp only: al snd_conv)
  then have mem: "mem u = mem s" by (simp add: u_def)
  have unroll: "elf_load_pages r data phdr ph ?v ?e s = elf_load_pages r data phdr ph (nth_page a (Suc k)) (nth_page a (Suc k + n)) ?t"
    using step al lt by (subst elf_load_pages.simps) (simp add: nth_page_Suc f_def u_def Let_def)
  have "\<exists>t. elf_load_pages r data phdr ph (nth_page a (Suc k)) (nth_page a (Suc k + n)) ?t = Some (True, t) \<and>
      mem t = fold (\<lambda>j. elf_fill_page data (p_offset ph) (p_vaddr ph) (p_filesz ph) (p_memsz ph) (nth_page a j))
        [Suc k..<Suc k + n] (mem ?t) \<and> range_mapped r a (Suc k + n) seg_flags s0 t \<and> pt_ok r t \<and> grows r s0 t"
    using step Suc.prems(4-7) by (intro Suc.IH) simp_all
  moreover have "[k..<k + Suc n] = k # [Suc k..<Suc k + n]" by (simp add: upt_rec)
  ultimately show ?case unfolding unroll by (simp add: mem)
qed

lemma seg_pages_end:
  assumes "seg_ok data ph"
  shows "page_down (p_vaddr ph + p_memsz ph + PAGE_SIZE - 1) = nth_page (seg_start ph) (seg_pages ph)"
    "unat (seg_start ph) + 0x1000 * seg_pages ph = (unat (p_vaddr ph) + unat (p_memsz ph) + 0xFFF) div 0x1000 * 0x1000"
    "unat (seg_start ph) + 0x1000 * seg_pages ph < 2 ^ 64"
proof -
  let ?v = "unat (p_vaddr ph)" and ?m = "unat (p_memsz ph)"
  have b: "?v + ?m + 0xFFF < 2 ^ 64" using assms by (simp add: seg_ok_def)
  have start: "unat (seg_start ph) = ?v div 0x1000 * 0x1000" by (simp add: seg_start_def page_down_nat)
  have "?v div 0x1000 \<le> (?v + ?m + 0xFFF) div 0x1000" by (rule div_le_mono) simp
  then show e: "unat (seg_start ph) + 0x1000 * seg_pages ph = (?v + ?m + 0xFFF) div 0x1000 * 0x1000"
    by (simp add: start seg_pages_def algebra_simps)
  then show "unat (seg_start ph) + 0x1000 * seg_pages ph < 2 ^ 64"
    using b div_times_less_eq_dividend [of "?v + ?m + 0xFFF" "0x1000"] by linarith
  then have n: "unat (nth_page (seg_start ph) (seg_pages ph)) = (?v + ?m + 0xFFF) div 0x1000 * 0x1000"
    using unat_nth_page [of "seg_start ph" "seg_pages ph" "seg_pages ph"] e by simp
  have "p_vaddr ph + p_memsz ph + PAGE_SIZE - 1 = p_vaddr ph + p_memsz ph + 0xFFF" by simp
  moreover have "unat (p_vaddr ph + p_memsz ph + 0xFFF) = ?v + ?m + 0xFFF" using b by (simp add: unat_add_small)
  ultimately have "unat (p_vaddr ph + p_memsz ph + PAGE_SIZE - 1) = ?v + ?m + 0xFFF" by (simp only:)
  then show "page_down (p_vaddr ph + p_memsz ph + PAGE_SIZE - 1) = nth_page (seg_start ph) (seg_pages ph)"
    by (intro word_unat_eq_iff [THEN iffD2]) (simp only: page_down_nat n)
qed

lemma elf_load_segment_run:
  assumes "seg_ok data ph" "ph = read_phdr phdr (mem s)" "pt_ok r s" "4 * seg_pages ph \<le> card (free_pages s)"
    "\<forall>j < seg_pages ph. no_huge (pmem s) r (nth_page (seg_start ph) j)"
  shows "\<exists>t. elf_load_segment r data phdr s = Some (True, t) \<and>
    mem t = fold (\<lambda>j. elf_fill_page data (p_offset ph) (p_vaddr ph) (p_filesz ph) (p_memsz ph) (nth_page (seg_start ph) j))
      [0..<seg_pages ph] (mem s) \<and>
    range_mapped r (seg_start ph) (seg_pages ph) seg_flags s t \<and> pt_ok r t \<and> grows r s t"
proof -
  let ?s = "console_puts '' bytes)\<newline>'' (console_put_dec (p_memsz ph) (console_puts '' (''
      (console_put_hex (p_vaddr ph) (console_puts ''[ELF] Loading segment at '' s))))"
  have fr: "pmem ?s = pmem s" "free_pages ?s = free_pages s" "mem ?s = mem s" by (simp_all add: free_pages_def)
  have "card (free_pages s) \<le> card {..<0x8000::nat}" by (rule card_mono) (auto simp: free_pages_def)
  then have n: "0 + seg_pages ph \<le> 0x8000" using assms(4) by simp
  have "unat (seg_start ph) + 0x1000 * (0 + seg_pages ph) < 2 ^ 64" using seg_pages_end(3) [OF assms(1)] by simp
  note run = elf_load_pages_run [of r "seg_start ph" 0 s ?s "seg_pages ph", OF _ _ _ _ n _ this, of data phdr ph]
  have "elf_load_segment r data phdr s = elf_load_pages r data phdr ph (nth_page (seg_start ph) 0) (nth_page (seg_start ph) (0 + seg_pages ph)) ?s"
    unfolding elf_load_segment_def assms(2) [symmetric] seg_pages_end(1) [OF assms(1)] Let_def
    by (simp add: seg_start_def)
  then show ?thesis using run fr assms(3-5) pt_ok_cong [of ?s s r]
    by (simp add: range_mapped_Nil grows_same page_down_nat(2) seg_start_def)
qed

lemma seg_byte:
  assumes ok: "seg_ok data ph" and i: "i < unat (p_memsz ph)"
  defines "loaded \<equiv> unat (p_vaddr ph) = unat (seg_start ph) \<or> unat (seg_start ph) + 0x1000 \<le> unat (p_vaddr ph) + i"
  shows "fold (\<lambda>j. elf_fill_page data (p_offset ph) (p_vaddr ph) (p_filesz ph) (p_memsz ph) (nth_page (seg_start ph) j))
      [0..<seg_pages ph] m (p_vaddr ph + of_nat i) =
    (if loaded \<and> i < unat (p_filesz ph) then m (data + p_offset ph + of_nat i) else 0)"
proof -
  let ?v = "p_vaddr ph" and ?a = "seg_start ph" and ?n = "seg_pages ph" and ?x = "p_vaddr ph + of_nat i"
  have ok': "unat ?v + unat (p_memsz ph) + 0xFFF < 2 ^ 64" "unat (p_filesz ph) \<le> unat (p_memsz ph)"
    "unat (data + p_offset ph) + unat (p_filesz ph) \<le> 2 ^ 64"
    using ok by (simp_all add: seg_ok_def word_le_nat_alt)
  have start: "unat ?a \<le> unat ?v" "unat ?v < unat ?a + 0x1000" by (simp_all add: seg_start_def page_down_nat)
  have ux: "unat ?x = unat ?v + i" using ok'(1) i by (intro unat_offset) simp
  note e = seg_pages_end(2,3) [OF ok]
  have "unat ?x < unat ?a + 0x1000 * ?n" unfolding e(1) ux using i by simp
  then obtain k where k: "k < ?n" "in_page (nth_page ?a k) ?x"
    using nth_pages_cover [OF e(2), of ?x] start(1) ux by auto
  have uk: "unat (nth_page ?a k) = unat ?a + 0x1000 * k" using unat_nth_page [OF e(2)] k(1) by simp
  obtain j where j: "j < 0x1000" "?x = nth_page ?a k + of_nat j"
    using in_pageE [OF k(2)] uk k(1) e(2) by auto
  have uj: "unat (nth_page ?a k) + j = unat ?v + i"
    using j ux uk k(1) e(2) unat_offset [of "nth_page ?a k" j] by simp
  have "fold (\<lambda>j. elf_fill_page data (p_offset ph) ?v (p_filesz ph) (p_memsz ph) (nth_page ?a j)) [0..<?n] m (nth_page ?a k + of_nat j) =
    (if unat ?v \<le> unat (nth_page ?a k) \<and> unat (nth_page ?a k) + j < unat ?v + unat (p_filesz ph)
     then m (data + p_offset ph + of_nat (unat (nth_page ?a k) + j - unat ?v)) else 0)"
  proof (rule fills_inside [OF e(2) _ _ _ k(1) j(1)])
    fix q assume "q < unat (p_filesz ph)"
    then have "unat (data + p_offset ph + of_nat q) = unat (data + p_offset ph) + q"
      using ok'(3) by (intro unat_offset) simp
    with ok \<open>q < unat (p_filesz ph)\<close> show "unat (data + p_offset ph + of_nat q) < unat ?a \<or>
        unat ?a + 0x1000 * ?n \<le> unat (data + p_offset ph + of_nat q)"
      by (auto simp: seg_ok_def)
  qed (use ok' uj i in simp_all)
  moreover have "unat ?v \<le> unat (nth_page ?a k) \<longleftrightarrow> loaded"
    using uk uj j(1) start by (cases k) (auto simp: loaded_def)
  ultimately show ?thesis unfolding j(2) uj by simp
qed

lemma seg_outside:
  assumes ok: "seg_ok data ph" and x: "unat x < unat (seg_start ph) \<or> unat (seg_start ph) + 0x1000 * seg_pages ph \<le> unat x"
  shows "fold (\<lambda>j. elf_fill_page data (p_offset ph) (p_vaddr ph) (p_filesz ph) (p_memsz ph) (nth_page (seg_start ph) j))
      [0..<seg_pages ph] m x = m x"
proof (rule fills_outside)
  have "unat (p_filesz ph) \<le> unat (p_memsz ph)" "unat (p_vaddr ph) + unat (p_memsz ph) + 0xFFF < 2 ^ 64"
    using ok by (simp_all add: seg_ok_def word_le_nat_alt)
  then show "unat (p_vaddr ph) + unat (p_filesz ph) < 2 ^ 64" "unat (p_vaddr ph) + unat (p_memsz ph) < 2 ^ 64" by simp_all
  fix k assume "k \<in> set [0..<seg_pages ph]"
  then show "unat (nth_page (seg_start ph) k) + 0x1000 < 2 ^ 64" "\<not> in_page (nth_page (seg_start ph) k) x"
    using seg_pages_end(3) [OF ok] unat_nth_page [OF seg_pages_end(3) [OF ok], of k] x by (auto simp: in_page_def)
qed

section \<open>Properties\<close>

text \<open>
  C26: loading a segment whose address is page-aligned returns, when there are pages enough and no huge
  page is in the way: its bytes are those of the file, the rest up to its size in memory is zero,
  nothing outside its pages is stored to, and each of its pages is mapped to a frame of its own
  that was free before.
\<close>

theorem elf_segment_loaded:
  assumes "seg_ok data (read_phdr phdr (mem s))" "pt_ok r s" "page_aligned (p_vaddr (read_phdr phdr (mem s)))"
    "4 * seg_pages (read_phdr phdr (mem s)) \<le> card (free_pages s)"
    "\<forall>j < seg_pages (read_phdr phdr (mem s)). no_huge (pmem s) r (nth_page (seg_start (read_phdr phdr (mem s))) j)"
  shows "let ph = read_phdr phdr (mem s)
    in \<exists>t. elf_load_segment r data phdr s = Some (True, t) \<and>
      (\<forall>i < unat (p_memsz ph). mem t (p_vaddr ph + of_nat i) =
         (if i < unat (p_filesz ph) then mem s (data + p_offset ph + of_nat i) else 0)) \<and>
      (\<forall>x. unat x < unat (seg_start ph) \<or> unat (seg_start ph) + 0x1000 * seg_pages ph \<le> unat x \<longrightarrow> mem t x = mem s x) \<and>
      range_mapped r (seg_start ph) (seg_pages ph) seg_flags s t"
proof -
  let ?ph = "read_phdr phdr (mem s)"
  from elf_load_segment_run [OF assms(1) refl assms(2,4,5)] obtain t where
    t: "elf_load_segment r data phdr s = Some (True, t)"
      "mem t = fold (\<lambda>j. elf_fill_page data (p_offset ?ph) (p_vaddr ?ph) (p_filesz ?ph) (p_memsz ?ph) (nth_page (seg_start ?ph) j))
        [0..<seg_pages ?ph] (mem s)" "range_mapped r (seg_start ?ph) (seg_pages ?ph) seg_flags s t" by blast
  have "unat (p_vaddr ?ph) = unat (seg_start ?ph)"
    using assms(3) div_mult_mod_eq [of "unat (p_vaddr ?ph)" "0x1000"] by (simp add: seg_start_def page_down_nat page_aligned_nat)
  with t seg_byte [OF assms(1)] seg_outside [OF assms(1)] show ?thesis by (auto simp: Let_def)
qed

text \<open>
  When the address of a segment is not page-aligned, the loader stores zeros where the bytes of its
  first page should be: everything up to the next page boundary is lost.
\<close>

theorem elf_unaligned_first_page_zero:
  assumes "seg_ok data (read_phdr phdr (mem s))" "pt_ok r s" "\<not> page_aligned (p_vaddr (read_phdr phdr (mem s)))"
    "4 * seg_pages (read_phdr phdr (mem s)) \<le> card (free_pages s)"
    "\<forall>j < seg_pages (read_phdr phdr (mem s)). no_huge (pmem s) r (nth_page (seg_start (read_phdr phdr (mem s))) j)"
  shows "let ph = read_phdr phdr (mem s)
    in \<exists>t. elf_load_segment r data phdr s = Some (True, t) \<and>
      (\<forall>i < unat (p_memsz ph). mem t (p_vaddr ph + of_nat i) =
         (if unat (p_vaddr ph) mod 0x1000 + i < 0x1000 \<or> unat (p_filesz ph) \<le> i then 0
          else mem s (data + p_offset ph + of_nat i)))"
proof -
  let ?ph = "read_phdr phdr (mem s)"
  from elf_load_segment_run [OF assms(1) refl assms(2,4,5)] obtain t where
    t: "elf_load_segment r data phdr s = Some (True, t)"
      "mem t = fold (\<lambda>j. elf_fill_page data (p_offset ?ph) (p_vaddr ?ph) (p_filesz ?ph) (p_memsz ?ph) (nth_page (seg_start ?ph) j))
        [0..<seg_pages ?ph] (mem s)" by blast
  let ?v = "unat (p_vaddr ?ph)"
  have start: "unat (seg_start ?ph) + ?v mod 0x1000 = ?v" by (simp add: seg_start_def page_down_nat)
  then have "?v \<noteq> unat (seg_start ?ph)" "\<And>i. unat (seg_start ?ph) + 0x1000 \<le> ?v + i \<longleftrightarrow> \<not> ?v mod 0x1000 + i < 0x1000"
    using assms(3) by (auto simp: page_aligned_nat)
  with t seg_byte [OF assms(1)] show ?thesis by (auto simp: Let_def)
qed

lemma elf_sample_load:
  assumes "off + w \<le> 56"
  shows "load_le w (of_nat off) (mem (elf_sample v)) = le_word (take w (drop off (phdr_bytes v)))"
proof -
  have len: "length (phdr_bytes v) = 56" by (simp add: phdr_bytes_def)
  have "map (\<lambda>i. mem (elf_sample v) (of_nat off + of_nat i)) [0..<w] = take w (drop off (phdr_bytes v))"
    using assms len by (intro nth_equalityI) (simp_all add: elf_sample_def unat_of_nat_small flip: of_nat_add)
  then show ?thesis by (simp add: load_le_def)
qed

lemma elf_sample_phdr:
  "read_phdr 0 (mem (elf_sample v)) = \<lparr>p_type = 1, p_flags = 6, p_offset = 0x1000, p_vaddr = v, p_paddr = 0, p_filesz = 3,
     p_memsz = 0x10, p_align = 0x1000\<rparr>"
  using elf_sample_load [of 0 4 v, where 'a = 32] elf_sample_load [of 4 4 v, where 'a = 32]
    elf_sample_load [of 8 8 v, where 'a = 64] elf_sample_load [of 16 8 v, where 'a = 64]
    elf_sample_load [of 24 8 v, where 'a = 64] elf_sample_load [of 32 8 v, where 'a = 64]
    elf_sample_load [of 40 8 v, where 'a = 64] elf_sample_load [of 48 8 v, where 'a = 64]
  by (simp add: read_phdr_def) (simp add: phdr_bytes_def)

lemma elf_sample_mm: "pt_ok 0x101000 (elf_sample v)" "free_pages (elf_sample v) = pages_from 512" "pmem (elf_sample v) = pmem marked_mm"
proof -
  have "phys_bitmap (elf_sample v) = phys_bitmap marked_mm" "pmem (elf_sample v) = pmem marked_mm"
    by (simp_all add: elf_sample_def cold_memory_def cold_keyboard_def keyboard.defs mm.defs marked_mm_def)
  then show "pt_ok 0x101000 (elf_sample v)" "free_pages (elf_sample v) = pages_from 512" "pmem (elf_sample v) = pmem marked_mm"
    using marked_mm_ok marked_mm_free pt_ok_cong [of "elf_sample v" marked_mm] by (simp_all add: free_pages_def)
qed

lemma elf_sample_segment:
  assumes "v = 0x400000 \<or> v = 0x400001"
  shows "seg_ok 0x10000 (read_phdr 0 (mem (elf_sample v)))" "seg_pages (read_phdr 0 (mem (elf_sample v))) = 1"
    "4 * seg_pages (read_phdr 0 (mem (elf_sample v))) \<le> card (free_pages (elf_sample v))"
    "\<forall>j < seg_pages (read_phdr 0 (mem (elf_sample v))).
       no_huge (pmem (elf_sample v)) 0x101000 (nth_page (seg_start (read_phdr 0 (mem (elf_sample v)))) j)"
proof -
  let ?ph = "read_phdr 0 (mem (elf_sample v))"
  have start: "seg_start ?ph = 0x400000" using assms by (auto simp: elf_sample_phdr seg_start_def page_down_def)
  show pages: "seg_pages ?ph = 1" using assms by (auto simp: elf_sample_phdr seg_pages_def)
  show "seg_ok 0x10000 ?ph" using assms start pages by (auto simp: seg_ok_def elf_sample_phdr)
  show "4 * seg_pages ?ph \<le> card (free_pages (elf_sample v))" by (simp add: pages elf_sample_mm pages_from_facts)
  show "\<forall>j < seg_pages ?ph. no_huge (pmem (elf_sample v)) 0x101000 (nth_page (seg_start ?ph) j)"
    using boot_heap_no_huge [OF sample_layout, of "0x400000" "\<lambda>_. 0"] by (simp add: pages start elf_sample_mm marked_mm_def boot_mm_def kheap.defs)
qed

theorem elf_segment_loaded_witness:
  "\<exists>t. elf_load_segment 0x101000 0x10000 0 (elf_sample 0x400000) = Some (True, t) \<and> mem t 0x400002 = 0xAB \<and> mem t 0x400003 = 0"
proof -
  note e = elf_sample_segment [of "0x400000", simplified]
  obtain t where t: "elf_load_segment 0x101000 0x10000 0 (elf_sample 0x400000) = Some (True, t)"
    "\<forall>i < 0x10. mem t (0x400000 + of_nat i) = (if i < 3 then mem (elf_sample 0x400000) (0x11000 + of_nat i) else 0)"
    using elf_segment_loaded [OF e(1) elf_sample_mm(1) _ e(3,4)] by (auto simp: elf_sample_phdr Let_def page_aligned_def)
  from t(2) [rule_format, of 2] t(2) [rule_format, of 3] t(1) show ?thesis by (simp add: elf_sample_def)
qed

theorem elf_unaligned_first_page_zero_witness:
  "\<exists>t. elf_load_segment 0x101000 0x10000 0 (elf_sample 0x400001) = Some (True, t) \<and> mem t 0x400001 = 0 \<and>
     mem (elf_sample 0x400001) 0x11000 = 0xAB"
proof -
  note e = elf_sample_segment [of "0x400001", simplified]
  obtain t where t: "elf_load_segment 0x101000 0x10000 0 (elf_sample 0x400001) = Some (True, t)"
    "\<forall>i < 0x10. mem t (0x400001 + of_nat i) = (if 1 + i < 0x1000 \<or> 3 \<le> i then 0 else mem (elf_sample 0x400001) (0x11000 + of_nat i))"
    using elf_unaligned_first_page_zero [OF e(1) elf_sample_mm(1) _ e(3,4)] by (auto simp: elf_sample_phdr Let_def page_aligned_def)
  from t(2) [rule_format, of 0] t(1) show ?thesis by (simp add: elf_sample_def)
qed

end
