(* ===== verification/Syscall.thy ===== *)
theory Syscall
  imports Elf
begin

text \<open>
  The system calls, \<^verbatim>\<open>kernel/syscall.c\<close>.  Pointers are addresses in \<open>mem\<close>; \<open>local_at\<close> gives the addresses of
  the local variables whose address is passed on.  The message queues, \<^verbatim>\<open>ipc_send\<close>, \<^verbatim>\<open>ipc_receive\<close> and
  \<^verbatim>\<open>ipc_call\<close>, are declared in \<^verbatim>\<open>include/ipc.h\<close> but no file of the repository defines them: they are
  the parameter \<open>api\<close>.  \<open>None\<close> is a call that never returns; \<open>Halt\<close> is a call that ends in
  \<^verbatim>\<open>while (1) hlt\<close>.
\<close>

datatype kernel_local =
    L_write_kbuf | L_read_kbuf | L_file_kbuf | L_ipc_kbuf | L_kfrom | L_kreq | L_krep | L_c

record cpu_data_t =
  kernel_rsp :: u64
  user_rsp :: u64
  current_task :: u64

record syscalls = vfs +
  cpu_data :: cpu_data_t
  fake_time :: u64
  local_at :: "kernel_local \<Rightarrow> u64"

record 's ipc_api =
  ipc_init :: "'s \<Rightarrow> i32 \<times> 's"
  ipc_send :: "u32 \<Rightarrow> u64 \<Rightarrow> u64 \<Rightarrow> 's \<Rightarrow> (i32 \<times> 's) option"
  ipc_receive :: "u64 \<Rightarrow> u64 \<Rightarrow> u64 \<Rightarrow> 's \<Rightarrow> (i32 \<times> 's) option"
  ipc_call :: "u32 \<Rightarrow> u64 \<Rightarrow> u64 \<Rightarrow> u64 \<Rightarrow> u64 \<Rightarrow> 's \<Rightarrow> (i32 \<times> 's) option"

abbreviation (input) "MSR_STAR \<equiv> (0xC0000081 :: u32)"
abbreviation (input) "MSR_LSTAR \<equiv> (0xC0000082 :: u32)"
abbreviation (input) "MSR_SFMASK \<equiv> (0xC0000084 :: u32)"
abbreviation (input) "MSR_KERNEL_GSBASE \<equiv> (0xC0000102 :: u32)"
abbreviation (input) "USER_HEAP_MAX \<equiv> (0x20000000 :: u64)"
abbreviation (input) "IPC_MAX_MESSAGE_SIZE \<equiv> (256 :: u64)"
abbreviation (input) "IPC_ANY_PID \<equiv> (0xFFFFFFFF :: u32)"
abbreviation (input) "MAX_SYSCALLS \<equiv> (256 :: u64)"

definition wrmsr :: "u32 \<Rightarrow> u64 \<Rightarrow> 'a machine_scheme \<Rightarrow> 'a machine_scheme" where
  "wrmsr msr v s =
     (let low = v AND 0xFFFFFFFF; high = drop_bit 32 v in emit (WrMsr msr (push_bit 32 high OR low)) s)"

definition page_align_up :: "u64 \<Rightarrow> u64" where
  "page_align_up addr = (addr + PAGE_SIZE - 1) AND NOT (PAGE_SIZE - 1)"

definition page_align_down :: "u64 \<Rightarrow> u64" where
  "page_align_down addr = addr AND NOT (PAGE_SIZE - 1)"

section \<open>Reading and writing\<close>

definition sys_write :: "i32 \<Rightarrow> u64 \<Rightarrow> u64 \<Rightarrow> 'a syscalls_scheme \<Rightarrow> u64 \<times> 'a syscalls_scheme" where
  "sys_write fd buf cnt s =
     (if fd \<noteq> 1 \<and> fd \<noteq> 2 then (-1, s)
      else let node = (if fd = 1 then vfs_get_console_out else vfs_get_console_err)
           in if node = None then (-1, s)
              else let to_copy = (if 256 < cnt then 256 else cnt); kbuf = local_at s L_write_kbuf
                   in case validate_user_pointer buf to_copy s of (ok, s1) \<Rightarrow>
                        if \<not> ok then (-1, console_puts ''[sys_write] Invalid user pointer\<newline>'' s1)
                        else case copy_from_user kbuf buf to_copy s1 of (n, s2) \<Rightarrow>
                          if n \<noteq> to_copy then (-1, console_puts ''[sys_write] copy_from_user failed\<newline>'' s2)
                          else vfs_write node kbuf to_copy 0 s2)"

definition sys_read :: "i32 \<Rightarrow> u64 \<Rightarrow> u64 \<Rightarrow> 'a syscalls_scheme \<Rightarrow> (u64 \<times> 'a syscalls_scheme) option" where
  "sys_read fd buf cnt s =
     (if fd = 0
      then let node = vfs_get_console_in
           in if node = None then Some (-1, s)
              else let to_read = (if 256 < cnt then 256 else cnt); kbuf = local_at s L_read_kbuf
                   in case vfs_read node kbuf to_read 0 s of
                        None \<Rightarrow> None
                      | Some (n, s1) \<Rightarrow>
                          if sint n \<le> 0 then Some (n, s1)
                          else case validate_user_pointer buf n s1 of (ok, s2) \<Rightarrow>
                            if \<not> ok then Some (-1, console_puts ''[sys_read] Invalid user pointer (dst)\<newline>'' s2)
                            else Some (n, s2\<lparr>mem := copy_bytes buf kbuf (unat n) (mem s2)\<rparr>)
      else if 2 < sint fd
      then let fs = mesafs_get_mounted s
           in if fs = 0 then Some (-1, s)
              else let inode = fd; to_read = (if 512 < cnt then 512 else cnt); kbuf = local_at s L_file_kbuf
                   in case mesafs_read fs inode kbuf to_read 0 s of
                        None \<Rightarrow> None
                      | Some (read_result, s1) \<Rightarrow>
                          if sint read_result < 0 then Some (-1, s1)
                          else case validate_user_pointer buf (scast read_result) s1 of (ok, s2) \<Rightarrow>
                            if \<not> ok then Some (-1, s2)
                            else Some (scast read_result, s2\<lparr>mem := copy_bytes buf kbuf (unat read_result) (mem s2)\<rparr>)
      else Some (-1, s))"

section \<open>Memory\<close>

text \<open>The loop of \<^verbatim>\<open>sys_brk\<close> and \<^verbatim>\<open>sys_mmap\<close> over the pages; false when no physical page is left.\<close>

partial_function (option) map_user_pages :: "u64 \<Rightarrow> u64 \<Rightarrow> 'a mm_scheme \<Rightarrow> (bool \<times> 'a mm_scheme) option" where
  "map_user_pages addr stop s =
     (if \<not> addr < stop then Some (True, s)
      else case pmm_alloc_page s of (phys, s1) \<Rightarrow>
        if phys = 0 then Some (False, s1)
        else map_user_pages (addr + PAGE_SIZE) stop
               (mm_map_page (mm_get_kernel_pml4 s1) addr phys ((PTE_PRESENT OR PTE_WRITABLE) OR PTE_USER) s1))"

definition sys_brk :: "u64 \<Rightarrow> 'a syscalls_scheme \<Rightarrow> (u64 \<times> 'a syscalls_scheme) option" where
  "sys_brk new_brk s =
     (case proc_current s of
        None \<Rightarrow> Some (0, s)
      | Some p \<Rightarrow>
          (let old_brk = pcb_brk (pcb s p)
           in if new_brk = 0 then Some (old_brk, s)
              else if new_brk < pcb_heap_start (pcb s p) then Some (old_brk, s)
              else if USER_HEAP_MAX \<le> new_brk then Some (old_brk, s)
              else if KERNEL_VIRT_BASE \<le> new_brk then Some (old_brk, s)
              else if old_brk < new_brk
              then (case map_user_pages (page_align_up old_brk) (page_align_up new_brk) s of
                      None \<Rightarrow> None
                    | Some (ok, s1) \<Rightarrow>
                        if \<not> ok then Some (old_brk, console_puts ''[sys_brk] Out of physical memory\<newline>'' s1)
                        else Some (new_brk, upd_pcb p (\<lambda>b. b\<lparr>pcb_brk := new_brk\<rparr>) s1))
              else if new_brk < old_brk then Some (new_brk, upd_pcb p (\<lambda>b. b\<lparr>pcb_brk := new_brk\<rparr>) s)
              else Some (old_brk, s)))"

definition sys_mmap :: "u64 \<Rightarrow> u64 \<Rightarrow> i32 \<Rightarrow> i32 \<Rightarrow> 'a syscalls_scheme \<Rightarrow> (u64 \<times> 'a syscalls_scheme) option" where
  "sys_mmap addr len prot flags s =
     (case proc_current s of
        None \<Rightarrow> Some (-1, s)
      | Some p \<Rightarrow>
          (let start = page_align_up (if addr = 0 then pcb_brk (pcb s p) else addr);
               stop = page_align_up (start + len)
           in case map_user_pages start stop s of
                None \<Rightarrow> None
              | Some (ok, s1) \<Rightarrow> Some (if ok then start else -1, s1)))"

definition sys_munmap :: "u64 \<Rightarrow> u64 \<Rightarrow> 's \<Rightarrow> i32 \<times> 's" where
  "sys_munmap addr len s = (0, s)"

section \<open>Ending a process\<close>

definition sys_exit :: "i32 \<Rightarrow> 'a proc_scheme \<Rightarrow> ('r, 'a proc_scheme) outcome" where
  "sys_exit status s =
     Halt (emit Hlt (sti (kill_current (console_puts ''\<newline>'' (console_put_dec (scast status)
       (console_puts ''\<newline>[PROCESS] Exit with status: '' s))))))"

section \<open>Messages\<close>

definition sys_ipc_send ::
  "'a syscalls_scheme ipc_api \<Rightarrow> u32 \<Rightarrow> u64 \<Rightarrow> u64 \<Rightarrow> 'a syscalls_scheme \<Rightarrow> (u64 \<times> 'a syscalls_scheme) option" where
  "sys_ipc_send api to_pid data sz s =
     (case validate_user_pointer data sz s of (ok, s1) \<Rightarrow>
        if \<not> ok then Some (-1, s1)
        else let n = (if IPC_MAX_MESSAGE_SIZE < sz then IPC_MAX_MESSAGE_SIZE else sz); kbuf = local_at s1 L_ipc_kbuf
             in case copy_from_user kbuf data n s1 of (copied, s2) \<Rightarrow>
                  if copied \<noteq> n then Some (-1, s2)
                  else map_option (map_prod scast id) (ipc_send api to_pid kbuf n s2))"

definition sys_ipc_receive ::
  "'a syscalls_scheme ipc_api \<Rightarrow> u64 \<Rightarrow> u64 \<Rightarrow> u64 \<Rightarrow> 'a syscalls_scheme \<Rightarrow> (u64 \<times> 'a syscalls_scheme) option" where
  "sys_ipc_receive api from_pid data max_size s =
     (case (if from_pid \<noteq> 0 then validate_user_pointer from_pid 4 s else (True, s)) of (ok, s1) \<Rightarrow>
        if \<not> ok then Some (-1, s1)
        else case validate_user_pointer data max_size s1 of (ok, s2) \<Rightarrow>
          if \<not> ok then Some (-1, s2)
          else let kfrom = local_at s2 L_kfrom; kbuf = local_at s2 L_ipc_kbuf;
                   s3 = s2\<lparr>mem := store_bytes kfrom (le_bytes 4 IPC_ANY_PID) (mem s2)\<rparr>
               in case (if from_pid \<noteq> 0 then copy_from_user kfrom from_pid 4 s3 else (4, s3)) of (copied, s4) \<Rightarrow>
                    if copied \<noteq> 4 then Some (-1, s4)
                    else case ipc_receive api kfrom kbuf max_size s4 of
                           None \<Rightarrow> None
                         | Some (received, s5) \<Rightarrow>
                             if 0 < sint received
                             then (case copy_to_user data kbuf (scast received) s5 of (out, s6) \<Rightarrow>
                                     if out \<noteq> scast received then Some (-1, s6)
                                     else if from_pid \<noteq> 0
                                     then (case copy_to_user from_pid kfrom 4 s6 of (out, s7) \<Rightarrow>
                                             if out \<noteq> 4 then Some (-1, s7) else Some (scast received, s7))
                                     else Some (scast received, s6))
                             else Some (scast received, s5))"

definition sys_ipc_call ::
  "'a syscalls_scheme ipc_api \<Rightarrow> u32 \<Rightarrow> u64 \<Rightarrow> u64 \<Rightarrow> u64 \<Rightarrow> u64 \<Rightarrow> 'a syscalls_scheme \<Rightarrow>
     (u64 \<times> 'a syscalls_scheme) option" where
  "sys_ipc_call api to_pid request req_size reply reply_size s =
     (case validate_user_pointer request req_size s of (ok, s1) \<Rightarrow>
        if \<not> ok then Some (-1, s1)
        else case validate_user_pointer reply reply_size s1 of (ok, s2) \<Rightarrow>
          if \<not> ok then Some (-1, s2)
          else let req_n = (if IPC_MAX_MESSAGE_SIZE < req_size then IPC_MAX_MESSAGE_SIZE else req_size);
                   rep_n = (if IPC_MAX_MESSAGE_SIZE < reply_size then IPC_MAX_MESSAGE_SIZE else reply_size);
                   kreq = local_at s2 L_kreq; krep = local_at s2 L_krep
               in case copy_from_user kreq request req_n s2 of (copied, s3) \<Rightarrow>
                    if copied \<noteq> req_n then Some (-1, s3)
                    else case ipc_call api to_pid kreq req_n krep rep_n s3 of
                           None \<Rightarrow> None
                         | Some (result, s4) \<Rightarrow>
                             if 0 < sint result
                             then (case copy_to_user reply krep (scast result) s4 of (out, s5) \<Rightarrow>
                                     if out \<noteq> scast result then Some (-1, s5) else Some (scast result, s5))
                             else Some (scast result, s4))"

section \<open>Files\<close>

text \<open>
  The loop that copies a path: at most \<open>n\<close> bytes from \<open>p\<close> on, one at a time through the local
  variable \<^verbatim>\<open>c\<close>.  The result is the string in \<^verbatim>\<open>kpath\<close>, none when a copy fails.
\<close>

primrec copy_path :: "nat \<Rightarrow> u64 \<Rightarrow> 'a syscalls_scheme \<Rightarrow> u8 list option \<times> 'a syscalls_scheme" where
  "copy_path 0 p s = (Some [], s)"
| "copy_path (Suc n) p s =
     (case copy_from_user (local_at s L_c) p 1 s of (copied, s1) \<Rightarrow>
        if copied \<noteq> 1 then (None, s1)
        else let c = mem s1 (local_at s1 L_c)
             in if c = 0 then (Some [], s1)
                else case copy_path n (p + 1) s1 of (r, s2) \<Rightarrow> (map_option ((#) c) r, s2))"

definition sys_open :: "u64 \<Rightarrow> i32 \<Rightarrow> 'a syscalls_scheme \<Rightarrow> (i32 \<times> 'a syscalls_scheme) option" where
  "sys_open path flags s =
     (case validate_user_pointer path 256 s of (ok, s1) \<Rightarrow>
        if \<not> ok then Some (-1, s1)
        else case copy_path 255 path s1 of
               (None, s2) \<Rightarrow> Some (-1, s2)
             | (Some kpath, s2) \<Rightarrow>
                 let fs = mesafs_get_mounted s2
                 in if fs = 0 then Some (-1, s2)
                    else case mesafs_find_file fs kpath s2 of
                           None \<Rightarrow> None
                         | Some (inode, s3) \<Rightarrow> Some (if inode = 0 then -1 else inode, s3))"

definition sys_close :: "i32 \<Rightarrow> 's \<Rightarrow> i32 \<times> 's" where
  "sys_close fd s = (0, s)"

text \<open>
  The entries lie in an array on the stack; a name longer than its 58 bytes is read on into the bytes
  that follow.  \<open>beyond\<close> is what the stack holds behind the entries that were listed.
\<close>

definition dirent_bytes :: "mesafs_dirent_t \<Rightarrow> u8 list" where
  "dirent_bytes e = le_bytes 4 (de_inode e) @ [de_type e] @ [de_name_len e] @ de_name e"

fun readdir_fill :: "u8 list \<Rightarrow> nat \<Rightarrow> mesafs_dirent_t list \<Rightarrow> int \<Rightarrow> u8 list \<Rightarrow> u8 list" where
  "readdir_fill arr i [] sz out = out"
| "readdir_fill arr i (e # es) sz out =
     (if int (length out) < sz - 1
      then let name = take (unat (de_name_len e)) (drop (64 * i + 6) arr);
               out1 = out @ take (nat (sz - 2 - int (length out))) name;
               out2 = (if int (length out1) < sz - 1 then out1 @ [0x0A] else out1)
           in readdir_fill arr (Suc i) es sz out2
      else out)"

definition sys_readdir :: "u64 \<Rightarrow> u64 \<Rightarrow> u64 \<Rightarrow> 'a syscalls_scheme \<Rightarrow> (i32 \<times> 'a syscalls_scheme) option" where
  "sys_readdir path buf buffer_size s =
     (case validate_user_pointer path 256 s of (ok, s1) \<Rightarrow>
        if \<not> ok then Some (-1, s1)
        else case validate_user_pointer buf buffer_size s1 of (ok, s2) \<Rightarrow>
          if \<not> ok then Some (-1, s2)
          else case copy_path 255 path s2 of
                 (None, s3) \<Rightarrow> Some (-1, s3)
               | (Some kpath, s3) \<Rightarrow>
                   let fs = mesafs_get_mounted s3
                   in if fs = 0 then Some (-1, s3)
                      else case mesafs_find_file fs kpath s3 of
                             None \<Rightarrow> None
                           | Some (dir_inode, s4) \<Rightarrow>
                               if dir_inode = 0 then Some (-1, s4)
                               else case mesafs_list_dir fs dir_inode 64 s4 of
                                      None \<Rightarrow> None
                                    | Some ((found, entries), s5) \<Rightarrow>
                                        if sint found < 0 then Some (-1, s5)
                                        else case stack_bytes 4352 s5 of (beyond, s6) \<Rightarrow>
                                          let sz = sint (ucast buffer_size :: i32);
                                              arr = concat (map dirent_bytes entries) @ beyond;
                                              out = readdir_fill arr 0 entries sz [];
                                              m = store_bytes buf (if int (length out) < sz then out @ [0] else out) (mem s6)
                                          in Some (of_nat (length out), s6\<lparr>mem := m\<rparr>))"

section \<open>Executing a file\<close>

text \<open>The words of \<^verbatim>\<open>argv\<close> are read from memory without any check until one of them is null.\<close>

partial_function (option) count_args :: "(u64 \<Rightarrow> u8) \<Rightarrow> u64 \<Rightarrow> i32 \<Rightarrow> i32 option" where
  "count_args m arg_ptr argc =
     (if load_le 8 arg_ptr m = (0 :: u64) then Some argc else count_args m (arg_ptr + 8) (argc + 1))"

text \<open>The loop over \<^verbatim>\<open>argv\<close>: false when a pointer is refused.\<close>

fun validate_args :: "u64 \<Rightarrow> nat list \<Rightarrow> 'a memory_scheme \<Rightarrow> bool \<times> 'a memory_scheme" where
  "validate_args argv [] s = (True, s)"
| "validate_args argv (i # is) s =
     (case validate_user_pointer (load_le 8 (argv + 8 * of_nat i) (mem s)) 256 s of (ok, s1) \<Rightarrow>
        if ok then validate_args argv is s1 else (False, s1))"

definition exec_args :: "u64 \<Rightarrow> 'a memory_scheme \<Rightarrow> (bool \<times> 'a memory_scheme) option" where
  "exec_args argv s =
     (if argv = 0 then Some (True, s)
      else case count_args (mem s) argv 0 of
             None \<Rightarrow> None
           | Some argc \<Rightarrow>
               if 0 < sint argc
               then (case validate_args argv [0..<unat argc] s of (ok, s1) \<Rightarrow>
                       if \<not> ok then Some (False, console_puts ''[sys_exec] Invalid argv pointer\<newline>'' s1)
                       else Some (True, console_puts ''\<newline>'' (console_put_dec (scast argc)
                              (console_puts ''[sys_exec] Arguments: '' s1))))
               else Some (True, s))"

text \<open>A message and \<^verbatim>\<open>sys_exit(-1)\<close>, with and without freeing the file buffer first.\<close>

definition exec_fail :: "string \<Rightarrow> 'a proc_scheme \<Rightarrow> (unit, 'a proc_scheme) outcome option" where
  "exec_fail msg s = Some (sys_exit (-1) (console_puts msg s))"

definition exec_fail_free :: "string \<Rightarrow> u64 \<Rightarrow> 'a proc_scheme \<Rightarrow> (unit, 'a proc_scheme) outcome option" where
  "exec_fail_free msg file_buffer s =
     (case kfree file_buffer (console_puts msg s) of None \<Rightarrow> None | Some s1 \<Rightarrow> Some (sys_exit (-1) s1))"

text \<open>\<^verbatim>\<open>sys_exec\<close> from the file buffer on.\<close>

definition exec_load :: "nat \<Rightarrow> u64 \<Rightarrow> 'a syscalls_scheme \<Rightarrow> (unit, 'a syscalls_scheme) outcome option" where
  "exec_load p file_buffer s =
     (if \<not> elf_validate file_buffer s then exec_fail_free ''[sys_exec] Invalid ELF file\<newline>'' file_buffer s
      else case elf_load_segments file_buffer file_buffer (Some p) s of
             None \<Rightarrow> None
           | Some (None, s1) \<Rightarrow> exec_fail_free ''[sys_exec] Failed to load ELF segments\<newline>'' file_buffer s1
           | Some (Some entry_point, s1) \<Rightarrow>
               (case kfree file_buffer (upd_pcb p (\<lambda>b. b\<lparr>pcb_entry_point := entry_point\<rparr>) s1) of
                  None \<Rightarrow> None
                | Some s2 \<Rightarrow>
                    Some (sys_exit 0
                      (console_puts ''[sys_exec] Process replacement not yet fully implemented\<newline>''
                        (console_puts ''[sys_exec] Jumping to entry point...\<newline>''
                          (console_puts ''\<newline>'' (console_put_hex entry_point
                            (console_puts ''[sys_exec] Successfully loaded ELF, entry: '' s2))))))))"

definition exec_file :: "nat \<Rightarrow> u64 \<Rightarrow> u8 list \<Rightarrow> 'a syscalls_scheme \<Rightarrow> (unit, 'a syscalls_scheme) outcome option" where
  "exec_file p fs kpath s =
     (case mesafs_find_file fs kpath s of
        None \<Rightarrow> None
      | Some (file_inode, s1) \<Rightarrow>
          if file_inode = 0
          then exec_fail ''\<newline>'' (console_puts (map byte_char kpath) (console_puts ''[sys_exec] File not found: '' s1))
          else case mesafs_read_inode fs file_inode s1 of
                 None \<Rightarrow> None
               | Some (None, s2) \<Rightarrow> exec_fail ''[sys_exec] Failed to read inode\<newline>'' s2
               | Some (Some d, s2) \<Rightarrow>
                   if in_type d \<noteq> MESAFS_TYPE_FILE then exec_fail ''[sys_exec] Not a regular file\<newline>'' s2
                   else case kmalloc (ucast (in_size d)) s2 of
                          None \<Rightarrow> None
                        | Some (file_buffer, s3) \<Rightarrow>
                            if file_buffer = 0 then exec_fail ''[sys_exec] Out of memory\<newline>'' s3
                            else case mesafs_read fs file_inode file_buffer (ucast (in_size d)) 0 s3 of
                                   None \<Rightarrow> None
                                 | Some (read_result, s4) \<Rightarrow>
                                     if read_result \<noteq> in_size d
                                     then exec_fail_free ''[sys_exec] Failed to read file\<newline>'' file_buffer s4
                                     else exec_load p file_buffer s4)"

definition sys_exec :: "u64 \<Rightarrow> u64 \<Rightarrow> 'a syscalls_scheme \<Rightarrow> (unit, 'a syscalls_scheme) outcome option" where
  "sys_exec path argv s =
     (case exec_args argv s of
        None \<Rightarrow> None
      | Some (ok, s1) \<Rightarrow>
          if \<not> ok then Some (sys_exit (-1) s1)
          else case proc_current s1 of
                 None \<Rightarrow> exec_fail ''[sys_exec] No current process\<newline>'' s1
               | Some p \<Rightarrow>
                   (case validate_user_pointer path 256 s1 of (ok, s2) \<Rightarrow>
                      if \<not> ok then exec_fail ''[sys_exec] Invalid path pointer\<newline>'' s2
                      else case copy_path 255 path s2 of
                             (None, s3) \<Rightarrow> Some (sys_exit (-1) s3)
                           | (Some kpath, s3) \<Rightarrow>
                               let s4 = console_puts ''\<newline>'' (console_puts (map byte_char kpath)
                                          (console_puts ''[sys_exec] Loading: '' s3));
                                   fs = mesafs_get_mounted s4
                               in if fs = 0 then exec_fail ''[sys_exec] No filesystem mounted\<newline>'' s4
                                  else exec_file p fs kpath s4))"

section \<open>Time\<close>

definition sys_sleep :: "u32 \<Rightarrow> 's \<Rightarrow> i32 \<times> 's" where
  "sys_sleep milliseconds s = (0, s)"

definition sys_time :: "'a syscalls_scheme \<Rightarrow> u64 \<times> 'a syscalls_scheme" where
  "sys_time s = (fake_time s + 1, s\<lparr>fake_time := fake_time s + 1\<rparr>)"

section \<open>The table of calls\<close>

datatype syscall_fn =
    Sys_read | Sys_write | Sys_brk | Sys_exit | Sys_ipc_send | Sys_ipc_receive | Sys_ipc_call | Sys_mmap | Sys_munmap
  | Sys_exec | Sys_sleep | Sys_time | Sys_open | Sys_close | Sys_readdir

definition syscall_table :: "u64 \<Rightarrow> syscall_fn option" where
  "syscall_table = map_of
     [(0, Sys_read), (1, Sys_write), (12, Sys_brk), (60, Sys_exit), (40, Sys_ipc_send), (41, Sys_ipc_receive),
      (42, Sys_ipc_call), (9, Sys_mmap), (11, Sys_munmap), (59, Sys_exec), (35, Sys_sleep), (201, Sys_time),
      (2, Sys_open), (3, Sys_close), (78, Sys_readdir)]"

text \<open>
  The table calls every function as one that returns 64 bits: of a function that returns an \<^verbatim>\<open>int\<close> only
  the low half of the register is determined.
\<close>

definition int_result :: "i32 \<Rightarrow> 'a mesafs_scheme \<Rightarrow> u64 \<times> 'a mesafs_scheme" where
  "int_result r s = (case stack_bytes 4 s of (high, s1) \<Rightarrow> (push_bit 32 (ucast (le_word high :: u32)) OR ucast r, s1))"

definition returns :: "(u64 \<times> 's) option \<Rightarrow> (u64, 's) outcome option" where
  "returns r = map_option (\<lambda>(v, s). Return v s) r"

definition returns_int :: "(i32 \<times> 'a mesafs_scheme) option \<Rightarrow> (u64, 'a mesafs_scheme) outcome option" where
  "returns_int r = map_option (\<lambda>(v, s). case int_result v s of (w, t) \<Rightarrow> Return w t) r"

fun no_return :: "(unit, 's) outcome \<Rightarrow> (u64, 's) outcome" where
  "no_return (Return u s) = Return 0 s"
| "no_return (Halt s) = Halt s"

definition syscall_call ::
  "'a syscalls_scheme ipc_api \<Rightarrow> syscall_fn \<Rightarrow> u64 \<Rightarrow> u64 \<Rightarrow> u64 \<Rightarrow> u64 \<Rightarrow> u64 \<Rightarrow> 'a syscalls_scheme \<Rightarrow>
     (u64, 'a syscalls_scheme) outcome option" where
  "syscall_call api f arg1 arg2 arg3 arg4 arg5 s =
     (case f of
        Sys_read \<Rightarrow> returns (sys_read (ucast arg1) arg2 arg3 s)
      | Sys_write \<Rightarrow> returns (Some (sys_write (ucast arg1) arg2 arg3 s))
      | Sys_brk \<Rightarrow> returns (sys_brk arg1 s)
      | Sys_exit \<Rightarrow> Some (sys_exit (ucast arg1) s)
      | Sys_ipc_send \<Rightarrow> returns (sys_ipc_send api (ucast arg1) arg2 arg3 s)
      | Sys_ipc_receive \<Rightarrow> returns (sys_ipc_receive api arg1 arg2 arg3 s)
      | Sys_ipc_call \<Rightarrow> returns (sys_ipc_call api (ucast arg1) arg2 arg3 arg4 arg5 s)
      | Sys_mmap \<Rightarrow> returns (sys_mmap arg1 arg2 (ucast arg3) (ucast arg4) s)
      | Sys_munmap \<Rightarrow> returns_int (Some (sys_munmap arg1 arg2 s))
      | Sys_exec \<Rightarrow> map_option no_return (sys_exec arg1 arg2 s)
      | Sys_sleep \<Rightarrow> returns_int (Some (sys_sleep (ucast arg1) s))
      | Sys_time \<Rightarrow> returns (Some (sys_time s))
      | Sys_open \<Rightarrow> returns_int (sys_open arg1 (ucast arg2) s)
      | Sys_close \<Rightarrow> returns_int (Some (sys_close (ucast arg1) s))
      | Sys_readdir \<Rightarrow> returns_int (sys_readdir arg1 arg2 arg3 s))"

definition syscall_handler ::
  "'a syscalls_scheme ipc_api \<Rightarrow> u64 \<Rightarrow> u64 \<Rightarrow> u64 \<Rightarrow> u64 \<Rightarrow> u64 \<Rightarrow> u64 \<Rightarrow> 'a syscalls_scheme \<Rightarrow>
     (u64, 'a syscalls_scheme) outcome option" where
  "syscall_handler api num arg1 arg2 arg3 arg4 arg5 s =
     (if MAX_SYSCALLS \<le> num \<or> syscall_table num = None
      then Some (Return (-1) (console_puts ''\<newline>'' (console_put_dec num (console_puts ''[SYSCALL] Unknown syscall: '' s))))
      else syscall_call api (the (syscall_table num)) arg1 arg2 arg3 arg4 arg5 s)"

section \<open>Initialisation\<close>

definition syscall_banner :: "'a console_scheme \<Rightarrow> 'a console_scheme" where
  "syscall_banner s =
     console_set_color VGA_WHITE VGA_BLACK (console_puts ''OK\<newline>'' (console_set_color VGA_LIGHT_GREEN VGA_BLACK
       (console_puts ''       Status: ''
         (console_puts ''                readdir(78)\<newline>''
           (console_puts ''                mmap(9), munmap(11), exec(59), sleep(35), time(201)\<newline>''
             (console_puts ''                ipc_send(40), ipc_receive(41), ipc_call(42)\<newline>''
               (console_puts ''       Syscalls: read(0), write(1), open(2), close(3), brk(12), exit(60)\<newline>'' s)))))))"

definition star_value :: u64 where
  "star_value = (let star = 0 OR push_bit 32 0x08 in star OR push_bit 48 0x13)"

definition syscall_init :: "'a syscalls_scheme \<Rightarrow> 'a syscalls_scheme" where
  "syscall_init s =
     (let s1 = console_puts ''[SYSCALL] Initializing system call interface...\<newline>'' s;
          s2 = s1\<lparr>cpu_data := \<lparr>kernel_rsp = sym s1 Sym_kernel_stack_top, user_rsp = 0, current_task = 0\<rparr>\<rparr>;
          s3 = wrmsr MSR_KERNEL_GSBASE (sym s2 Sym_cpu_data) s2;
          s4 = wrmsr MSR_STAR star_value s3;
          s5 = wrmsr MSR_LSTAR (sym s4 Sym_syscall_entry) s4;
          s6 = wrmsr MSR_SFMASK 0x200 s5
      in syscall_banner s6)"

section \<open>Frames\<close>

lemma syscalls_field_cong:
  fixes s t :: "'a syscalls_scheme"
  assumes "vfs.more t = vfs.more s"
  shows "cpu_data t = cpu_data s" "fake_time t = fake_time s" "local_at t = local_at s" "syscalls.more t = syscalls.more s"
  using assms by (cases s; cases t; simp)+

lemmas syscalls_vfs_frames [simp] =
  vfs_frames [THEN syscalls_field_cong(1)] vfs_frames [THEN syscalls_field_cong(2)]
  vfs_frames [THEN syscalls_field_cong(3)] vfs_frames [THEN syscalls_field_cong(4)]

end
