(* ===== verification/Syscall_Props.thy ===== *)
theory Syscall_Props
  imports Syscall Elf_Props
begin

text \<open>
The memory and input/output system calls: the invariant of a process's break and the pages behind it, the
  failure of \<^verbatim>\<open>sys_brk\<close> when pages run out, the end of the page loops for every argument, printing with
  \<^verbatim>\<open>sys_write\<close>, reading files with \<^verbatim>\<open>sys_read\<close>, and the addresses that \<^verbatim>\<open>sys_mmap\<close> hands out.
\<close>

section \<open>Specification\<close>

definition user_flags :: "u64 \<Rightarrow> bool" where
  "user_flags f \<longleftrightarrow> f = (PTE_PRESENT OR PTE_WRITABLE) OR PTE_USER"

text \<open>The pages between two addresses, both rounded up.\<close>

definition pages_between :: "u64 \<Rightarrow> u64 \<Rightarrow> nat" where
  "pages_between a b = (unat b + 0xFFF) div 0x1000 - (unat a + 0xFFF) div 0x1000"

definition brk_ok :: "'a proc_scheme \<Rightarrow> nat \<Rightarrow> bool" where
  "brk_ok s p \<longleftrightarrow> p < length (process_table s) \<and> 0x400000 \<le> pcb_heap_start (pcb s p) \<and>
     pcb_heap_start (pcb s p) \<le> pcb_brk (pcb s p) \<and> pcb_brk (pcb s p) < USER_HEAP_MAX"

definition sample_local :: "kernel_local \<Rightarrow> u64" where
  "sample_local l = (case l of L_write_kbuf \<Rightarrow> 0x180000 | L_read_kbuf \<Rightarrow> 0x180200 | L_file_kbuf \<Rightarrow> 0x180400
     | L_ipc_kbuf \<Rightarrow> 0x180800 | L_kfrom \<Rightarrow> 0x180A00 | L_kreq \<Rightarrow> 0x180B00 | L_krep \<Rightarrow> 0x180D00 | L_c \<Rightarrow> 0x180F00)"

text \<open>A machine in which one process runs, with an empty heap.\<close>

definition user_calls :: "u8 list \<Rightarrow> syscalls" where
  "user_calls ks = vfs.extend ((typing_vfs ks)\<lparr>current_process := Some 0,
       process_table := [pcb_zero\<lparr>pcb_pid := 1, pcb_state := PROC_STATE_RUNNING, pcb_heap_start := 0x400000, pcb_brk := 0x400000\<rparr>]\<rparr>)
     \<lparr>cpu_data = \<lparr>kernel_rsp = 0, user_rsp = 0, current_task = 0\<rparr>, fake_time = 0, local_at = sample_local\<rparr>"

text \<open>
  A buffer of the user that a call accepts, and that does not overlap the \<open>n\<close> bytes of the kernel's
  local variable \<open>l\<close>; the variable does not overlap the disk in memory.
\<close>

definition user_buffer :: "kernel_local \<Rightarrow> nat \<Rightarrow> u64 \<Rightarrow> u64 \<Rightarrow> 'a syscalls_scheme \<Rightarrow> bool" where
  "user_buffer l n buf cnt s \<longleftrightarrow> buf \<noteq> 0 \<and> user_range buf cnt \<and> local_at s l \<noteq> 0 \<and> off_disk s (local_at s l) n \<and>
     (unat buf + unat cnt \<le> unat (local_at s l) \<or> unat (local_at s l) + n \<le> unat buf)"

section \<open>Mapping a range of user pages\<close>

lemma page_align_up_nat:
  assumes "unat a + 0xFFF < 2 ^ 64"
  shows "unat (page_align_up a) = (unat a + 0xFFF) div 0x1000 * 0x1000" "page_aligned (page_align_up a)"
proof -
  have "a + PAGE_SIZE - 1 = a + 0xFFF" by simp
  moreover have "unat (a + 0xFFF) = unat a + 0xFFF" using assms by (simp add: unat_add_small)
  ultimately show "unat (page_align_up a) = (unat a + 0xFFF) div 0x1000 * 0x1000"
    using unat_and_not_mask [of "a + 0xFFF" 12] by (simp add: page_align_up_def mask_eq_exp_minus_1 add.commute [of a])
  then show "page_aligned (page_align_up a)" by (simp add: page_aligned_nat)
qed

lemma map_user_pages_run:
  assumes "range_mapped r a k user_flags s0 s" "grows r s0 s" "pt_ok r s" "4 * n \<le> card (free_pages s)" "k + n \<le> 0x8000"
    and "boot_pml4 s = r" "page_aligned a" "unat a + 0x1000 * (k + n) < 2 ^ 64" "\<forall>j < k + n. no_huge (pmem s0) r (nth_page a j)"
  shows "\<exists>t. map_user_pages (nth_page a k) (nth_page a (k + n)) s = Some (True, t) \<and> mm.more t = mm.more s \<and>
    range_mapped r a (k + n) user_flags s0 t \<and> pt_ok r t \<and> grows r s0 t"
  using assms(1-6,8,9)
proof (induction n arbitrary: k s)
  case 0
  then show ?case by (simp add: map_user_pages.simps)
next
  case (Suc n)
  let ?v = "nth_page a k" and ?e = "nth_page a (k + Suc n)" and ?f = "(PTE_PRESENT OR PTE_WRITABLE) OR PTE_USER"
  have lt: "?v < ?e"
    using unat_nth_page [OF Suc.prems(7), of k] unat_nth_page [OF Suc.prems(7), of "k + Suc n"] by (simp add: word_less_nat_alt)
  obtain phys s1 where al: "pmm_alloc_page s = (phys, s1)" by force
  have "boot_pml4 (snd (pmm_alloc_page s)) = boot_pml4 s" "mm.more (snd (pmm_alloc_page s)) = mm.more s" by simp_all
  then have s1: "boot_pml4 s1 = r" "mm.more s1 = mm.more s" using Suc.prems(6) by (simp_all only: al snd_conv)
  define u where "u = mm_map_page r ?v phys ?f s1"
  have huge: "no_huge (pmem s) r ?v" using grows_huge [OF Suc.prems(2)] Suc.prems(8) by simp
  have bound: "unat a + 0x1000 * Suc k < 2 ^ 64" "Suc k \<le> 0x8000" "4 \<le> card (free_pages s)" using Suc.prems(4,5,7) by simp_all
  have f: "?f AND 0xFFF = ?f" "user_flags ?f" by (simp_all add: user_flags_def)
  note step = range_mapped_snoc [OF Suc.prems(1-3) assms(7) bound(1,2) huge bound(3) f al u_def]
  have unroll: "map_user_pages ?v ?e s = map_user_pages (nth_page a (Suc k)) (nth_page a (Suc k + n)) u"
    using step al lt s1 by (subst map_user_pages.simps) (simp add: nth_page_Suc u_def mm_get_kernel_pml4_def)
  have u: "boot_pml4 u = r" "mm.more u = mm.more s" using s1 by (simp_all add: u_def)
  have "\<exists>t. map_user_pages (nth_page a (Suc k)) (nth_page a (Suc k + n)) u = Some (True, t) \<and> mm.more t = mm.more u \<and>
      range_mapped r a (Suc k + n) user_flags s0 t \<and> pt_ok r t \<and> grows r s0 t"
    using step Suc.prems(4-8) u by (intro Suc.IH) simp_all
  then show ?case unfolding unroll using u(2) by simp
qed

lemma map_user_pages_inv:
  assumes "map_user_pages a b s = Some r" "I s"
    and alloc: "\<And>s. I s \<Longrightarrow> I (snd (pmm_alloc_page s))" and map: "\<And>s pml4 v p f. I s \<Longrightarrow> I (mm_map_page pml4 v p f s)"
  shows "I (snd r)"
proof -
  have "I s \<longrightarrow> I (snd r)"
  proof (rule map_user_pages.raw_induct [where P = "\<lambda>a b s r. I s \<longrightarrow> I (snd r)", OF _ assms(1)])
    fix loop and a b and s :: "'a mm_scheme" and r
    assume IH: "\<And>a b s r. loop a b s = Some r \<Longrightarrow> I s \<longrightarrow> I (snd r)"
      and eq: "(if \<not> a < b then Some (True, s)
        else case pmm_alloc_page s of (phys, s1) \<Rightarrow> if phys = 0 then Some (False, s1)
          else loop (a + PAGE_SIZE) b (mm_map_page (mm_get_kernel_pml4 s1) a phys ((PTE_PRESENT OR PTE_WRITABLE) OR PTE_USER) s1)) = Some r"
    obtain phys s1 where al: "pmm_alloc_page s = (phys, s1)" by force
    show "I s \<longrightarrow> I (snd r)"
      using eq IH alloc [of s] map al by (auto split: if_splits)
  qed
  with assms(2) show ?thesis by blast
qed

lemma map_user_pages_frame:
  fixes s :: "'a mm_scheme"
  assumes "map_user_pages a b s = Some (ok, t)"
  shows "mm.more t = mm.more s"
  using map_user_pages_inv [OF assms, of "\<lambda>t. mm.more t = mm.more s"] by simp

section \<open>The break\<close>

lemma mm_more_fields:
  fixes s t :: "'a syscalls_scheme"
  assumes "mm.more t = mm.more s"
  shows "keyboard.more t = keyboard.more s" "memory.more t = memory.more s" "mesafs.more t = mesafs.more s" "mem t = mem s"
    "process_table t = process_table s" "current_process t = current_process s" "local_at t = local_at s" "mounted_fs t = mounted_fs s"
  using assms by (cases s; cases t; simp)+

lemma sys_brk_expand:
  assumes "current_process s = Some p" "brk_ok s p" "pcb_brk (pcb s p) < new_brk" "new_brk < USER_HEAP_MAX"
  shows "sys_brk new_brk s = (case map_user_pages (page_align_up (pcb_brk (pcb s p))) (page_align_up new_brk) s of
      None \<Rightarrow> None
    | Some (ok, s1) \<Rightarrow> if \<not> ok then Some (pcb_brk (pcb s p), console_puts ''[sys_brk] Out of physical memory\<newline>'' s1)
        else Some (new_brk, upd_pcb p (\<lambda>b. b\<lparr>pcb_brk := new_brk\<rparr>) s1))"
proof -
  have "new_brk \<noteq> 0" "\<not> new_brk < pcb_heap_start (pcb s p)" "\<not> USER_HEAP_MAX \<le> new_brk" "\<not> KERNEL_VIRT_BASE \<le> new_brk"
    using assms by (auto simp: brk_ok_def word_less_nat_alt word_le_nat_alt)
  with assms(1,3) show ?thesis by (simp add: sys_brk_def proc_current_def Let_def)
qed

lemma user_calls_fields [simp]:
  "current_process (user_calls ks) = Some 0" "brk_ok (user_calls ks) 0" "pcb_brk (pcb (user_calls ks) 0) = 0x400000"
  "local_at (user_calls ks) = sample_local" "boot_pml4 (user_calls ks) = 0x101000" "keys_ahead (user_calls ks) = ks"
  "mem (user_calls ks) = mem (typing_vfs ks)" "iflag (user_calls ks)" "kb_ok (kb_buffer (user_calls ks))"
  "kb_abs (user_calls ks) = kb_abs (typing_vfs ks)" "mounted_fs (user_calls ks) = mounted_fs (typing_vfs ks)"
proof -
  have "boot_pml4 (typing_vfs ks) = 0x101000"
    by (simp add: typing_vfs_def idt_state.defs fresh_idt_def sample_idt_mm)
  then show "current_process (user_calls ks) = Some 0" "brk_ok (user_calls ks) 0" "pcb_brk (pcb (user_calls ks) 0) = 0x400000"
    "local_at (user_calls ks) = sample_local" "boot_pml4 (user_calls ks) = 0x101000" "keys_ahead (user_calls ks) = ks"
    "mem (user_calls ks) = mem (typing_vfs ks)" "iflag (user_calls ks)" "kb_ok (kb_buffer (user_calls ks))"
    "kb_abs (user_calls ks) = kb_abs (typing_vfs ks)" "mounted_fs (user_calls ks) = mounted_fs (typing_vfs ks)"
    using typing_vfs_fields(1-3) [of ks]
    by (simp_all add: user_calls_def vfs.defs brk_ok_def kb_abs_def)
qed

lemma user_calls_mm:
  "pt_ok 0x101000 (user_calls ks)" "free_pages (user_calls ks) = pages_from 512" "pmem (user_calls ks) = pmem marked_mm"
proof -
  have "phys_bitmap (user_calls ks) = phys_bitmap (sample_idt None)" "pmem (user_calls ks) = pmem (sample_idt None)"
    by (simp_all add: user_calls_def vfs.defs typing_vfs_def idt_state.defs fresh_idt_def)
  then show m: "free_pages (user_calls ks) = pages_from 512" "pmem (user_calls ks) = pmem marked_mm"
    using sample_idt_mm [of None] marked_mm_free by (simp_all add: free_pages_def)
  then show "pt_ok 0x101000 (user_calls ks)" using marked_mm_ok marked_mm_free by (simp add: pt_ok_def)
qed

lemma user_calls_no_huge:
  "0x400000 \<le> v \<Longrightarrow> v < USER_HEAP_MAX \<Longrightarrow> no_huge (pmem (user_calls ks)) 0x101000 v"
  using boot_heap_no_huge [OF sample_layout, of v "\<lambda>_. 0"]
  by (simp add: user_calls_mm marked_mm_def boot_mm_def kheap.defs word_less_nat_alt)

section \<open>Properties\<close>

text \<open>
  C27: \<^verbatim>\<open>sys_brk\<close> keeps the break between the start of the heap and the limit of 512 MiB, whatever it is
  asked for and whether memory suffices or not, and what it returns is the break that the process
  then has.
\<close>

theorem sys_brk_invariant:
  assumes "current_process s = Some p" "brk_ok s p" "sys_brk new_brk s = Some (r, t)"
  shows "brk_ok t p \<and> r = pcb_brk (pcb t p) \<and> current_process t = Some p"
proof (cases "pcb_brk (pcb s p) < new_brk \<and> new_brk < USER_HEAP_MAX")
  case True
  with assms obtain ok s1 where m: "map_user_pages (page_align_up (pcb_brk (pcb s p))) (page_align_up new_brk) s = Some (ok, s1)"
    by (auto simp: sys_brk_expand split: option.splits)
  note f = mm_more_fields [OF map_user_pages_frame [OF m]]
  show ?thesis
    using assms True m f by (auto simp: sys_brk_expand brk_ok_def split: if_splits)
next
  case False
  then show ?thesis using assms
    by (auto simp: sys_brk_def proc_current_def brk_ok_def Let_def not_less split: if_splits)
qed

text \<open>
  C28: growing the heap with pages enough returns the new break; every page between the old and the new
  break is then mapped, writable for the user, to a frame of its own that was free, and no other
  mapping has changed.
\<close>

theorem sys_brk_grows:
  assumes "current_process s = Some p" "brk_ok s p" "pcb_brk (pcb s p) < new_brk" "new_brk < USER_HEAP_MAX"
    "pt_ok (boot_pml4 s) s" "4 * pages_between (pcb_brk (pcb s p)) new_brk \<le> card (free_pages s)"
    "\<forall>v. 0x400000 \<le> v \<longrightarrow> v < USER_HEAP_MAX \<longrightarrow> no_huge (pmem s) (boot_pml4 s) v"
  shows "\<exists>t. sys_brk new_brk s = Some (new_brk, t) \<and> pcb_brk (pcb t p) = new_brk \<and> mem t = mem s \<and>
    range_mapped (boot_pml4 s) (page_align_up (pcb_brk (pcb s p))) (pages_between (pcb_brk (pcb s p)) new_brk) user_flags s t"
proof -
  let ?b = "pcb_brk (pcb s p)" and ?r = "boot_pml4 s"
  let ?a = "page_align_up ?b" and ?n = "pages_between ?b new_brk"
  have b: "0x400000 \<le> unat ?b" "unat ?b < unat new_brk" "unat new_brk < 0x20000000"
    using assms(2-4) by (auto simp: brk_ok_def word_less_nat_alt word_le_nat_alt)
  have a: "unat ?a = (unat ?b + 0xFFF) div 0x1000 * 0x1000" "page_aligned ?a" using page_align_up_nat [of ?b] b by simp_all
  have le: "(unat ?b + 0xFFF) div 0x1000 \<le> (unat new_brk + 0xFFF) div 0x1000" using b by (intro div_le_mono) simp
  then have e: "unat ?a + 0x1000 * ?n = (unat new_brk + 0xFFF) div 0x1000 * 0x1000"
    by (simp add: a pages_between_def algebra_simps)
  have lim: "(unat new_brk + 0xFFF) div 0x1000 * 0x1000 \<le> 0x20000000"
    using b(3) div_le_mono [of "unat new_brk + 0xFFF" "0x20000FFE" "0x1000"] by simp
  then have s64: "unat ?a + 0x1000 * ?n < 2 ^ 64" using e by simp
  then have "page_align_up new_brk = nth_page ?a ?n"
    using unat_nth_page [OF s64, of ?n] e page_align_up_nat(1) [of new_brk] b by (intro word_unat_eq_iff [THEN iffD2]) simp
  moreover have "card (free_pages s) \<le> card {..<0x8000::nat}" by (rule card_mono) (auto simp: free_pages_def)
  moreover have "no_huge (pmem s) ?r (nth_page ?a j)" if "j < ?n" for j
    using that assms(7) unat_nth_page [OF s64, of j] a b e lim by (simp add: word_le_nat_alt word_less_nat_alt)
  ultimately obtain u where u: "map_user_pages ?a (page_align_up new_brk) s = Some (True, u)" "mm.more u = mm.more s"
    "range_mapped ?r ?a ?n user_flags s u"
    using map_user_pages_run [of ?r ?a 0 s s ?n] assms(5,6) a(2) s64 by (auto simp: range_mapped_Nil grows_same)
  note f = mm_more_fields [OF u(2)]
  have "p < length (process_table u)" using assms(2) f by (simp add: brk_ok_def)
  then show ?thesis using sys_brk_expand [OF assms(1-4)] u f
    by (simp add: upd_pcb_def) (simp add: range_mapped_def free_pages_def)
qed

theorem sys_brk_grows_witness:
  "\<exists>t. sys_brk 0x402800 (user_calls []) = Some (0x402800, t) \<and>
    range_mapped 0x101000 0x400000 3 user_flags (user_calls []) t"
proof -
  have "\<forall>v. 0x400000 \<le> v \<longrightarrow> v < USER_HEAP_MAX \<longrightarrow> no_huge (pmem (user_calls [])) (boot_pml4 (user_calls [])) v"
    using user_calls_no_huge by simp
  from sys_brk_grows [OF _ _ _ _ _ _ this, of 0 "0x402800"] show ?thesis
    by (auto simp: user_calls_mm pages_between_def pages_from_facts page_align_up_def)
qed

theorem sys_brk_invariant_witness:
  "sys_brk 0xFFFFFFFFFFFFFFFF (user_calls []) = Some (0x400000, user_calls []) \<and> brk_ok (user_calls []) 0"
proof -
  have "sys_brk 0xFFFFFFFFFFFFFFFF (user_calls []) = Some (0x400000, user_calls [])"
    by (simp add: sys_brk_def proc_current_def Let_def)
  with sys_brk_invariant [OF _ _ this, of 0] show ?thesis by simp
qed

section \<open>Running out of memory\<close>

lemma pmm_alloc_shrinks: "free_pages (snd (pmm_alloc_page s)) \<subseteq> free_pages s"
  using pmm.alloc_least [of s] pmm.alloc_none [of s] by (cases "free_pages s = {}") auto

lemma alloc_table_shrinks: "free_pages (snd (alloc_table s)) \<subseteq> free_pages s"
proof -
  have "free_pages (snd (alloc_table s)) = free_pages (snd (pmm_alloc_page s))"
    by (simp add: alloc_table_def split_def free_pages_def)
  then show ?thesis using pmm_alloc_shrinks by simp
qed

lemma next_table_shrinks: "free_pages (snd (next_table t i f s)) \<subseteq> free_pages s"
  using alloc_table_shrinks [of s] by (simp add: next_table_def split_def free_pages_def)

lemma next_pt_shrinks: "free_pages (snd (next_pt t i f s)) \<subseteq> free_pages s"
  using next_table_shrinks [of t i f s] by (simp add: next_pt_def free_pages_def)

lemma mm_map_page_shrinks: "free_pages (mm_map_page r v p f s) \<subseteq> free_pages s"
proof -
  obtain t1 s1 where n1: "next_table r (pml4_index v) f s = (t1, s1)" by force
  obtain t2 s2 where n2: "next_table t1 (pdpt_index v) f s1 = (t2, s2)" by force
  obtain t3 s3 where n3: "next_pt t2 (pd_index v) f s2 = (t3, s3)" by force
  have "free_pages s1 \<subseteq> free_pages s" "free_pages s2 \<subseteq> free_pages s1" "free_pages s3 \<subseteq> free_pages s2"
    using next_table_shrinks [of r "pml4_index v" f s] next_table_shrinks [of t1 "pdpt_index v" f s1]
      next_pt_shrinks [of t2 "pd_index v" f s2] n1 n2 n3 by simp_all
  then show ?thesis unfolding mm_map_page_def by (auto simp: n1 n2 n3 free_pages_def)
qed

lemma map_user_pages_exhausts:
  fixes s :: "'a mm_scheme"
  assumes "map_user_pages a b s = Some (ok, t)" "0 \<notin> free_pages s" "\<not> ok"
  shows "free_pages t = {}"
proof -
  have "0 \<notin> free_pages s \<longrightarrow> \<not> fst (ok, t) \<longrightarrow> free_pages (snd (ok, t)) = {}"
  proof (rule map_user_pages.raw_induct
      [where P = "\<lambda>a b s r. 0 \<notin> free_pages s \<longrightarrow> \<not> fst r \<longrightarrow> free_pages (snd r) = {}", OF _ assms(1)])
    fix loop and a b and s :: "'a mm_scheme" and r
    assume IH: "\<And>a b s r. loop a b s = Some r \<Longrightarrow> 0 \<notin> free_pages s \<longrightarrow> \<not> fst r \<longrightarrow> free_pages (snd r) = {}"
      and eq: "(if \<not> a < b then Some (True, s)
        else case pmm_alloc_page s of (phys, s1) \<Rightarrow> if phys = 0 then Some (False, s1)
          else loop (a + PAGE_SIZE) b (mm_map_page (mm_get_kernel_pml4 s1) a phys ((PTE_PRESENT OR PTE_WRITABLE) OR PTE_USER) s1)) = Some r"
    obtain phys s1 where al: "pmm_alloc_page s = (phys, s1)" by force
    have sub: "free_pages s1 \<subseteq> free_pages s" using pmm_alloc_shrinks [of s] al by simp
    have zero: "free_pages s1 = {}" if "phys = 0" "0 \<notin> free_pages s"
    proof (cases "free_pages s = {}")
      case False
      then have "Min (free_pages s) \<in> free_pages s" by simp
      then have "Min (free_pages s) < 0x8000" "Min (free_pages s) \<noteq> 0" using that(2) free_pages_bound by (blast, metis)
      then show ?thesis using pmm.alloc_least [OF False] al that(1) unat_page_addr [of "Min (free_pages s)"] by simp
    qed (use sub in auto)
    show "0 \<notin> free_pages s \<longrightarrow> \<not> fst r \<longrightarrow> free_pages (snd r) = {}"
      using eq IH [of _ _ "mm_map_page (mm_get_kernel_pml4 s1) a phys 7 s1" r] sub zero al mm_map_page_shrinks [of "mm_get_kernel_pml4 s1" a phys 7 s1]
      by (auto split: if_splits)
  qed
  with assms show ?thesis by simp
qed

text \<open>
  C29: when \<^verbatim>\<open>sys_brk\<close> runs out of memory the old break stands, but the pages that were mapped on the way
  are not given back: no physical page of the machine is left free.
\<close>

theorem sys_brk_failure_exhausts:
  assumes "current_process s = Some p" "brk_ok s p" "0 \<notin> free_pages s" "pcb_brk (pcb s p) < new_brk" "new_brk < USER_HEAP_MAX"
    "sys_brk new_brk s = Some (r, t)" "r \<noteq> new_brk"
  shows "r = pcb_brk (pcb s p) \<and> free_pages t = {}"
proof -
  obtain ok s1 where m: "map_user_pages (page_align_up (pcb_brk (pcb s p))) (page_align_up new_brk) s = Some (ok, s1)"
    using assms by (auto simp: sys_brk_expand split: option.splits)
  then have "\<not> ok" "r = pcb_brk (pcb s p)" "t = console_puts ''[sys_brk] Out of physical memory\<newline>'' s1"
    using assms by (auto simp: sys_brk_expand split: if_splits)
  with map_user_pages_exhausts [OF m assms(3)] show ?thesis by (simp add: free_pages_def)
qed

theorem sys_brk_failure_exhausts_witness:
  "\<exists>t. sys_brk 0x402800 ((user_calls [])\<lparr>phys_bitmap := (\<lambda>_. - 1)\<rparr>) = Some (0x400000, t) \<and> free_pages t = {}"
proof -
  let ?s = "(user_calls [])\<lparr>phys_bitmap := (\<lambda>_. - 1)\<rparr>"
  have full: "free_pages ?s = {}"
  proof -
    have "bitmap_test i (\<lambda>_. - 1)" for i using bit_index [of i] by (simp add: bitmap_test_bit)
    then show ?thesis by (simp add: free_pages_def)
  qed
  obtain s1 where al: "pmm_alloc_page ?s = (0, s1)" using pmm.alloc_none [OF full] by (metis prod.collapse)
  have s: "current_process ?s = Some 0" "brk_ok ?s 0" "pcb_brk (pcb ?s 0) = 0x400000"
    using user_calls_fields(2) [of "[]"] by (simp_all add: brk_ok_def)
  have "map_user_pages (page_align_up 0x400000) (page_align_up 0x402800) ?s = Some (False, s1)"
    by (subst map_user_pages.simps) (simp add: al page_align_up_def)
  then have "\<exists>t. sys_brk 0x402800 ?s = Some (0x400000, t)"
    using sys_brk_expand [OF s(1,2), of "0x402800"] s(3) by simp
  then obtain t where t: "sys_brk 0x402800 ?s = Some (0x400000, t)" by blast
  from sys_brk_failure_exhausts [OF s(1,2) _ _ _ t] full s(3) t show ?thesis by simp
qed

section \<open>Writing\<close>

lemma console_write_fold:
  fixes s :: "'a memory_scheme"
  shows "console_write node buf cnt off s =
     (cnt, fold console_putchar (map (\<lambda>i. byte_char (mem s (buf + of_nat i))) [0..<unat cnt]) s)"
proof -
  have "fold (\<lambda>i t. console_putchar (byte_char (mem t (buf + of_nat i))) t) is t =
      fold console_putchar (map (\<lambda>i. byte_char (mem s (buf + of_nat i))) is) t" if "mem t = mem s"
    for "is" and t :: "'a memory_scheme"
    using that by (induction "is" arbitrary: t) simp_all
  then show ?thesis by (simp add: console_write_def)
qed

lemma vfs_write_console:
  "vfs_write vfs_get_console_out q n off s = console_write console_out_node q n off s"
  "vfs_write vfs_get_console_err q n off s = console_write console_err_node q n off s"
  by (simp_all add: vfs_write_def node_op_def vfs_get_console_out_def vfs_get_console_err_def
      console_out_node_def console_err_node_def console_out_ops_def)

lemma validate_accepts: "p \<noteq> 0 \<Longrightarrow> user_range p n \<Longrightarrow> validate_user_pointer p n s = (True, s)"
  using validate_iff [of p n s] by (auto simp: validate_user_pointer_def Let_def split: if_splits)

lemma copy_from_user_accepts:
  "p \<noteq> 0 \<Longrightarrow> user_range p n \<Longrightarrow> copy_from_user dest p n s = (n, s\<lparr>mem := copy_bytes dest p (unat n) (mem s)\<rparr>)"
  by (simp add: copy_from_user_def validate_accepts)

lemma kbuf_copy:
  fixes p q :: u64
  assumes "unat p + n \<le> 2 ^ 64" "unat q + n \<le> 2 ^ 64" "unat p + n \<le> unat q \<or> unat q + n \<le> unat p" "i < n"
  shows "copy_bytes q p n m (q + of_nat i) = m (p + of_nat i)"
proof (rule copy_bytes_spec [OF _ _ assms(4)])
  fix i j assume "i < n" "j < n"
  then have "unat (q + of_nat i) = unat q + i" "unat (p + of_nat j) = unat p + j"
    using assms(1,2) by (auto intro!: unat_offset)
  with assms(3) \<open>i < n\<close> \<open>j < n\<close> show "q + of_nat i \<noteq> p + of_nat j" by auto
qed (use assms(1) in simp)

lemma sys_write_cap: "256 < cnt \<Longrightarrow> sys_write fd buf cnt s = sys_write fd buf 256 s"
  by (simp add: sys_write_def)

lemma sys_write_copies:
  assumes "fd = 1 \<or> fd = 2" "unat cnt \<le> 256" "buf \<noteq> 0" "user_range buf cnt"
    and "unat (local_at s L_write_kbuf) + 256 \<le> 2 ^ 64"
    and "unat buf + unat cnt \<le> unat (local_at s L_write_kbuf) \<or> unat (local_at s L_write_kbuf) + 256 \<le> unat buf"
  shows "sys_write fd buf cnt s = (cnt, fold console_putchar (map (\<lambda>i. byte_char (mem s (buf + of_nat i))) [0..<unat cnt])
    (s\<lparr>mem := copy_bytes (local_at s L_write_kbuf) buf (unat cnt) (mem s)\<rparr>))"
proof -
  let ?q = "local_at s L_write_kbuf" and ?out = "map (\<lambda>i. byte_char (mem s (buf + of_nat i))) [0..<unat cnt]"
  let ?s = "s\<lparr>mem := copy_bytes ?q buf (unat cnt) (mem s)\<rparr>"
  have le: "\<not> 256 < cnt" using assms(2) by (simp add: word_less_nat_alt)
  have w: "console_write node ?q cnt 0 ?s = (cnt, fold console_putchar ?out ?s)" for node
  proof -
    have r: "unat buf + unat cnt \<le> 2 ^ 64" "unat ?q + unat cnt \<le> 2 ^ 64" "unat buf + unat cnt \<le> unat ?q \<or> unat ?q + unat cnt \<le> unat buf"
      using assms by (auto simp: user_range_def)
    have "mem ?s (?q + of_nat i) = mem s (buf + of_nat i)" if "i < unat cnt" for i
      using kbuf_copy [OF r that, of "mem s"] by simp
    then show ?thesis unfolding console_write_fold by (auto intro!: fold_cong)
  qed
  have "sys_write fd buf cnt s = vfs_write (if fd = 1 then vfs_get_console_out else vfs_get_console_err) ?q cnt 0 ?s"
    using assms le by (auto simp: sys_write_def Let_def vfs_get_console_out_def vfs_get_console_err_def validate_accepts copy_from_user_accepts)
  also have "\<dots> = (cnt, fold console_putchar ?out ?s)" by (simp add: vfs_write_console w)
  finally show ?thesis .
qed

lemma small_int:
  assumes "n < 2 ^ 31"
  shows "unat (of_nat n :: i32) = n" "sint (of_nat n :: i32) = int n" "scast (of_nat n :: i32) = (of_nat n :: u64)"
proof -
  show "unat (of_nat n :: i32) = n" using assms by (simp add: unat_of_nat_small)
  show s: "sint (of_nat n :: i32) = int n" using assms by (simp add: signed_of_nat signed_take_bit_int_eq_self)
  have "scast (of_nat n :: i32) = (word_of_int (sint (of_nat n :: i32)) :: u64)" by transfer simp
  then show "scast (of_nat n :: i32) = (of_nat n :: u64)" using s by simp
qed

section \<open>Properties\<close>

text \<open>
  C30: \<^verbatim>\<open>sys_write\<close> to descriptor 1 or 2 prints the bytes of the user's buffer in order, at most 256 of them,
  and returns how many; a pointer that is null or reaches into kernel space is refused with -1 and
  any other descriptor as well, without a change of memory.
\<close>

theorem sys_write_prints:
  assumes "unat (local_at s L_write_kbuf) + 256 \<le> 2 ^ 64"
    "unat buf + min 256 (unat cnt) \<le> unat (local_at s L_write_kbuf) \<or> unat (local_at s L_write_kbuf) + 256 \<le> unat buf"
  shows "let n = (if 256 < cnt then 256 else cnt)
    in if fd \<noteq> 1 \<and> fd \<noteq> 2 then sys_write fd buf cnt s = (-1, s)
       else if buf \<noteq> 0 \<and> user_range buf n
       then sys_write fd buf cnt s =
         (n, fold console_putchar (map (\<lambda>i. byte_char (mem s (buf + of_nat i))) [0..<unat n])
               (s\<lparr>mem := copy_bytes (local_at s L_write_kbuf) buf (unat n) (mem s)\<rparr>))
       else n \<noteq> 0 \<longrightarrow> fst (sys_write fd buf cnt s) = -1 \<and> mem (snd (sys_write fd buf cnt s)) = mem s"
proof -
  define n where "n = (if 256 < cnt then 256 else cnt)"
  let ?q = "local_at s L_write_kbuf"
  have n: "unat n \<le> 256" "unat n = min 256 (unat cnt)" by (auto simp: n_def word_less_nat_alt word_le_nat_alt)
  show ?thesis
  proof (cases "(fd = 1 \<or> fd = 2) \<and> buf \<noteq> 0 \<and> user_range buf n")
    case True
    then have "sys_write fd buf n s = (n, fold console_putchar (map (\<lambda>i. byte_char (mem s (buf + of_nat i))) [0..<unat n])
        (s\<lparr>mem := copy_bytes ?q buf (unat n) (mem s)\<rparr>))"
      using assms n by (intro sys_write_copies) auto
    moreover have "sys_write fd buf cnt s = sys_write fd buf n s" by (simp add: n_def sys_write_cap)
    ultimately show ?thesis unfolding n_def [symmetric] Let_def using True by auto
  next
    case False
    obtain ok t where v: "validate_user_pointer buf n s = (ok, t)" by force
    have "\<not> ok" if "fd = 1 \<or> fd = 2" "n \<noteq> 0" using False that validate_iff [of buf n s] v by simp
    moreover have "mem t = mem s" using v uaccess_frames(2) [of buf n s] by simp
    ultimately show ?thesis using False v unfolding sys_write_def n_def [symmetric] Let_def
      by (auto simp: vfs_get_console_out_def vfs_get_console_err_def)
  qed
qed

theorem sys_write_prints_witness:
  "let s = (user_calls [])\<lparr>mem := ucast\<rparr>
   in sys_write 1 0x400041 2 s =
      (2, fold console_putchar ''AB'' (s\<lparr>mem := copy_bytes 0x180000 0x400041 2 ucast\<rparr>))"
proof -
  have "map (\<lambda>i. byte_char (ucast (0x400041 + of_nat i :: u64))) [0..<2] = ''AB''"
    unfolding byte_char_def by code_simp
  then show ?thesis
    using sys_write_prints [of "(user_calls [])\<lparr>mem := ucast\<rparr>" "0x400041" 2 1]
    by (simp add: Let_def sample_local_def user_range_def)
qed

lemma sys_read_file_bytes:
  assumes "fs_ok (mounted_fs s) s" "2 < sint fd" "has_inode s (mounted_fs s) fd" "slot_safe fd"
    "in_type (disk_inode s (mounted_fs s) fd) = MESAFS_TYPE_FILE" "blocks_ok s (mounted_fs s) (disk_inode s (mounted_fs s) fd)"
    "user_buffer L_file_kbuf 512 buf cnt s"
  shows "let bs = take (min 512 (unat cnt)) (file_data s (mounted_fs s) (disk_inode s (mounted_fs s) fd))
    in \<exists>t. sys_read fd buf cnt s = Some (of_nat (length bs), t) \<and> (\<forall>i < length bs. mem t (buf + of_nat i) = bs ! i)"
proof -
  let ?fs = "mounted_fs s" and ?q = "local_at s L_file_kbuf"
  have kb: "?q \<noteq> 0" "off_disk s ?q (min 512 (unat cnt))" "unat ?q + 512 \<le> 2 ^ 64" "buf \<noteq> 0" "user_range buf cnt"
    "unat buf + unat cnt \<le> unat ?q \<or> unat ?q + 512 \<le> unat buf"
    using assms(7) by (auto simp: user_buffer_def off_disk_def)
  define n where "n = (if 512 < cnt then 512 else cnt)"
  have n: "unat n = min 512 (unat cnt)" by (auto simp: n_def word_less_nat_alt word_le_nat_alt)
  define bs where "bs = take (unat n) (file_data s ?fs (disk_inode s ?fs fd))"
  have len: "length bs \<le> 512" "length bs \<le> unat cnt" using n by (simp_all add: bs_def)
  have "fd \<noteq> 0" using assms(2) by auto
  have od: "off_disk s ?q (unat n)" "unat (0 :: u64) + unat n < 2 ^ 64" using kb(2) n by simp_all
  obtain k where k: "mesafs_read ?fs fd ?q n 0 s = Some (of_nat (length bs), s\<lparr>mem := store_bytes ?q bs (mem s), junk_reads := k\<rparr>)"
    using mesafs_read_correct [OF assms(1) \<open>fd \<noteq> 0\<close> kb(1) assms(3,4,5,6) od] by (auto simp: bs_def Let_def)
  let ?s = "s\<lparr>mem := store_bytes ?q bs (mem s), junk_reads := k\<rparr>" and ?r = "of_nat (length bs) :: i32"
  have r: "unat ?r = length bs" "\<not> sint ?r < 0" "scast ?r = (of_nat (length bs) :: u64)"
    using small_int [of "length bs"] len(1) by simp_all
  have "user_range buf (of_nat (length bs))" using kb(5) len(2) unat_u64 [of cnt]
    by (simp add: user_range_def unat_of_nat)
  then have v: "validate_user_pointer buf (of_nat (length bs)) ?s = (True, ?s)" using kb(4) by (simp add: validate_accepts)
  have "?fs \<noteq> 0" using assms(1) by (simp add: fs_ok_def)
  then have "sys_read fd buf cnt s = Some (of_nat (length bs), ?s\<lparr>mem := copy_bytes buf ?q (length bs) (mem ?s)\<rparr>)"
    using \<open>fd \<noteq> 0\<close> assms(2) k r v unfolding sys_read_def n_def [symmetric] Let_def
    by (simp add: mesafs_get_mounted_def)
  moreover have "copy_bytes buf ?q (length bs) (mem ?s) (buf + of_nat i) = bs ! i" if "i < length bs" for i
  proof -
    have "copy_bytes buf ?q (length bs) (mem ?s) (buf + of_nat i) = mem ?s (?q + of_nat i)"
    proof (rule kbuf_copy [OF _ _ _ that])
      show "unat ?q + length bs \<le> unat buf \<or> unat buf + length bs \<le> unat ?q" using kb(6) len by linarith
    qed (use kb(3,5) len in \<open>simp_all add: user_range_def\<close>)
    also have "\<dots> = bs ! i" using kb(3) len(1) that by (simp add: store_bytes_at)
    finally show ?thesis .
  qed
  ultimately show ?thesis unfolding n [symmetric] bs_def [symmetric] Let_def by simp
qed

lemma user_calls_vol:
  "fs_ok 0x10 (user_calls ks)" "mounted_fs (user_calls ks) = 0x10" "virtual_disk (user_calls ks) = 0x200000"
  "disk_total_sectors (user_calls ks) = 128" "fs_block (user_calls ks) fs b = fs_block sample_vol fs b"
  "disk_inode (user_calls ks) fs n = disk_inode sample_vol fs n" "has_inode (user_calls ks) fs n = has_inode sample_vol fs n"
  "blocks_ok (user_calls ks) fs d = blocks_ok sample_vol fs d" "file_data (user_calls ks) fs d = file_data sample_vol fs d"
proof -
  have f: "mounted_fs (user_calls ks) = 0x10" "virtual_disk (user_calls ks) = 0x200000" "disk_total_sectors (user_calls ks) = 128"
    "fs_mem (user_calls ks) = (\<lambda>_. sample_mount)" "mem (typing_vfs ks) = mem sample_vol" "using_virtual_disk (user_calls ks)"
    by (simp_all add: user_calls_def typing_vfs_def fresh_idt_def sample_idt_def vfs.defs idt_state.defs proc.defs tss_state.defs
        mesafs.defs sample_vol_fields fun_eq_iff)
  show "mounted_fs (user_calls ks) = 0x10" "virtual_disk (user_calls ks) = 0x200000" "disk_total_sectors (user_calls ks) = 128" by (fact f)+
  show b: "fs_block (user_calls ks) fs b = fs_block sample_vol fs b" for fs b
    by (simp add: fs_block_def sectors_def vsector_def vdisk_addr_def f sample_vol_fields del: upt_rec_numeral)
  show "fs_ok 0x10 (user_calls ks)" using sample_vol_ok by (simp add: fs_ok_def vdisk_ok_def f sample_vol_fields)
  show "disk_inode (user_calls ks) fs n = disk_inode sample_vol fs n" "has_inode (user_calls ks) fs n = has_inode sample_vol fs n"
    "blocks_ok (user_calls ks) fs d = blocks_ok sample_vol fs d" "file_data (user_calls ks) fs d = file_data sample_vol fs d"
    by (simp_all add: disk_inode_def has_inode_def blocks_ok_def file_data_def b f sample_vol_fields cong: map_cong)
qed

text \<open>
  \<^verbatim>\<open>sys_read\<close> of the descriptor that stands for a regular file delivers the first bytes of the file, as
  many as asked for and at most 512, in the user's buffer and returns how many.
\<close>

theorem sys_read_file:
  assumes "fs_ok (mounted_fs s) s" "2 < sint fd" "has_inode s (mounted_fs s) fd" "slot_safe fd"
    "in_type (disk_inode s (mounted_fs s) fd) = MESAFS_TYPE_FILE" "blocks_ok s (mounted_fs s) (disk_inode s (mounted_fs s) fd)"
    "user_buffer L_file_kbuf 512 buf cnt s"
  shows "let bs = take (min 512 (unat cnt)) (file_data s (mounted_fs s) (disk_inode s (mounted_fs s) fd))
    in \<exists>t. sys_read fd buf cnt s = Some (of_nat (length bs), t) \<and> (\<forall>i < length bs. mem t (buf + of_nat i) = bs ! i)"
  by (rule sys_read_file_bytes [OF assms])

theorem sys_read_file_witness:
  "\<exists>t. sys_read 3 0x400000 4 (user_calls []) = Some (4, t) \<and> mem t 0x400001 = 0x65"
proof -
  let ?bs = "take (min 512 (unat (4 :: u64))) (file_data (user_calls []) 0x10 (disk_inode (user_calls []) 0x10 3))"
  note f = sample_file
  have "take 4 (take 5 bs) = map (\<lambda>i. bs ! i) [0..<4]" if "length bs = 4096" for bs :: "u8 list"
    using that by (intro nth_equalityI) simp_all
  from this [OF length_fs_block] have "?bs = map (\<lambda>i. fs_block sample_vol 0x10 40 ! i) [0..<4]"
    by (simp add: user_calls_vol file_data_def f)
  also have "\<dots> = [0x68, 0x65, 0x6C, 0x6C]" by (simp add: upt_rec sample_block_nth vol_byte_def)
  finally have bs: "?bs = [0x68, 0x65, 0x6C, 0x6C]" .
  have "user_buffer L_file_kbuf 512 0x400000 4 (user_calls [])"
    by (simp add: user_buffer_def off_disk_def user_calls_vol sample_local_def user_range_def)
  then obtain t where t: "sys_read 3 0x400000 4 (user_calls []) = Some (of_nat (length ?bs), t)"
    "\<forall>i < length ?bs. mem t (0x400000 + of_nat i) = ?bs ! i"
    using sys_read_file [of "user_calls []" 3 "0x400000" 4] f user_calls_vol
    by (auto simp: Let_def)
  from t(2) [rule_format, of 1] t(1) show ?thesis unfolding bs by simp
qed

section \<open>The page loops end\<close>

lemma page_align_up_aligned [simp]: "page_aligned (page_align_up a)"
  by (simp add: page_aligned_def page_align_up_def and.assoc)

lemma next_page_below:
  assumes "a < b" "page_aligned a" "page_aligned b"
  shows "unat b - unat (a + 0x1000) < unat b - unat a" "page_aligned (a + 0x1000)"
proof -
  have lt: "unat a < unat b" using assms(1) by (simp add: word_less_nat_alt)
  have d: "0x1000 dvd unat a" "0x1000 dvd unat b" using assms(2,3) by (auto simp: page_aligned_nat)
  then have "unat a + 0x1000 \<le> unat b" using lt by (elim dvdE) simp
  moreover have "unat b < 2 ^ 64" using unsigned_less [of b] by simp
  ultimately have step: "unat (a + 0x1000) = unat a + 0x1000" by (simp add: unat_add_small)
  show "page_aligned (a + 0x1000)" using d(1) by (simp add: page_aligned_nat step)
  show "unat b - unat (a + 0x1000) < unat b - unat a" using lt step by simp
qed

lemma map_user_pages_returns:
  assumes "page_aligned a" "page_aligned b"
  shows "\<exists>r. map_user_pages a b s = Some r"
  using assms
proof (induction "unat b - unat a" arbitrary: a s rule: less_induct)
  case less
  show ?case
  proof (cases "a < b")
    case True
    obtain phys s1 where p: "pmm_alloc_page s = (phys, s1)" by force
    from less.hyps [OF next_page_below [OF True less.prems] less.prems(2)] show ?thesis
      by (subst map_user_pages.simps) (auto simp: True p)
  next
    case False
    then show ?thesis by (subst map_user_pages.simps) auto
  qed
qed

text \<open>
  C38: growing the heap and mapping memory always return: whatever the addresses and lengths are, also when
  the end of the range wraps around and when pages run out, the loops over the pages come to an end.
\<close>

theorem page_calls_return: "(\<exists>r t. sys_brk new_brk s = Some (r, t)) \<and> (\<exists>r t. sys_mmap addr len prot flags s = Some (r, t))"
proof -
  have m: "map_user_pages (page_align_up a) (page_align_up b) s \<noteq> None" for a b
    using map_user_pages_returns [of "page_align_up a" "page_align_up b" s] by auto
  have "sys_brk new_brk s \<noteq> None" by (auto simp: sys_brk_def Let_def m split: option.split)
  moreover have "sys_mmap addr len prot flags s \<noteq> None" by (auto simp: sys_mmap_def Let_def m split: option.split)
  ultimately show ?thesis by auto
qed

text \<open>
  C39: \<^verbatim>\<open>sys_mmap\<close> does not remember what it has mapped: two calls in a row that leave the choice of the address
  to the kernel and succeed return the same address, so the second one maps over the first.
\<close>

theorem sys_mmap_repeats:
  assumes "current_process s = Some p" "sys_mmap 0 len prot flags s = Some (a, t)" "a \<noteq> -1"
    "sys_mmap 0 len' prot' flags' t = Some (b, u)" "b \<noteq> -1"
  shows "a = b \<and> a = page_align_up (pcb_brk (pcb s p))"
proof -
  let ?start = "page_align_up (pcb_brk (pcb s p))"
  from assms(1-3) have a: "a = ?start" and m: "map_user_pages ?start (page_align_up (?start + len)) s = Some (True, t)"
    by (auto simp: sys_mmap_def proc_current_def Let_def split: option.splits if_splits)
  note f = mm_more_fields [OF map_user_pages_frame [OF m]]
  from assms(1,4,5) f have "b = ?start"
    by (auto simp: sys_mmap_def proc_current_def Let_def split: option.splits if_splits)
  with a show ?thesis by simp
qed

theorem sys_mmap_repeats_witness:
  "\<exists>t. sys_mmap 0 0x800 3 0 (user_calls []) = Some (0x400000, t) \<and> sys_mmap 0 0 3 0 t = Some (0x400000, t)"
proof -
  let ?s = "user_calls []"
  have s: "current_process ?s = Some 0" "pcb_brk (pcb ?s 0) = 0x400000" by simp_all
  obtain phys s1 where al: "pmm_alloc_page ?s = (phys, s1)" by force
  have "free_pages ?s \<noteq> {}" by (auto simp: user_calls_mm pages_from_facts)
  from pmm_alloc_pt(4) [OF _ this al] have p: "phys \<noteq> 0" using user_calls_mm by auto
  have "\<exists>t. map_user_pages 0x400000 0x401000 ?s = Some (True, t)"
    by (subst map_user_pages.simps) (simp add: al p map_user_pages.simps [of "0x401000"])
  then obtain t where m: "map_user_pages 0x400000 0x401000 ?s = Some (True, t)" by blast
  then have r: "sys_mmap 0 0x800 3 0 ?s = Some (0x400000, t)"
    using s by (simp add: sys_mmap_def proc_current_def page_align_up_def)
  note f = mm_more_fields [OF map_user_pages_frame [OF m]]
  have z: "sys_mmap 0 0 3 0 t = Some (0x400000, t)"
    using s f by (simp add: sys_mmap_def proc_current_def page_align_up_def map_user_pages.simps)
  from sys_mmap_repeats [OF s(1) r _ z] r z show ?thesis by auto
qed

text \<open>A length that wraps around is accepted: the call maps nothing and returns the address.\<close>

lemma sys_mmap_wraps:
  assumes "current_process s = Some p" "addr \<noteq> 0" "page_align_up (page_align_up addr + len) \<le> page_align_up addr"
  shows "sys_mmap addr len prot flags s = Some (page_align_up addr, s)"
  using assms by (simp add: sys_mmap_def proc_current_def Let_def not_less [symmetric] map_user_pages.simps [of "page_align_up addr"])

end
