(* ===== verification/Syscall_Fs_Props.thy ===== *)
theory Syscall_Fs_Props
  imports Syscall_Props
begin

text \<open>
  The system calls on files: \<^verbatim>\<open>sys_open\<close> against the abstract directory tree, opening and reading
  a file, \<^verbatim>\<open>sys_readdir\<close>, and the registers that \<^verbatim>\<open>syscall_init\<close> programs.
\<close>

section \<open>Specification\<close>

text \<open>The string at \<open>p\<close>, at most \<open>n\<close> bytes of it.\<close>

primrec path_at :: "nat \<Rightarrow> u64 \<Rightarrow> (u64 \<Rightarrow> u8) \<Rightarrow> u8 list" where
  "path_at 0 p m = []"
| "path_at (Suc n) p m = (if m p = 0 then [] else m p # path_at n (p + 1) m)"

text \<open>The path \<^verbatim>\<open>a\<close> in the user's memory.\<close>

definition path_calls :: syscalls where
  "path_calls = (user_calls [])\<lparr>mem := (mem (user_calls []))(0x400000 := 0x61)\<rparr>"

definition dir_listing :: "mesafs_dirent_t list \<Rightarrow> u8 list" where
  "dir_listing es = concat (map (\<lambda>e. entry_name e @ [0x0A]) es)"

text \<open>The values that the registers hold after a trace, and what the processor takes from \<^verbatim>\<open>STAR\<close>.\<close>

fun msr_after :: "cpu_event list \<Rightarrow> u32 \<rightharpoonup> u64" where
  "msr_after [] = Map.empty"
| "msr_after (e # es) = (case e of WrMsr r v \<Rightarrow> (msr_after es)(r \<mapsto> v) | _ \<Rightarrow> msr_after es)"

definition syscall_cs :: "u64 \<Rightarrow> u64" where
  "syscall_cs star = drop_bit 32 star AND 0xFFFC"

definition sysret_cs :: "u64 \<Rightarrow> u64" where
  "sysret_cs star = (drop_bit 48 star + 16) OR 3"

definition sysret_ss :: "u64 \<Rightarrow> u64" where
  "sysret_ss star = (drop_bit 48 star + 8) OR 3"

section \<open>Copying a path\<close>

lemma copy_bytes_1: "copy_bytes q p 1 m = m(q := m p)"
  by (simp add: copy_bytes_def)

lemma copy_path_reads:
  fixes s :: "'a syscalls_scheme"
  assumes "p \<noteq> 0" "unat p + n \<le> 0xFFFF800000000000" "unat (local_at s L_c) < unat p \<or> unat p + n \<le> unat (local_at s L_c)"
  shows "\<exists>c. copy_path n p s = (Some (path_at n p (mem s)), s\<lparr>mem := (mem s)(local_at s L_c := c)\<rparr>)"
  using assms
proof (induction n arbitrary: p s)
  case 0
  have "s\<lparr>mem := (mem s)(local_at s L_c := mem s (local_at s L_c))\<rparr> = s" by simp
  then show ?case by (intro exI [of _ "mem s (local_at s L_c)"]) simp
next
  case (Suc n)
  let ?q = "local_at s L_c" let ?s = "s\<lparr>mem := (mem s)(?q := mem s p)\<rparr>"
  have ur: "user_range p 1" using Suc.prems(2) by (simp add: user_range_def)
  have p1: "unat (p + 1) = unat p + 1" using Suc.prems(2) unat_offset [of p 1] by simp
  have cp: "copy_from_user ?q p 1 s = (1, ?s)" using Suc.prems(1) ur using copy_bytes_1 by (simp add: copy_from_user_accepts)
  have same: "path_at k r ((mem s)(?q := c)) = path_at k r (mem s)" if "unat ?q < unat r \<or> unat r + k \<le> unat ?q" "unat r + k < 2 ^ 64" for k r c
    using that
  proof (induction k arbitrary: r)
    case (Suc k)
    have r1: "unat (r + 1) = unat r + 1" using Suc.prems(2) unat_offset [of r 1] by simp
    have "path_at k (r + 1) ((mem s)(?q := c)) = path_at k (r + 1) (mem s)"
      using Suc.prems r1 by (intro Suc.IH) auto
    moreover have "r \<noteq> ?q" using Suc.prems(1) by auto
    ultimately show ?case by (simp add: fun_upd_other del: fun_upd_apply)
  qed simp
  show ?case
  proof (cases "mem s p = 0")
    case True
    then show ?thesis using cp by (intro exI [of _ 0]) (simp add: fun_upd_same del: fun_upd_apply)
  next
    case False
    have "p + 1 \<noteq> 0" using p1 by (metis add_is_0 one_neq_zero unat_eq_zero)
    moreover have "unat ?q < unat (p + 1) \<or> unat (p + 1) + n \<le> unat ?q" using Suc.prems(3) p1 by linarith
    moreover have "unat (p + 1) + n \<le> 0xFFFF800000000000" using Suc.prems(2) p1 by linarith
    ultimately have "\<exists>c. copy_path n (p + 1) ?s = (Some (path_at n (p + 1) (mem ?s)), ?s\<lparr>mem := (mem ?s)(local_at ?s L_c := c)\<rparr>)"
      by (intro Suc.IH) simp_all
    then obtain c where "copy_path n (p + 1) ?s = (Some (path_at n (p + 1) (mem ?s)), ?s\<lparr>mem := (mem ?s)(local_at ?s L_c := c)\<rparr>)" ..
    moreover have "path_at n (p + 1) (mem ?s) = path_at n (p + 1) (mem s)"
      using same [of "p + 1" n "mem s p"] Suc.prems p1 by auto
    ultimately show ?thesis using False cp
      by (intro exI [of _ c]) (simp add: fun_upd_same del: fun_upd_apply)
  qed
qed

section \<open>Opening files\<close>

lemma path_at_nonzero: "0 \<notin> set (path_at n p m)"
  by (induction n arbitrary: p) auto

lemma length_path_at: "length (path_at n p m) \<le> n"
  by (induction n arbitrary: p) auto

lemma tree_store:
  fixes c :: u8
  assumes "fs_ok fs s" "off_disk s p 1"
  defines "s' \<equiv> s\<lparr>mem := (mem s)(p := c)\<rparr>"
  shows "dir_lookup s' fs = dir_lookup s fs" "dirs_wf s' fs = dirs_wf s fs"
    "has_inode s fs n \<Longrightarrow> disk_inode s' fs n = disk_inode s fs n" "is_dir s' fs d = is_dir s fs d"
    "is_dir s fs d \<Longrightarrow> dir_block s' fs d = dir_block s fs d"
proof -
  have b: "fs_block s' fs b = fs_block s fs b" if "b < sb_total_blocks (fs_sb (fs_mem s fs))" for b
    using fs_block_store [OF assms(1) that, of p "[c]"] assms(2) by (simp add: s'_def store_bytes_def)
  then show i: "has_inode s fs n \<Longrightarrow> disk_inode s' fs n = disk_inode s fs n" for n
    by (simp add: disk_inode_def has_inode_def)
  have h: "has_inode s' fs n = has_inode s fs n" for n by (simp add: has_inode_def s'_def)
  have fm: "fs_mem s' = fs_mem s" by (simp add: s'_def)
  show d: "is_dir s' fs d = is_dir s fs d" for d using i [of d] h [of d] by (auto simp: is_dir_def fm)
  show db: "is_dir s fs d \<Longrightarrow> dir_block s' fs d = dir_block s fs d" for d
    using i [of d] b by (auto simp: dir_block_def is_dir_def)
  show "dir_lookup s' fs = dir_lookup s fs" using d db by (auto simp: dir_lookup_def fun_eq_iff)
  show "dirs_wf s' fs = dirs_wf s fs" using d db by (auto simp: dirs_wf_def)
qed

lemma sys_open_walk:
  assumes "fs_ok (mounted_fs s) s" "dirs_wf s (mounted_fs s)" "slot_safe (sb_root_inode (fs_sb (fs_mem s (mounted_fs s))))"
    "user_buffer L_c 1 path 256 s"
  shows "\<exists>t. sys_open path flags s =
      Some (case walk (dir_lookup s (mounted_fs s)) (sb_root_inode (fs_sb (fs_mem s (mounted_fs s))))
               (path_components (strip_slash (path_at 255 path (mem s)))) of
          None \<Rightarrow> -1 | Some n \<Rightarrow> if n = 0 then -1 else n, t) \<and>
      (\<exists>c k. t = s\<lparr>mem := (mem s)(local_at s L_c := c), junk_reads := k\<rparr>)"
proof -
  let ?fs = "mounted_fs s" and ?path = "path_at 255 path (mem s)"
  have range: "path \<noteq> 0" "unat path + 255 \<le> 0xFFFF800000000000"
    "unat (local_at s L_c) < unat path \<or> unat path + 255 \<le> unat (local_at s L_c)"
    and ur: "user_range path 256" and od: "off_disk s (local_at s L_c) 1"
    using assms(4) by (auto simp: user_buffer_def user_range_def)
  obtain c where c: "copy_path 255 path s = (Some ?path, s\<lparr>mem := (mem s)(local_at s L_c := c)\<rparr>)"
    using copy_path_reads [OF range] by blast
  let ?s = "s\<lparr>mem := (mem s)(local_at s L_c := c)\<rparr>"
  note st = tree_store [OF assms(1) od, where c = c]
  obtain k where k: "mesafs_find_file ?fs ?path ?s = Some (case walk (dir_lookup s ?fs) (sb_root_inode (fs_sb (fs_mem s ?fs)))
      (path_components (strip_slash ?path)) of None \<Rightarrow> 0 | Some n \<Rightarrow> n, ?s\<lparr>junk_reads := k\<rparr>)"
    using mesafs_find_file_refines [of ?fs ?s ?path] assms(1-3) st path_at_nonzero [of 255 path "mem s"] by auto
  have "?fs \<noteq> 0" using assms(1) by (simp add: fs_ok_def)
  then have "sys_open path flags s = Some (case walk (dir_lookup s ?fs) (sb_root_inode (fs_sb (fs_mem s ?fs)))
      (path_components (strip_slash ?path)) of None \<Rightarrow> -1 | Some n \<Rightarrow> if n = 0 then -1 else n, ?s\<lparr>junk_reads := k\<rparr>)"
    using range(1) ur c k by (simp add: sys_open_def validate_accepts mesafs_get_mounted_def split: option.split)
  then show ?thesis by blast
qed

lemma file_store:
  fixes c :: u8 and k :: nat
  assumes "fs_ok fs s" "off_disk s p 1" "has_inode s fs n" "blocks_ok s fs (disk_inode s fs n)"
  defines "s' \<equiv> s\<lparr>mem := (mem s)(p := c), junk_reads := k\<rparr>"
  shows "fs_ok fs s'" "has_inode s' fs n" "disk_inode s' fs n = disk_inode s fs n" "blocks_ok s' fs (disk_inode s fs n)"
    "file_data s' fs (disk_inode s fs n) = file_data s fs (disk_inode s fs n)"
proof -
  let ?m = "s\<lparr>mem := (mem s)(p := c)\<rparr>"
  have b: "fs_block ?m fs b = fs_block s fs b" if "b < sb_total_blocks (fs_sb (fs_mem s fs))" for b
    using fs_block_store [OF assms(1) that, of p "[c]"] assms(2) by (simp add: store_bytes_def)
  show "fs_ok fs s'" using assms(1) by (simp add: s'_def fs_ok_def vdisk_ok_def)
  show "has_inode s' fs n" "blocks_ok s' fs (disk_inode s fs n)" using assms(3,4) by (simp_all add: s'_def has_inode_def blocks_ok_def)
  have j: "fs_block s' fs b = fs_block ?m fs b" for b
    by (simp add: s'_def fs_block_def sectors_def vsector_def vdisk_addr_def del: upt_rec_numeral)
  show "disk_inode s' fs n = disk_inode s fs n" using tree_store(3) [OF assms(1-3), where c = c] j by (simp add: disk_inode_def)
  have "map (fs_block s' fs) (file_blocks (disk_inode s fs n)) = map (fs_block s fs) (file_blocks (disk_inode s fs n))"
    using assms(4) b j by (auto simp: blocks_ok_def)
  then show "file_data s' fs (disk_inode s fs n) = file_data s fs (disk_inode s fs n)"
    unfolding file_data_def by (simp only:)
qed

section \<open>Properties\<close>

text \<open>
  \<^verbatim>\<open>sys_open\<close> resolves the path in the user's memory, up to its NUL and at most 255 bytes of it, component
  by component from the root directory, and returns the number of the inode or -1 when there is no
  such file.  What it leaves in memory is one byte of its own.
\<close>

theorem sys_open_resolves:
  assumes "fs_ok (mounted_fs s) s" "dirs_wf s (mounted_fs s)" "slot_safe (sb_root_inode (fs_sb (fs_mem s (mounted_fs s))))"
    "user_buffer L_c 1 path 256 s"
  shows "\<exists>t. sys_open path flags s =
      Some (case walk (dir_lookup s (mounted_fs s)) (sb_root_inode (fs_sb (fs_mem s (mounted_fs s))))
               (path_components (strip_slash (path_at 255 path (mem s)))) of
          None \<Rightarrow> -1 | Some n \<Rightarrow> if n = 0 then -1 else n, t) \<and>
      (\<forall>x. x \<noteq> local_at s L_c \<longrightarrow> mem t x = mem s x)"
  using sys_open_walk [OF assms, of flags] by fastforce

text \<open>
  C31: a file that is opened by its path and then read: the descriptor is the number of its inode, and
  the read delivers the first bytes of the file, at most 512 of them.  The number has to be above 2: the
  inodes 1 and 2 can be opened and not read, as the next theorem shows.
\<close>

theorem open_read_file:
  assumes "fs_ok (mounted_fs s) s" "dirs_wf s (mounted_fs s)" "slot_safe (sb_root_inode (fs_sb (fs_mem s (mounted_fs s))))"
    "user_buffer L_c 1 path 256 s" "user_buffer L_file_kbuf 512 buf cnt s"
    "walk (dir_lookup s (mounted_fs s)) (sb_root_inode (fs_sb (fs_mem s (mounted_fs s))))
       (path_components (strip_slash (path_at 255 path (mem s)))) = Some n"
    "2 < sint n" "has_inode s (mounted_fs s) n" "slot_safe n" "in_type (disk_inode s (mounted_fs s) n) = MESAFS_TYPE_FILE"
    "blocks_ok s (mounted_fs s) (disk_inode s (mounted_fs s) n)"
  shows "let bs = take (min 512 (unat cnt)) (file_data s (mounted_fs s) (disk_inode s (mounted_fs s) n))
    in \<exists>t u. sys_open path flags s = Some (n, t) \<and> sys_read n buf cnt t = Some (of_nat (length bs), u) \<and>
         (\<forall>i < length bs. mem u (buf + of_nat i) = bs ! i)"
proof -
  have "n \<noteq> 0" using assms(7) by auto
  with sys_open_walk [OF assms(1-4), of flags] assms(6) obtain t c k where
    t: "sys_open path flags s = Some (n, t)" "t = s\<lparr>mem := (mem s)(local_at s L_c := c), junk_reads := k\<rparr>" by auto
  have "off_disk s (local_at s L_c) 1" using assms(4) by (simp add: user_buffer_def)
  note st = file_store [OF assms(1) this assms(8,11), where c = c and k = k, folded t(2)]
  have "mounted_fs t = mounted_fs s" "user_buffer L_file_kbuf 512 buf cnt t"
    using assms(5) by (simp_all add: t(2) user_buffer_def off_disk_def)
  with sys_read_file_bytes [of t n buf cnt] st assms(7,9,10) show ?thesis using t(1) by (auto simp: Let_def)
qed

text \<open>
  Descriptors are inode numbers, and the numbers 1 and 2 mean the console: whatever path leads to
  inode 1, which is the root directory, or to inode 2, opening it succeeds and reading from the
  descriptor fails.
\<close>

theorem open_low_inode_unreadable:
  assumes "fs_ok (mounted_fs s) s" "dirs_wf s (mounted_fs s)" "slot_safe (sb_root_inode (fs_sb (fs_mem s (mounted_fs s))))"
    "user_buffer L_c 1 path 256 s" "n = 1 \<or> n = 2"
    "walk (dir_lookup s (mounted_fs s)) (sb_root_inode (fs_sb (fs_mem s (mounted_fs s))))
       (path_components (strip_slash (path_at 255 path (mem s)))) = Some n"
  shows "\<exists>t. sys_open path flags s = Some (n, t) \<and> sys_read n buf cnt t = Some (-1, t)"
proof -
  from sys_open_walk [OF assms(1-4), of flags] assms(5,6) obtain t where "sys_open path flags s = Some (n, t)" by auto
  moreover have "sys_read n buf cnt t = Some (-1, t)" using assms(5) by (auto simp: sys_read_def)
  ultimately show ?thesis by blast
qed

lemma user_calls_dirs:
  "dirs_wf (user_calls ks) 0x10" "dir_lookup (user_calls ks) 0x10 = dir_lookup sample_vol 0x10"
  "fs_mem (user_calls ks) fs = sample_mount"
proof -
  show m: "fs_mem (user_calls ks) fs = sample_mount" for fs
    by (simp add: user_calls_def typing_vfs_def fresh_idt_def sample_idt_def vfs.defs idt_state.defs proc.defs tss_state.defs
        mesafs.defs sample_vol_fields)
  have d: "is_dir (user_calls ks) 0x10 d = is_dir sample_vol 0x10 d" "dir_block (user_calls ks) 0x10 d = dir_block sample_vol 0x10 d" for d
    by (simp_all add: is_dir_def dir_block_def user_calls_vol m sample_vol_fields)
  show "dirs_wf (user_calls ks) 0x10" using sample_dirs_wf by (simp add: dirs_wf_def d)
  show "dir_lookup (user_calls ks) 0x10 = dir_lookup sample_vol 0x10" by (simp add: dir_lookup_def d fun_eq_iff)
qed

lemma user_calls_blank: "0x210000 \<le> unat a \<Longrightarrow> mem (user_calls ks) a = 0"
proof -
  assume a: "0x210000 \<le> unat a"
  then have "unat (a - 0x200000) = unat a - 0x200000" by (subst unat_sub) (simp_all add: word_le_nat_alt)
  moreover have "mem (typing_vfs ks) = mem sample_vol"
    by (simp add: typing_vfs_def fresh_idt_def sample_idt_def idt_state.defs proc.defs tss_state.defs mesafs.defs)
  moreover have "vol_byte n = 0" if "20997 \<le> n" for n using that by (simp add: vol_byte_def)
  ultimately show ?thesis using a by (simp add: sample_vol_fields)
qed

lemma path_calls_facts:
  "mounted_fs path_calls = 0x10" "fs_ok 0x10 path_calls" "dirs_wf path_calls 0x10" "fs_mem path_calls fs = sample_mount"
  "dir_lookup path_calls 0x10 = dir_lookup sample_vol 0x10" "has_inode path_calls 0x10 3"
  "disk_inode path_calls 0x10 3 = disk_inode sample_vol 0x10 3" "blocks_ok path_calls 0x10 (disk_inode sample_vol 0x10 3)"
  "path_at 255 0x400000 (mem path_calls) = [0x61]"
  "user_buffer L_c 1 0x400000 256 path_calls" "user_buffer L_file_kbuf 512 0x500000 4 path_calls"
proof -
  have od: "off_disk (user_calls []) 0x400000 1" by (simp add: off_disk_def user_calls_vol)
  note st = tree_store [OF user_calls_vol(1) od, where c = "0x61", folded path_calls_def]
  have h: "has_inode (user_calls []) 0x10 3" using sample_file(1) user_calls_vol(7) by simp
  show "mounted_fs path_calls = 0x10" "fs_ok 0x10 path_calls" "fs_mem path_calls fs = sample_mount"
    using user_calls_vol(1,2) by (simp_all add: path_calls_def user_calls_dirs)
  show "dirs_wf path_calls 0x10" "dir_lookup path_calls 0x10 = dir_lookup sample_vol 0x10" by (simp_all add: st user_calls_dirs)
  show "has_inode path_calls 0x10 3" "blocks_ok path_calls 0x10 (disk_inode sample_vol 0x10 3)"
    using sample_file(1,6) by (simp_all add: path_calls_def has_inode_def blocks_ok_def user_calls_dirs sample_vol_fields)
  show "disk_inode path_calls 0x10 3 = disk_inode sample_vol 0x10 3" using st(3) [OF h] user_calls_vol(6) by simp
  have "(255 :: nat) = Suc (Suc 253)" by simp
  moreover have "mem (user_calls []) 0x400001 = 0" by (rule user_calls_blank) simp
  ultimately show "path_at 255 0x400000 (mem path_calls) = [0x61]" by (simp only: path_at.simps) (simp add: path_calls_def)
  show "user_buffer L_c 1 0x400000 256 path_calls" "user_buffer L_file_kbuf 512 0x500000 4 path_calls"
    by (simp_all add: path_calls_def user_buffer_def off_disk_def user_calls_vol sample_local_def user_range_def)
qed

lemma path_calls_walk:
  "walk (dir_lookup path_calls 0x10) (sb_root_inode (fs_sb (fs_mem path_calls 0x10)))
     (path_components (strip_slash (path_at 255 0x400000 (mem path_calls)))) = Some 3"
  using sample_walk by (simp add: path_calls_facts strip_slash_def path_components.simps sample_mount_def del: walk.simps)

lemma sample_root_safe: "slot_safe (sb_root_inode (fs_sb sample_mount))"
  by (simp add: slot_safe_def sample_mount_def)

theorem sys_open_resolves_witness: "\<exists>t. sys_open 0x400000 0 path_calls = Some (3, t) \<and> mem t 0x400000 = 0x61"
proof -
  have "mem path_calls 0x400000 = 0x61" "local_at path_calls L_c \<noteq> 0x400000" by (simp_all add: path_calls_def sample_local_def)
  then show ?thesis
    using sys_open_resolves [of path_calls "0x400000" 0] path_calls_facts path_calls_walk sample_root_safe by auto
qed

theorem open_read_file_witness:
  "\<exists>t u. sys_open 0x400000 0 path_calls = Some (3, t) \<and> sys_read 3 0x500000 4 t = Some (4, u)"
proof -
  have "length (take (min 512 (unat (4 :: u64))) (file_data path_calls 0x10 (disk_inode path_calls 0x10 3))) = 4"
    by (simp add: file_data_def path_calls_facts sample_file)
  then show ?thesis
    using open_read_file [of path_calls "0x400000" "0x500000" 4 3 0] path_calls_facts path_calls_walk sample_root_safe sample_file
    by (auto simp: Let_def)
qed

lemma user_calls_root:
  "walk (dir_lookup (user_calls []) 0x10) (sb_root_inode (fs_sb (fs_mem (user_calls []) 0x10)))
     (path_components (strip_slash (path_at 255 0x400000 (mem (user_calls []))))) = Some 1"
  "user_buffer L_c 1 0x400000 256 (user_calls [])"
proof -
  have "(255 :: nat) = Suc 254" by simp
  moreover have "mem (user_calls []) 0x400000 = 0" by (rule user_calls_blank) simp
  ultimately have "path_at 255 0x400000 (mem (user_calls [])) = []" by (simp only: path_at.simps) simp
  then show "walk (dir_lookup (user_calls []) 0x10) (sb_root_inode (fs_sb (fs_mem (user_calls []) 0x10)))
      (path_components (strip_slash (path_at 255 0x400000 (mem (user_calls []))))) = Some 1"
    by (simp add: strip_slash_def path_components.simps user_calls_dirs sample_mount_def)
  show "user_buffer L_c 1 0x400000 256 (user_calls [])"
    by (simp add: user_buffer_def off_disk_def user_calls_vol sample_local_def user_range_def)
qed

theorem open_low_inode_unreadable_witness:
  "\<exists>t. sys_open 0x400000 0 (user_calls []) = Some (1, t) \<and> sys_read 1 0x500000 4 t = Some (-1, t)"
  using open_low_inode_unreadable [of "user_calls []" "0x400000" 1 0 "0x500000" 4] user_calls_vol(1,2) user_calls_dirs
    user_calls_root sample_root_safe by auto

section \<open>Listing a directory\<close>

lemma list_entries_all: "cnt + int (length es) \<le> m \<Longrightarrow> list_entries es cnt m = filter entry_used es"
  by (induction es arbitrary: cnt) auto

lemma readdir_fill_bound: "int (length out) \<le> sz - 1 \<Longrightarrow> int (length (readdir_fill arr i es sz out)) \<le> sz - 1"
proof (induction es arbitrary: i out)
  case (Cons e es)
  let ?out1 = "out @ take (nat (sz - 2 - int (length out))) (take (unat (de_name_len e)) (drop (64 * i + 6) arr))"
  have "int (length ?out1) \<le> sz - 1" using Cons.prems by simp
  then have "int (length (if int (length ?out1) < sz - 1 then ?out1 @ [0x0A] else ?out1)) \<le> sz - 1" by simp
  from Cons.IH [OF this] Cons.prems show ?case by (simp add: Let_def del: length_append)
qed simp

lemma dirent_name_at:
  assumes "\<forall>e \<in> set (es @ e # es'). entry_wf e"
  shows "take (unat (de_name_len e)) (drop (64 * length es + 6) (concat (map dirent_bytes (es @ e # es')) @ junk)) = entry_name e"
proof -
  have wf: "length (de_name e) = 58" "unat (de_name_len e) \<le> 58" "length (dirent_bytes e) = 64" if "entry_wf e" for e
    using that by (simp_all add: entry_wf_def dirent_bytes_def word_le_nat_alt)
  have len: "length (concat (map dirent_bytes es)) = 64 * length es" if "\<forall>e \<in> set es. entry_wf e" for es
    using that by (induction es) (simp_all add: wf)
  have "drop (64 * length es + 6) (concat (map dirent_bytes (es @ e # es')) @ junk) =
      drop 6 (dirent_bytes e @ concat (map dirent_bytes es') @ junk)"
    using len [of es] assms by simp
  also have "\<dots> = de_name e @ concat (map dirent_bytes es') @ junk" by (simp add: dirent_bytes_def)
  finally show ?thesis using wf [of e] assms by (simp add: entry_name_def)
qed

lemma readdir_fill_fits:
  assumes "\<forall>e \<in> set (done @ es). entry_wf e" "int (length out + length (dir_listing es)) < sz"
  shows "readdir_fill (concat (map dirent_bytes (done @ es)) @ junk) (length done) es sz out = out @ dir_listing es"
  using assms
proof (induction es arbitrary: "done" out)
  case Nil
  then show ?case by (simp add: dir_listing_def)
next
  case (Cons e es)
  let ?arr = "concat (map dirent_bytes (done @ e # es)) @ junk"
  have name: "take (unat (de_name_len e)) (drop (64 * length done + 6) ?arr) = entry_name e"
    using Cons.prems(1) by (intro dirent_name_at) simp
  have len: "int (length out) + int (length (entry_name e)) + 1 < sz"
    using Cons.prems(2) by (simp add: dir_listing_def)
  then have tk: "take (nat (sz - 2 - int (length out))) (entry_name e) = entry_name e" by (intro take_all) simp
  have "readdir_fill ?arr (length done) (e # es) sz out = readdir_fill ?arr (Suc (length done)) es sz (out @ entry_name e @ [0x0A])"
    unfolding readdir_fill.simps Let_def name tk using len by simp
  also have "\<dots> = (out @ entry_name e @ [0x0A]) @ dir_listing es"
    using Cons.IH [of "done @ [e]" "out @ entry_name e @ [0x0A]"] Cons.prems by (simp add: dir_listing_def)
  finally show ?case by (simp add: dir_listing_def)
qed

section \<open>The listing in the user's buffer\<close>

lemma list_dir_fs:
  assumes "fs_ok fs s" "slot_safe d" "is_dir s fs d" "d \<noteq> 0"
  shows "mesafs_list_dir fs d 64 s =
    (let es = filter entry_used (dir_entries (dir_block s fs d))
     in Some ((of_nat (length es), es), s\<lparr>junk_reads := Suc (junk_reads s)\<rparr>))"
proof -
  let ?s = "s\<lparr>junk_reads := Suc (junk_reads s)\<rparr>"
  have "fs_ok fs ?s" using assms(1) by (simp add: fs_ok_def vdisk_ok_def)
  moreover have "fs_block ?s fs b = fs_block s fs b" for b
    by (simp add: fs_block_def sectors_def vsector_def vdisk_addr_def del: upt_rec_numeral)
  moreover have "list_entries (dir_entries bs) 0 64 = filter entry_used (dir_entries bs)" for bs
    by (rule list_entries_all) (simp add: dir_entries_def del: upt_rec_numeral)
  ultimately show ?thesis using assms
    by (simp add: mesafs_list_dir_def read_inode_fs seen_inode_safe is_dir_def read_block_fs dir_block_def fs_ok_def Let_def)
qed

lemma junk_same:
  "fs_ok fs (s\<lparr>junk_reads := k\<rparr>) = fs_ok fs s" "is_dir (s\<lparr>junk_reads := k\<rparr>) fs d = is_dir s fs d"
  "dir_block (s\<lparr>junk_reads := k\<rparr>) fs d = dir_block s fs d"
proof -
  have b: "fs_block (s\<lparr>junk_reads := k\<rparr>) fs b = fs_block s fs b" for b
    by (simp add: fs_block_def sectors_def vsector_def vdisk_addr_def del: upt_rec_numeral)
  then have i: "disk_inode (s\<lparr>junk_reads := k\<rparr>) fs d = disk_inode s fs d" for d by (simp add: disk_inode_def)
  show "fs_ok fs (s\<lparr>junk_reads := k\<rparr>) = fs_ok fs s" by (simp add: fs_ok_def vdisk_ok_def)
  show "is_dir (s\<lparr>junk_reads := k\<rparr>) fs d = is_dir s fs d" "dir_block (s\<lparr>junk_reads := k\<rparr>) fs d = dir_block s fs d"
    by (simp_all add: is_dir_def has_inode_def dir_block_def b i)
qed

lemma sys_readdir_out:
  fixes s :: "'a syscalls_scheme"
  assumes "fs_ok (mounted_fs s) s" "dirs_wf s (mounted_fs s)" "slot_safe (sb_root_inode (fs_sb (fs_mem s (mounted_fs s))))"
    "user_buffer L_c 1 path 256 s" "buf \<noteq> 0" "user_range buf sz" "0 < sz" "sz < 0x80000000"
    "walk (dir_lookup s (mounted_fs s)) (sb_root_inode (fs_sb (fs_mem s (mounted_fs s))))
       (path_components (strip_slash (path_at 255 path (mem s)))) = Some d"
    "d \<noteq> 0" "is_dir s (mounted_fs s) d" "slot_safe d"
  shows "\<exists>c k junk. let es = filter entry_used (dir_entries (dir_block s (mounted_fs s) d));
        out = readdir_fill (concat (map dirent_bytes es) @ junk) 0 es (int (unat sz)) []
    in length out < unat sz \<and>
       sys_readdir path buf sz s = Some (of_nat (length out),
         s\<lparr>mem := store_bytes buf (out @ [0]) ((mem s)(local_at s L_c := c)), junk_reads := k\<rparr>)"
proof -
  let ?fs = "mounted_fs s" and ?path = "path_at 255 path (mem s)"
  let ?es = "filter entry_used (dir_entries (dir_block s ?fs d))"
  have range: "path \<noteq> 0" "unat path + 255 \<le> 0xFFFF800000000000"
    "unat (local_at s L_c) < unat path \<or> unat path + 255 \<le> unat (local_at s L_c)"
    and ur: "user_range path 256" and od: "off_disk s (local_at s L_c) 1"
    using assms(4) by (auto simp: user_buffer_def user_range_def)
  obtain c where c: "copy_path 255 path s = (Some ?path, s\<lparr>mem := (mem s)(local_at s L_c := c)\<rparr>)"
    using copy_path_reads [OF range] by blast
  let ?s = "s\<lparr>mem := (mem s)(local_at s L_c := c)\<rparr>"
  note st = tree_store [OF assms(1) od, where c = c]
  obtain k where k: "mesafs_find_file ?fs ?path ?s = Some (d, ?s\<lparr>junk_reads := k\<rparr>)"
    using mesafs_find_file_refines [of ?fs ?s ?path] assms(1-3,9) st path_at_nonzero [of 255 path "mem s"] by auto
  let ?t = "?s\<lparr>junk_reads := k\<rparr>"
  have junk: "fs_ok ?fs ?t" "is_dir ?t ?fs d" "dir_block ?t ?fs d = dir_block s ?fs d"
    using assms(1,11) st by (simp_all add: junk_same)
  have l: "mesafs_list_dir ?fs d 64 ?t = Some ((of_nat (length ?es), ?es), ?t\<lparr>junk_reads := Suc k\<rparr>)"
    using list_dir_fs [OF junk(1) assms(12) junk(2) assms(10)] junk(3) by (simp add: Let_def)
  have "length ?es \<le> 64" using length_filter_le [of entry_used "dir_entries (dir_block s ?fs d)"]
    by (simp add: dir_entries_def del: upt_rec_numeral)
  then have pos: "\<not> sint (of_nat (length ?es) :: i32) < 0" using small_int(2) [of "length ?es"] by simp
  have "ucast sz = (of_nat (unat sz) :: i32)" by simp
  then have sz: "sint (ucast sz :: i32) = int (unat sz)" using small_int(2) [of "unat sz"] assms(8) by (simp add: word_less_nat_alt)
  define junk' where "junk' = fst (stack_bytes 4352 (?t\<lparr>junk_reads := Suc k\<rparr>))"
  define out where "out = readdir_fill (concat (map dirent_bytes ?es) @ junk') 0 ?es (int (unat sz)) []"
  have "0 < unat sz" using assms(7) by (simp add: word_less_nat_alt)
  then have len: "length out < unat sz"
    using readdir_fill_bound [of "[]" "int (unat sz)" "concat (map dirent_bytes ?es) @ junk'" 0 ?es]
    by (simp add: out_def del: of_nat_unat)
  have "sys_readdir path buf sz s = Some (of_nat (length out),
      s\<lparr>mem := store_bytes buf (out @ [0]) ((mem s)(local_at s L_c := c)), junk_reads := Suc (Suc k)\<rparr>)"
  proof -
    have "?fs \<noteq> 0" using assms(1) by (simp add: fs_ok_def)
    moreover have "stack_bytes 4352 (?t\<lparr>junk_reads := Suc k\<rparr>) = (junk', ?t\<lparr>junk_reads := Suc (Suc k)\<rparr>)"
      by (simp add: junk'_def stack_bytes_def del: upt_rec_numeral)
    ultimately show ?thesis
      using validate_accepts [OF range(1) ur, of s] validate_accepts [OF assms(5,6), of s] c k l pos assms(10) len
      unfolding sys_readdir_def Let_def
      by (simp add: mesafs_get_mounted_def sz out_def [symmetric] del: fun_upd_apply of_nat_unat)
  qed
  with len show ?thesis unfolding Let_def out_def by blast
qed

section \<open>Properties\<close>

text \<open>
  C32: \<^verbatim>\<open>sys_readdir\<close> of a directory whose listing fits leaves the names of its entries in use, each with a
  newline, and a final NUL in the user's buffer, and returns the length.
\<close>

theorem sys_readdir_lists:
  assumes "fs_ok (mounted_fs s) s" "dirs_wf s (mounted_fs s)" "slot_safe (sb_root_inode (fs_sb (fs_mem s (mounted_fs s))))"
    "user_buffer L_c 1 path 256 s" "buf \<noteq> 0" "user_range buf sz" "0 < sz" "sz < 0x80000000"
    "walk (dir_lookup s (mounted_fs s)) (sb_root_inode (fs_sb (fs_mem s (mounted_fs s))))
       (path_components (strip_slash (path_at 255 path (mem s)))) = Some d"
    "d \<noteq> 0" "is_dir s (mounted_fs s) d" "slot_safe d"
    "length (dir_listing (filter entry_used (dir_entries (dir_block s (mounted_fs s) d)))) < unat sz"
  shows "let l = dir_listing (filter entry_used (dir_entries (dir_block s (mounted_fs s) d)))
    in \<exists>t. sys_readdir path buf sz s = Some (of_nat (length l), t) \<and> (\<forall>i \<le> length l. mem t (buf + of_nat i) = (l @ [0]) ! i)"
proof -
  let ?es = "filter entry_used (dir_entries (dir_block s (mounted_fs s) d))"
  obtain c k junk where r: "sys_readdir path buf sz s =
      Some (of_nat (length (readdir_fill (concat (map dirent_bytes ?es) @ junk) 0 ?es (int (unat sz)) [])),
        s\<lparr>mem := store_bytes buf (readdir_fill (concat (map dirent_bytes ?es) @ junk) 0 ?es (int (unat sz)) [] @ [0])
          ((mem s)(local_at s L_c := c)), junk_reads := k\<rparr>)"
    using sys_readdir_out [OF assms(1-12)] unfolding Let_def by blast
  have "\<forall>e \<in> set ([] @ ?es). entry_wf e" using assms(2,11,12) by (auto simp: dirs_wf_def)
  from readdir_fill_fits [OF this, of "[]" "int (unat sz)" junk] assms(13)
  have out: "readdir_fill (concat (map dirent_bytes ?es) @ junk) 0 ?es (int (unat sz)) [] = dir_listing ?es"
    by (simp del: of_nat_unat)
  have "unat buf + length (dir_listing ?es @ [0]) \<le> 2 ^ 64" using assms(6,13) by (simp add: user_range_def)
  from store_bytes_at [OF this] show ?thesis unfolding r out Let_def by (simp add: less_Suc_eq_le)
qed

text \<open>
  C33: however small the buffer, \<^verbatim>\<open>sys_readdir\<close> stores inside it only, apart from one byte of its own, and
  ends what it stores with a NUL.
\<close>

theorem sys_readdir_inside:
  assumes "fs_ok (mounted_fs s) s" "dirs_wf s (mounted_fs s)" "slot_safe (sb_root_inode (fs_sb (fs_mem s (mounted_fs s))))"
    "user_buffer L_c 1 path 256 s" "buf \<noteq> 0" "user_range buf sz" "0 < sz" "sz < 0x80000000"
    "walk (dir_lookup s (mounted_fs s)) (sb_root_inode (fs_sb (fs_mem s (mounted_fs s))))
       (path_components (strip_slash (path_at 255 path (mem s)))) = Some d"
    "d \<noteq> 0" "is_dir s (mounted_fs s) d" "slot_safe d"
  shows "\<exists>n t. sys_readdir path buf sz s = Some (of_nat n, t) \<and> n < unat sz \<and> mem t (buf + of_nat n) = 0 \<and>
    (\<forall>x. x \<noteq> local_at s L_c \<longrightarrow> \<not> in_range buf sz x \<longrightarrow> mem t x = mem s x)"
proof -
  let ?es = "filter entry_used (dir_entries (dir_block s (mounted_fs s) d))"
  obtain c k out where len: "length out < unat sz" and r: "sys_readdir path buf sz s =
      Some (of_nat (length out), s\<lparr>mem := store_bytes buf (out @ [0]) ((mem s)(local_at s L_c := c)), junk_reads := k\<rparr>)"
    using sys_readdir_out [OF assms] unfolding Let_def by blast
  have room: "unat buf + length (out @ [0]) \<le> 2 ^ 64" using assms(6) len by (simp add: user_range_def)
  have "store_bytes buf (out @ [0]) m x = m x" if "\<not> in_range buf sz x" for m x
    using that len room by (intro store_bytes_outside) (auto simp: in_range_def)
  moreover have "store_bytes buf (out @ [0]) m (buf + of_nat (length out)) = 0" for m
    using store_bytes_at [OF room, of "length out" m] by simp
  ultimately show ?thesis using r len by (intro exI [of _ "length out"]) auto
qed

lemma user_calls_listing:
  "is_dir (user_calls []) 0x10 1" "dir_listing (filter entry_used (dir_entries (dir_block (user_calls []) 0x10 1))) = [0x61, 0x0A]"
proof -
  show "is_dir (user_calls []) 0x10 1"
    using sample_dir(1) by (simp add: is_dir_def user_calls_vol user_calls_dirs sample_vol_fields)
  have "dir_block (user_calls []) 0x10 1 = fs_block sample_vol 0x10 20"
    using sample_dir(2) by (simp add: dir_block_def user_calls_vol)
  then show "dir_listing (filter entry_used (dir_entries (dir_block (user_calls []) 0x10 1))) = [0x61, 0x0A]"
    by (simp add: sample_entries [unfolded drop_0] dir_listing_def)
qed

theorem sys_readdir_lists_witness:
  "\<exists>t. sys_readdir 0x400000 0x500000 100 (user_calls []) = Some (2, t) \<and> mem t 0x500000 = 0x61 \<and> mem t 0x500002 = 0"
proof -
  obtain t where t: "sys_readdir 0x400000 0x500000 100 (user_calls []) = Some (2, t)"
    "\<forall>i \<le> 2. mem t (0x500000 + of_nat i) = ([0x61, 0x0A] @ [0]) ! i"
    using sys_readdir_lists [of "user_calls []" "0x400000" "0x500000" 100 1] user_calls_root user_calls_listing user_calls_vol(1,2)
      user_calls_dirs(1,3) sample_root_safe by (auto simp: Let_def user_range_def slot_safe_def)
  from t(2) [rule_format, of 0] t(2) [rule_format, of 2] t(1) show ?thesis by simp
qed

theorem sys_readdir_inside_witness:
  "\<exists>n t. sys_readdir 0x400000 0x500000 2 (user_calls []) = Some (of_nat n, t) \<and> n < 2 \<and> mem t (0x500000 + of_nat n) = 0"
  using sys_readdir_inside [of "user_calls []" "0x400000" "0x500000" 2 1] user_calls_root user_calls_listing user_calls_vol(1,2)
    user_calls_dirs(1,3) sample_root_safe by (auto simp: user_range_def slot_safe_def)

section \<open>Model-specific registers\<close>

lemma msr_after_console [simp]:
  "msr_after (trace (console_puts cs s)) = msr_after (trace s)"
  "msr_after (trace (console_set_color fg bg s)) = msr_after (trace s)"
proof -
  have u: "msr_after (trace (update_cursor s)) = msr_after (trace s)" for s :: "'a console_scheme"
    by (simp add: update_cursor_def Let_def)
  have r: "trace (redraw_row i s) = trace s" for i and s :: "'a console_scheme" by (simp add: redraw_row_def Let_def)
  have rd: "trace (console_redraw_from_history s) = trace s" for s :: "'a console_scheme"
    unfolding console_redraw_from_history_def by (simp add: r fold_same [where g = trace])
  have sc: "trace (console_scroll s) = trace s" for s :: "'a console_scheme" by (simp add: console_scroll_def Let_def)
  have p: "msr_after (trace (console_putchar c s)) = msr_after (trace s)" for c and s :: "'a console_scheme"
    by (simp add: console_putchar_def Let_def scroll_loop_step u rd sc putchar_switch_def)
  show "msr_after (trace (console_puts cs s)) = msr_after (trace s)"
    by (induction cs s rule: console_puts.induct) (simp_all add: console_puts.simps p)
  show "msr_after (trace (console_set_color fg bg s)) = msr_after (trace s)" by (simp add: console_set_color_def)
qed

lemma wrmsr_value: "msr_after (trace (wrmsr r v s)) = (msr_after (trace s))(r \<mapsto> v)"
proof -
  have "push_bit 32 (drop_bit 32 v) OR (v AND 0xFFFFFFFF) = v"
  proof -
    have "v AND 0xFFFFFFFF = take_bit 32 v" by (simp add: take_bit_eq_mask mask_eq_exp_minus_1)
    moreover have "push_bit 32 (drop_bit 32 v) OR take_bit 32 v = v" by (rule bit_word_eqI) (auto simp: bit_simps)
    ultimately show ?thesis by simp
  qed
  then show ?thesis by (simp add: wrmsr_def Let_def)
qed

lemma wrmsr_frames [simp]: "machine.more (wrmsr r v s) = machine.more s"
  by (simp add: wrmsr_def Let_def)

text \<open>
  C34: after \<^verbatim>\<open>syscall_init\<close> the processor enters \<^verbatim>\<open>syscall_entry\<close> in the kernel's code segment with interrupts
  masked and the per-processor data behind \<^verbatim>\<open>gs\<close>, and \<^verbatim>\<open>sysret\<close> returns to the user selectors that
  \<^verbatim>\<open>proc_create\<close> puts on the stack of a new process.
\<close>

theorem syscall_init_registers:
  "let t = syscall_init s; star = the (msr_after (trace t) MSR_STAR)
   in msr_after (trace t) MSR_LSTAR = Some (sym s Sym_syscall_entry) \<and>
      msr_after (trace t) MSR_KERNEL_GSBASE = Some (sym s Sym_cpu_data) \<and>
      msr_after (trace t) MSR_SFMASK = Some 0x200 \<and> kernel_rsp (cpu_data t) = sym s Sym_kernel_stack_top \<and>
      syscall_cs star = ucast KERNEL_CS \<and> sysret_cs star = initial_context entry stub ! 3 \<and>
      sysret_ss star = initial_context entry stub ! 0"
proof -
  have star: "star_value = 0x13000800000000" by (simp add: star_value_def push_bit_eq_mult)
  have "syscall_cs star_value = 8" "sysret_cs star_value = 0x23" "sysret_ss star_value = 0x1B"
    by (simp_all add: star syscall_cs_def sysret_cs_def sysret_ss_def)
  then show ?thesis
    by (simp add: Let_def syscall_init_def syscall_banner_def wrmsr_value initial_context_def) (simp add: wrmsr_def Let_def)
qed

end
