(* ===== verification/Proc_Frames.thy ===== *)
theory Proc_Frames
  imports Syscall_Props
begin

text \<open>
  What leaves the processes alone: a step of a lower module (the console, the heap, the memory manager,
  the disk, the file system, the loader) changes neither the process table nor the current process,
  the ring, the next PID and the addresses that new processes get.
\<close>

text \<open>What the scheduler works on: the processes, the ring, and the addresses that new processes get.\<close>

definition procs_of :: "'a proc_scheme \<Rightarrow> pcb_t list \<times> nat option \<times> nat option \<times> u32 \<times> u64 \<times> (symbol \<Rightarrow> u64)" where
  "procs_of s = (process_table s, current_process s, process_list_head s, next_pid s, boot_pml4 s, sym s)"

lemma procs_of_mm:
  assumes "mm.more t = mm.more s" "boot_pml4 t = boot_pml4 s"
  shows "procs_of t = procs_of s"
  using assms by (cases s; cases t; simp add: procs_of_def)

lemma procs_of_console:
  assumes "console.more t = console.more s"
  shows "procs_of t = procs_of s"
  using assms by (cases s; cases t; simp add: procs_of_def)

lemma procs_of_kheap:
  assumes "kheap.more t = kheap.more s"
  shows "procs_of t = procs_of s"
  using assms by (cases s; cases t; simp add: procs_of_def)

lemma procs_of_machine:
  assumes "machine.more t = machine.more s"
  shows "procs_of t = procs_of s"
  using assms by (cases s; cases t; simp add: procs_of_def)

lemma procs_of_frames [simp]:
  "procs_of (console_puts cs s) = procs_of s" "procs_of (console_put_dec n s) = procs_of s"
  "procs_of (console_put_hex n s) = procs_of s" "procs_of (console_set_color fg bg s) = procs_of s"
  by (rule procs_of_console, simp)+

lemma procs_of_instructions [simp]: "procs_of (emit e s) = procs_of s" "procs_of (sti s) = procs_of s"
  by (rule procs_of_machine, simp)+

lemma procs_of_updates [simp]:
  fixes s :: "'a syscalls_scheme"
  shows "procs_of (s\<lparr>part_mem := pm\<rparr>) = procs_of s" "procs_of (s\<lparr>partition_list_head := a\<rparr>) = procs_of s"
    "procs_of (s\<lparr>fs_mem := fm\<rparr>) = procs_of s" "procs_of (s\<lparr>mounted_fs := fs\<rparr>) = procs_of s"
    "procs_of (s\<lparr>mem := m\<rparr>) = procs_of s" "procs_of (s\<lparr>junk_reads := n\<rparr>) = procs_of s"
    "procs_of (s\<lparr>disk_total_sectors := d\<rparr>) = procs_of s" "procs_of (s\<lparr>virtual_disk := v\<rparr>) = procs_of s"
    "procs_of (s\<lparr>using_virtual_disk := b\<rparr>) = procs_of s"
  by (simp_all add: procs_of_def)

lemma procs_of_fold: "(\<And>x s. procs_of (f x s) = procs_of s) \<Longrightarrow> procs_of (fold f xs s) = procs_of s"
  by (induction xs arbitrary: s) simp_all

lemma procs_of_read_sector: "disk_read_sector lba s = Some (r, t) \<Longrightarrow> procs_of t = procs_of s"
  by (rule procs_of_machine) (rule disk_read_machine)

lemma procs_of_write_sector:
  assumes "disk_write_sector lba bs s = Some (r, t)"
  shows "procs_of t = procs_of (s :: 'a syscalls_scheme)"
  using procs_of_machine [OF disk_write_machine [OF assms, of "mem s"]] by simp

lemma procs_of_read_sectors: "read_sectors_from n lba s = Some (r, t) \<Longrightarrow> procs_of t = procs_of s"
  by (induction n arbitrary: lba s r t) (fastforce split: option.splits prod.splits dest: procs_of_read_sector)+

lemma procs_of_write_sectors: "write_sectors_from n lba bs s = Some (r, t) \<Longrightarrow> procs_of t = procs_of (s :: 'a syscalls_scheme)"
  by (induction n arbitrary: lba bs s) (fastforce split: option.splits prod.splits bool.splits dest: procs_of_write_sector)+

lemma procs_of_kmalloc: "kmalloc n s = Some (p, t) \<Longrightarrow> procs_of t = procs_of s"
  by (rule procs_of_kheap) (rule kmalloc_frame)

lemma procs_of_stack_bytes [simp]: "procs_of (snd (stack_bytes n s)) = procs_of (s :: 'a syscalls_scheme)"
  by (simp add: stack_bytes_def)

section \<open>Reading the file system\<close>

lemma procs_of_read_block: "read_block fs b s = Some (r, t) \<Longrightarrow> procs_of t = procs_of (s :: 'a syscalls_scheme)"
  by (auto simp: read_block_def split: if_splits option.splits prod.splits dest: procs_of_read_sectors)

lemma procs_of_read_inode:
  assumes "mesafs_read_inode fs n s = Some (r, t)"
  shows "procs_of t = procs_of (s :: 'a syscalls_scheme)"
proof -
  have "procs_of w = procs_of u" if "stack_bytes k u = (x, w)" for k x and u w :: "'a syscalls_scheme"
    using that procs_of_stack_bytes [of k u] by simp
  with assms show ?thesis
    by (auto simp: mesafs_read_inode_def split: if_splits option.splits prod.splits dest!: procs_of_read_block)
qed

lemma procs_of_find_in_dir: "find_in_dir fs d name s = Some (r, t) \<Longrightarrow> procs_of t = procs_of (s :: 'a syscalls_scheme)"
  by (auto simp: find_in_dir_def split: if_splits option.splits prod.splits dest!: procs_of_read_block procs_of_read_inode)

lemma procs_of_resolve_loop: "resolve_loop fs path cur buf s = Some (r, t) \<Longrightarrow> procs_of t = procs_of (s :: 'a syscalls_scheme)"
proof (induction "length path" arbitrary: path cur buf s rule: less_induct)
  case less
  have "procs_of t = procs_of u" if "path \<noteq> []" "resolve_loop fs (tl (dropWhile (\<lambda>c. c \<noteq> SLASH) path)) n b u = Some (r, t)" for n b u
    using that less.hyps rest_shorter by blast
  with less.prems show ?case
    by (subst (asm) resolve_loop.simps)
       (auto simp: Let_def split: if_splits option.splits prod.splits dest!: procs_of_find_in_dir)
qed

lemma procs_of_find_file:
  assumes "mesafs_find_file fs path s = Some (r, t)"
  shows "procs_of t = procs_of (s :: 'a syscalls_scheme)"
proof -
  have "procs_of w = procs_of u" if "stack_bytes k u = (x, w)" for k x and u w :: "'a syscalls_scheme"
    using that procs_of_stack_bytes [of k u] by simp
  with assms show ?thesis
    by (auto simp: mesafs_find_file_def resolve_path_def Let_def split: if_splits option.splits prod.splits
        dest!: procs_of_resolve_loop)
qed

lemma procs_of_read_loop: "mesafs_read_loop fs d dst n i off s = Some (r, t) \<Longrightarrow> procs_of t = procs_of (s :: 'a syscalls_scheme)"
proof (induction "10 - unat i" arbitrary: dst n i off s rule: less_induct)
  case less
  have "procs_of t = procs_of u" if "\<not> 10 \<le> i" "mesafs_read_loop fs d dst' n' (i + 1) off' u = Some (r, t)" for dst' n' off' u
  proof -
    have "unat i < 10" using that(1) by (simp add: word_le_nat_alt)
    then have "10 - unat (i + 1) < 10 - unat i" by (simp add: unat_add_small)
    from less.hyps [OF this that(2)] show ?thesis .
  qed
  with less.prems show ?case
    by (subst (asm) mesafs_read_loop.simps)
       (auto simp: Let_def split: if_splits option.splits prod.splits dest!: procs_of_read_block)
qed

lemma procs_of_mesafs_read: "mesafs_read fs n buf cnt off s = Some (r, t) \<Longrightarrow> procs_of t = procs_of (s :: 'a syscalls_scheme)"
  by (auto simp: mesafs_read_def Let_def split: if_splits option.splits prod.splits dest!: procs_of_read_inode procs_of_read_loop)

section \<open>Memory of the user\<close>

lemma procs_of_validate [simp]: "procs_of (snd (validate_user_pointer p n s)) = procs_of s"
  by (rule procs_of_console) simp

lemma procs_of_copy_from_user [simp]: "procs_of (snd (copy_from_user d p n s)) = procs_of (s :: 'a syscalls_scheme)"
  by (simp add: copy_from_user_def split_def)

lemma procs_of_copy_path [simp]: "procs_of (snd (copy_path n p s)) = procs_of s"
proof (induction n arbitrary: p s)
  case (Suc n)
  have "procs_of (snd (copy_from_user (local_at s L_c) p 1 s)) = procs_of s" by simp
  with Suc.IH show ?case by (auto simp: Let_def split_def)
qed simp

lemma procs_of_validate_args [simp]: "procs_of (snd (validate_args argv is s)) = procs_of s"
proof (induction argv "is" s rule: validate_args.induct)
  case (2 argv i "is" s)
  obtain ok u where v: "validate_user_pointer (load_le 8 (argv + 8 * of_nat i) (mem s)) 256 s = (ok, u)" by force
  then have "procs_of u = procs_of s" using procs_of_validate [of "load_le 8 (argv + 8 * of_nat i) (mem s)" 256 s] by simp
  with 2 v show ?case by simp
qed simp

section \<open>The heap and the loader\<close>

lemma procs_of_kfree: "kfree p s = Some t \<Longrightarrow> procs_of t = procs_of s"
  by (rule procs_of_kheap) (rule kfree_frame(1))

lemma procs_of_paging [simp]: "procs_of (snd (pmm_alloc_page s)) = procs_of s" "procs_of (mm_map_page r v p f s) = procs_of s"
  by (rule procs_of_mm, simp, simp)+

lemma procs_of_elf_pages:
  fixes s :: "'a syscalls_scheme"
  assumes "elf_load_pages r data phdr ph a b s = Some x"
  shows "procs_of (snd x) = procs_of s"
proof (rule elf_load_pages.raw_induct [where P = "\<lambda>r data phdr ph a b s x. procs_of (snd x) = procs_of s", OF _ assms])
  fix loop and r data phdr a b :: u64 and ph x and s :: "'a syscalls_scheme"
  assume IH: "\<And>(r :: u64) (data :: u64) (phdr :: u64) (ph :: elf64_phdr_t) (a :: u64) (b :: u64) (s :: 'a syscalls_scheme) (x :: bool \<times> 'a syscalls_scheme).
      loop r data phdr ph a b s = Some x \<Longrightarrow> procs_of (snd x) = procs_of s"
  assume eq: "(if \<not> a < b then Some (True, s)
      else case pmm_alloc_page s of (phys, s1) \<Rightarrow>
        if phys = 0 then Some (False, console_puts ''[ELF] Out of memory\<newline>'' s1)
        else (let flags = (if p_flags (read_phdr phdr (mem s1)) AND PF_W \<noteq> 0
                           then (PTE_PRESENT OR PTE_USER) OR PTE_WRITABLE else PTE_PRESENT OR PTE_USER);
                  s2 = mm_map_page r a phys flags s1;
                  s3 = s2\<lparr>mem := elf_fill_page data (p_offset ph) (p_vaddr ph) (p_filesz ph) (p_memsz ph) a (mem s2)\<rparr>
              in loop r data phdr ph (a + PAGE_SIZE) b s3)) = Some x"
  obtain phys s1 where al: "pmm_alloc_page s = (phys, s1)" by force
  then have "procs_of s1 = procs_of s" using procs_of_paging(1) [of s] by simp
  with eq al show "procs_of (snd x) = procs_of s" by (auto simp: Let_def split: if_splits dest!: IH)
qed

lemma procs_of_elf_segment: "elf_load_segment r data phdr s = Some (ok, t) \<Longrightarrow> procs_of t = procs_of (s :: 'a syscalls_scheme)"
  by (auto simp: elf_load_segment_def Let_def dest!: procs_of_elf_pages)

lemma procs_of_elf_loop:
  fixes s :: "'a syscalls_scheme"
  assumes "elf_segments_loop r ehdr data phdrs i s = Some x"
  shows "procs_of (snd x) = procs_of s"
proof (rule elf_segments_loop.raw_induct [where P = "\<lambda>r ehdr data phdrs i s x. procs_of (snd x) = procs_of s", OF _ assms])
  fix loop and r ehdr data phdrs :: u64 and i :: u16 and x and s :: "'a syscalls_scheme"
  assume IH: "\<And>(r :: u64) (ehdr :: u64) (data :: u64) (phdrs :: u64) (i :: u16) (s :: 'a syscalls_scheme) (x :: bool \<times> 'a syscalls_scheme).
      loop r ehdr data phdrs i s = Some x \<Longrightarrow> procs_of (snd x) = procs_of s"
  assume "(if \<not> i < e_phnum (read_ehdr ehdr (mem s)) then Some (True, s)
      else let phdr = phdrs + 56 * ucast i
           in if p_type (read_phdr phdr (mem s)) = PT_LOAD
              then case elf_load_segment r data phdr s of
                     None \<Rightarrow> None
                   | Some (ok, s1) \<Rightarrow>
                       if ok then loop r ehdr data phdrs (i + 1) s1 else Some (False, s1)
              else loop r ehdr data phdrs (i + 1) s) = Some x"
  then show "procs_of (snd x) = procs_of s"
    by (auto simp: Let_def split: if_splits option.splits prod.splits dest!: IH procs_of_elf_segment)
qed

lemma procs_of_elf_load: "elf_load_segments ehdr data p s = Some (r, t) \<Longrightarrow> procs_of t = procs_of (s :: 'a syscalls_scheme)"
  by (auto simp: elf_load_segments_def Let_def split: if_splits option.splits dest!: procs_of_elf_loop)

lemma procs_of_exec_args:
  assumes "exec_args argv s = Some (ok, t)"
  shows "procs_of t = procs_of s"
proof -
  have "procs_of w = procs_of s" if "validate_args argv is s = (x, w)" for x w "is"
    using that procs_of_validate_args [of argv "is" s] by simp
  with assms show ?thesis by (auto simp: exec_args_def split: if_splits option.splits prod.splits)
qed

section \<open>The heap and the devices\<close>

text \<open>What the kernel heap and the devices depend on.\<close>

definition low_of :: "'a kheap_scheme \<Rightarrow> (cpu_event list \<Rightarrow> u16 \<Rightarrow> u16) \<times> u64 \<times> u64 \<times> spinlock_t \<times> (u64 \<Rightarrow> kheap_block)" where
  "low_of s = (dev s, kernel_end s, kheap_head s, kheap_lock s, kheap_mem s)"

lemma low_of_heap: "low_of t = low_of s \<Longrightarrow> heap_ok t bs = heap_ok s bs \<and> dev t = dev s"
  by (simp add: low_of_def heap_ok_def KHEAP_START_def)

lemma low_of_mm [simp]:
  fixes s :: "'a mm_scheme"
  shows "low_of (mm_map_page p v a f s) = low_of s" "low_of (snd (pmm_alloc_page s)) = low_of s"
proof -
  have e: "low_of (emit x u) = low_of u" "low_of (console_puts cs u) = low_of u" for x cs and u :: "'a mm_scheme"
    by (simp_all add: low_of_def)
  have m: "low_of (u\<lparr>pmem := q\<rparr>) = low_of u" "low_of (u\<lparr>phys_bitmap := q'\<rparr>) = low_of u" for q q' and u :: "'a mm_scheme"
    by (simp_all add: low_of_def)
  have p: "low_of (snd (pmm_alloc_page u)) = low_of u" for u :: "'a mm_scheme"
    by (simp add: pmm_alloc_page_def Let_def e m)
  have t: "low_of (snd (next_table q i f u)) = low_of u" for q i f and u :: "'a mm_scheme"
    by (simp add: next_table_def alloc_table_def split_def m p)
  have "low_of (snd (next_pt q i f u)) = low_of u" for q i f and u :: "'a mm_scheme"
    by (simp add: next_pt_def t e)
  with t show "low_of (mm_map_page p v a f s) = low_of s" by (simp add: mm_map_page_def split_def e m)
  show "low_of (snd (pmm_alloc_page s)) = low_of s" by (rule p)
qed

lemma low_of_frames [simp]:
  "low_of (console_puts cs s) = low_of s" "low_of (console_put_hex v s) = low_of s" "low_of (console_put_dec v s) = low_of s"
  "low_of (console_set_color fg bg s) = low_of s" "low_of (emit e s) = low_of s"
  by (simp_all add: low_of_def)

end
