(* ===== verification/Return_Props.thy ===== *)
theory Return_Props
  imports Proc_Frames
begin

text \<open>
  Calls that come to an end: on a mounted volume that lies on the disk in memory, looking up a path and
  reading a file return whatever the volume holds, and the loader returns whatever the file holds.
\<close>

section \<open>Paths and files\<close>

lemma heap_ok_updates [simp]:
  fixes s :: "'a mesafs_scheme"
  shows "heap_ok (s\<lparr>mem := m\<rparr>) bs = heap_ok s bs" "heap_ok (s\<lparr>junk_reads := k\<rparr>) bs = heap_ok s bs"
  by (simp_all add: heap_ok_def KHEAP_START_def)

lemma find_in_dir_returns:
  assumes "fs_ok fs s"
  shows "\<exists>n k. find_in_dir fs d name s = Some (n, s\<lparr>junk_reads := k\<rparr>)"
proof -
  have "\<exists>k. s = s\<lparr>junk_reads := k\<rparr>" by (intro exI [of _ "junk_reads s"]) simp
  with assms show ?thesis
    by (auto simp: find_in_dir_def read_inode_fs read_block_fs)
qed

lemma resolve_loop_returns:
  "fs_ok fs s \<Longrightarrow> \<exists>n k. resolve_loop fs path cur buf s = Some (n, s\<lparr>junk_reads := k\<rparr>)"
proof (induction "length path" arbitrary: path cur buf s rule: less_induct)
  case less
  show ?case
  proof (cases "path = []")
    case True
    then show ?thesis by (subst resolve_loop.simps) (auto intro!: exI [of _ "junk_reads s"])
  next
    case False
    let ?buf = "fill_component (takeWhile (\<lambda>c. c \<noteq> SLASH) path) buf"
    from find_in_dir_returns [OF less.prems, of cur ?buf] obtain n k where
      f: "find_in_dir fs cur ?buf s = Some (n, s\<lparr>junk_reads := k\<rparr>)" by blast
    have "fs_ok fs (s\<lparr>junk_reads := k\<rparr>)" using less.prems by simp
    from less.hyps [OF rest_shorter [OF False, of "\<lambda>c. c \<noteq> SLASH"] this, where cur = n and buf = ?buf]
    obtain n' k' where "resolve_loop fs (tl (dropWhile (\<lambda>c. c \<noteq> SLASH) path)) n ?buf (s\<lparr>junk_reads := k\<rparr>) = Some (n', s\<lparr>junk_reads := k'\<rparr>)"
      by auto
    with f False show ?thesis by (subst resolve_loop.simps) (auto simp: Let_def)
  qed
qed

lemma find_file_returns:
  assumes "fs_ok fs s"
  shows "\<exists>n k. mesafs_find_file fs path s = Some (n, s\<lparr>junk_reads := k\<rparr>)"
proof -
  have k: "\<exists>k. s = s\<lparr>junk_reads := k\<rparr>" by (intro exI [of _ "junk_reads s"]) simp
  have "fs_ok fs (s\<lparr>junk_reads := j\<rparr>)" for j using assms by simp
  from resolve_loop_returns [OF this] have "\<exists>n k. resolve_loop fs p root buf (s\<lparr>junk_reads := j\<rparr>) = Some (n, s\<lparr>junk_reads := k\<rparr>)"
    for p root buf j by fastforce
  with k show ?thesis
    by (auto simp: mesafs_find_file_def resolve_path_def stack_bytes_def Let_def simp del: upt_rec_numeral)
qed

lemma read_loop_returns:
  "fs_ok fs s \<Longrightarrow> \<exists>r m. mesafs_read_loop fs d dst n i off s = Some (r, s\<lparr>mem := m\<rparr>)"
proof (induction "10 - unat i" arbitrary: dst n i off s rule: less_induct)
  case less
  have stop: "\<exists>m. s = s\<lparr>mem := m\<rparr>" by (intro exI [of _ "mem s"]) simp
  show ?case
  proof (cases "10 \<le> i")
    case True
    with stop show ?thesis by (subst mesafs_read_loop.simps) auto
  next
    case False
    then have "unat i < 10" by (simp add: word_le_nat_alt)
    then have lt: "10 - unat (i + 1) < 10 - unat i" by (simp add: unat_add_small)
    have rec: "\<exists>r m. mesafs_read_loop fs d dst' n' (i + 1) off' (s\<lparr>mem := m'\<rparr>) = Some (r, s\<lparr>mem := m\<rparr>)" for dst' n' off' m'
      using less.hyps [OF lt, of "s\<lparr>mem := m'\<rparr>" dst' n' off'] less.prems by fastforce
    show ?thesis
      by (subst mesafs_read_loop.simps) (use stop rec in \<open>auto simp: read_block_fs [OF less.prems] Let_def\<close>)
  qed
qed

lemma mesafs_read_returns:
  assumes "fs_ok fs s"
  shows "\<exists>r m k. mesafs_read fs n buf cnt off s = Some (r, s\<lparr>mem := m, junk_reads := k\<rparr>)"
proof (cases "fs = 0 \<or> buf = 0 \<or> n = 0 \<or> \<not> has_inode s fs n")
  case True
  then have "mesafs_read fs n buf cnt off s = Some (-1, s)" using assms by (auto simp: mesafs_read_def read_inode_fs)
  then show ?thesis by (intro exI [of _ "-1"] exI [of _ "mem s"] exI [of _ "junk_reads s"]) simp
next
  case False
  let ?d = "seen_inode s fs n (junk_reads s)" and ?s = "s\<lparr>junk_reads := Suc (junk_reads s)\<rparr>"
  have i: "mesafs_read_inode fs n s = Some (Some ?d, ?s)" using False assms by (simp add: read_inode_fs)
  define len where "len = (if ucast (in_size ?d) < off + cnt then ucast (in_size ?d) - off else cnt)"
  have "fs_ok fs ?s" using assms by simp
  from read_loop_returns [OF this, of ?d buf len "ucast (off div 4096)" "ucast (off mod 4096)"]
  obtain r m where l: "mesafs_read_loop fs ?d buf len (ucast (off div 4096)) (ucast (off mod 4096)) ?s = Some (r, ?s\<lparr>mem := m\<rparr>)"
    by blast
  have s: "?s = s\<lparr>mem := mem s, junk_reads := Suc (junk_reads s)\<rparr>" "?s\<lparr>mem := m\<rparr> = s\<lparr>mem := m, junk_reads := Suc (junk_reads s)\<rparr>"
    by (simp, simp)
  have "mesafs_read fs n buf cnt off s =
      (if in_type ?d \<noteq> MESAFS_TYPE_FILE then Some (-1, ?s)
       else if ucast (in_size ?d) \<le> off then Some (0, ?s)
       else case r of None \<Rightarrow> Some (-1, ?s\<lparr>mem := m\<rparr>) | Some k \<Rightarrow> Some (ucast (len - k), ?s\<lparr>mem := m\<rparr>))"
    unfolding mesafs_read_def Let_def i len_def [symmetric] l option.case prod.case using False by (cases r) simp_all
  then show ?thesis using s by (auto simp only: split: option.split if_split)
qed

section \<open>The loader\<close>

lemma low_of_mem [simp]: "low_of (s\<lparr>mem := m\<rparr>) = low_of s"
  by (simp add: low_of_def)

lemma low_of_elf_pages:
  fixes s :: "'a memory_scheme"
  assumes "elf_load_pages r data phdr ph a b s = Some x"
  shows "low_of (snd x) = low_of s"
proof (rule elf_load_pages.raw_induct [where P = "\<lambda>r data phdr ph a b s x. low_of (snd x) = low_of s", OF _ assms])
  fix loop and r data phdr a b :: u64 and ph x and s :: "'a memory_scheme"
  assume IH: "\<And>(r :: u64) (data :: u64) (phdr :: u64) (ph :: elf64_phdr_t) (a :: u64) (b :: u64) (s :: 'a memory_scheme) (x :: bool \<times> 'a memory_scheme).
      loop r data phdr ph a b s = Some x \<Longrightarrow> low_of (snd x) = low_of s"
  assume eq: "(if \<not> a < b then Some (True, s)
      else case pmm_alloc_page s of (phys, s1) \<Rightarrow>
        if phys = 0 then Some (False, console_puts ''[ELF] Out of memory\<newline>'' s1)
        else (let flags = (if p_flags (read_phdr phdr (mem s1)) AND PF_W \<noteq> 0
                           then (PTE_PRESENT OR PTE_USER) OR PTE_WRITABLE else PTE_PRESENT OR PTE_USER);
                  s2 = mm_map_page r a phys flags s1;
                  s3 = s2\<lparr>mem := elf_fill_page data (p_offset ph) (p_vaddr ph) (p_filesz ph) (p_memsz ph) a (mem s2)\<rparr>
              in loop r data phdr ph (a + PAGE_SIZE) b s3)) = Some x"
  obtain phys s1 where al: "pmm_alloc_page s = (phys, s1)" by force
  then have "low_of s1 = low_of s" using low_of_mm(2) [of s] by simp
  with eq al show "low_of (snd x) = low_of s" by (auto simp: Let_def split: if_splits dest!: IH)
qed

lemma elf_load_pages_returns:
  assumes "page_aligned a" "page_aligned b"
  shows "\<exists>ok t. elf_load_pages r data phdr ph a b s = Some (ok, t)"
  using assms
proof (induction "unat b - unat a" arbitrary: a s rule: less_induct)
  case less
  show ?case
  proof (cases "a < b")
    case True
    note step = next_page_below [OF True less.prems]
    obtain phys s1 where p: "pmm_alloc_page s = (phys, s1)" by force
    from less.hyps [OF step less.prems(2)] show ?thesis
      by (subst elf_load_pages.simps) (auto simp: True p Let_def)
  next
    case False
    then show ?thesis by (subst elf_load_pages.simps) auto
  qed
qed

lemma elf_load_segment_returns: "\<exists>ok t. elf_load_segment r data phdr s = Some (ok, t) \<and> low_of t = low_of s"
proof -
  have d: "page_aligned (page_down a)" for a by (rule page_down_nat(2))
  let ?ph = "read_phdr phdr (mem s)"
  let ?s = "console_puts '' bytes)\<newline>'' (console_put_dec (p_memsz ?ph) (console_puts '' (''
      (console_put_hex (p_vaddr ?ph) (console_puts ''[ELF] Loading segment at '' s))))"
  from elf_load_pages_returns [OF d d, of r data phdr ?ph "p_vaddr ?ph" "p_vaddr ?ph + p_memsz ?ph + PAGE_SIZE - 1" ?s]
  obtain ok t where t: "elf_load_segment r data phdr s = Some (ok, t)" 
    "elf_load_pages r data phdr ?ph (page_down (p_vaddr ?ph)) (page_down (p_vaddr ?ph + p_memsz ?ph + PAGE_SIZE - 1)) ?s = Some (ok, t)"
    by (auto simp: elf_load_segment_def Let_def)
  from low_of_elf_pages [OF t(2)] t(1) show ?thesis by simp
qed

lemma elf_segments_returns: "\<exists>ok t. elf_segments_loop r ehdr data phdrs i s = Some (ok, t) \<and> low_of t = low_of s"
proof (induction "65536 - unat i" arbitrary: i s rule: less_induct)
  case less
  show ?case
  proof (cases "i < e_phnum (read_ehdr ehdr (mem s))")
    case False
    then show ?thesis by (subst elf_segments_loop.simps) auto
  next
    case True
    have "unat (e_phnum (read_ehdr ehdr (mem s))) < 65536" using unsigned_less [of "e_phnum (read_ehdr ehdr (mem s))"] by simp
    with True have "unat (i + 1) = unat i + 1" "unat i < 65536" by (auto simp: word_less_nat_alt unat_add_small)
    then have "65536 - unat (i + 1) < 65536 - unat i" by simp
    note rec = less.hyps [OF this]
    let ?p = "phdrs + 56 * ucast i"
    from elf_load_segment_returns [of r data ?p s] obtain ok t where
      t: "elf_load_segment r data ?p s = Some (ok, t)" "low_of t = low_of s" by blast
    from rec [of t] rec [of s] t True show ?thesis
      by (subst elf_segments_loop.simps) (auto simp: Let_def)
  qed
qed

lemma elf_load_segments_returns: "\<exists>e t. elf_load_segments ehdr data p s = Some (e, t) \<and> low_of t = low_of s"
  using elf_segments_returns [of "mm_get_kernel_pml4 s" ehdr data "data + e_phoff (read_ehdr ehdr (mem s))" 0 s]
  by (auto simp: elf_load_segments_def Let_def)

end
