(* ===== verification/Exec_Props.thy ===== *)
theory Exec_Props
  imports Return_Props Syscall_Fs_Props
begin

text \<open>
  \<^verbatim>\<open>sys_exec\<close>: how the call ends, when it returns to an end at all, and a run of it on a sample volume.
\<close>

section \<open>Specification\<close>

text \<open>The first bytes of an executable ELF file for this processor: the magic number, class 64, type EXEC, machine 62.\<close>

definition elf_image :: "u64 \<Rightarrow> (u64 \<Rightarrow> u8) \<Rightarrow> bool" where
  "elf_image a m \<longleftrightarrow> a \<noteq> 0 \<and> m a = 0x7F \<and> m (a + 1) = 0x45 \<and> m (a + 2) = 0x4C \<and> m (a + 3) = 0x46 \<and> m (a + 4) = 2 \<and>
     m (a + 16) = 2 \<and> m (a + 17) = 0 \<and> m (a + 18) = 62 \<and> m (a + 19) = 0"

text \<open>
  The path leads to a regular file, there is room for it in the heap, and all of it is read into the
  buffer \<open>b\<close>; \<open>t\<close> is the state after that.
\<close>

definition reads_file :: "u64 \<Rightarrow> u8 list \<Rightarrow> 'a syscalls_scheme \<Rightarrow> u64 \<Rightarrow> 'a syscalls_scheme \<Rightarrow> bool" where
  "reads_file fs path s b t \<longleftrightarrow> (\<exists>n d s1 s2 s3. mesafs_find_file fs path s = Some (n, s1) \<and> n \<noteq> 0 \<and>
     mesafs_read_inode fs n s1 = Some (Some d, s2) \<and> in_type d = MESAFS_TYPE_FILE \<and>
     kmalloc (ucast (in_size d)) s2 = Some (b, s3) \<and> b \<noteq> 0 \<and>
     mesafs_read fs n b (ucast (in_size d)) 0 s3 = Some (in_size d, t))"

text \<open>The file at \<open>b\<close> is such an ELF file, its segments can be loaded, and its header names \<open>e\<close> as the entry point.\<close>

definition loads_image :: "nat \<Rightarrow> u64 \<Rightarrow> 'a syscalls_scheme \<Rightarrow> u64 \<Rightarrow> bool" where
  "loads_image p b s e \<longleftrightarrow> elf_image b (mem s) \<and> e = load_le 8 (b + 24) (mem s) \<and>
     (\<exists>t. elf_load_segments b b (Some p) s = Some (Some e, t))"

definition exec_loads :: "u64 \<Rightarrow> u64 \<Rightarrow> 'a syscalls_scheme \<Rightarrow> nat \<Rightarrow> u64 \<Rightarrow> bool" where
  "exec_loads path argv s p e \<longleftrightarrow> current_process s = Some p \<and> path \<noteq> 0 \<and> user_range path 256 \<and>
     (\<exists>s1 name s2 b t. exec_args argv s = Some (True, s1) \<and> copy_path 255 path s1 = (Some name, s2) \<and> mounted_fs s2 \<noteq> 0 \<and>
        reads_file (mounted_fs s2) name
          (console_puts ''\<newline>'' (console_puts (map byte_char name) (console_puts ''[sys_exec] Loading: '' s2))) b t \<and>
        loads_image p b t e)"

text \<open>
  The call ends as \<^verbatim>\<open>sys_exit\<close> does: with status 0 when it has loaded a program, whose entry point is then
  recorded, and otherwise with status -1 and no change to the processes before the exit.
\<close>

definition exits :: "(nat \<Rightarrow> u64 \<Rightarrow> bool) \<Rightarrow> 'a syscalls_scheme \<Rightarrow> (unit, 'a syscalls_scheme) outcome \<Rightarrow> bool" where
  "exits loaded s r \<longleftrightarrow> (\<exists>status u. r = sys_exit status u \<and>
     (status = 0 \<and> (\<exists>p e. loaded p e \<and> procs_of u = procs_of (upd_pcb p (\<lambda>b. b\<lparr>pcb_entry_point := e\<rparr>) s)) \<or>
      status = -1 \<and> (\<nexists>p e. loaded p e) \<and> procs_of u = procs_of s))"

definition elf_start :: "u8 list" where
  "elf_start = [0x7F, 0x45, 0x4C, 0x46, 2]"

text \<open>
  The file \<^verbatim>\<open>a\<close> of the sample volume now holds these five bytes, and the memory behind the buffer that
  the heap hands out next holds the rest of a header.
\<close>

definition exec_calls :: syscalls where
  "exec_calls = path_calls\<lparr>mem := store_bytes 0x205200 elf_start ((mem path_calls)(0x106028 := 2, 0x10602A := 62))\<rparr>"

definition exec_vol :: "'a mesafs_scheme \<Rightarrow> bool" where
  "exec_vol t \<longleftrightarrow> fs_mem t 0x10 = sample_mount \<and> virtual_disk t = 0x200000 \<and> disk_total_sectors t = 128 \<and> using_virtual_disk t \<and>
     (\<forall>a. 0x200000 \<le> unat a \<and> unat a < 0x205200 \<longrightarrow> mem t a = vol_byte (unat a - 0x200000)) \<and>
     (\<forall>i < 5. mem t (0x205200 + of_nat i) = elf_start ! i)"

section \<open>How the call ends\<close>

lemma two_bytes:
  "(ucast (b0 :: u8) OR push_bit 8 (ucast (b1 :: u8)) = (w :: u16)) \<longleftrightarrow> b0 = ucast w \<and> b1 = ucast (drop_bit 8 w)"
proof
  have high: "\<not> bit b0 (8 + n)" for n using bit_imp_le_length [of b0 "8 + n"] by auto
  assume "ucast b0 OR push_bit 8 (ucast b1) = w"
  then show "b0 = ucast w \<and> b1 = ucast (drop_bit 8 w)"
    by (auto intro!: bit_word_eqI simp: bit_simps high)
next
  assume "b0 = ucast w \<and> b1 = ucast (drop_bit 8 w)"
  then show "ucast b0 OR push_bit 8 (ucast b1) = w"
    by (auto intro!: bit_word_eqI simp: bit_simps)
qed

lemma load_le_2: "load_le 2 a m = (w :: u16) \<longleftrightarrow> m a = ucast w \<and> m (a + 1) = ucast (drop_bit 8 w)"
proof -
  have "load_le 2 a m = (ucast (m a) OR push_bit 8 (ucast (m (a + 1))) :: u16)" by (simp add: load_le_def upt_rec)
  then show ?thesis by (simp only: two_bytes)
qed

lemma elf_validate_image: "elf_validate b s = elf_image b (mem s)"
proof -
  have "[0..<16] = [0, 1, 2, 3, 4, 5, 6, 7, 8, 9, 10, 11, 12, 13, 14, 15 :: nat]" by (simp add: upt_rec)
  then show ?thesis
    by (auto simp: elf_validate_def elf_image_def read_ehdr_def load_le_2 Let_def add.assoc)
qed

lemma procs_of_upd_pcb: "procs_of t = procs_of s \<Longrightarrow> procs_of (upd_pcb p f t) = procs_of (upd_pcb p f s)"
  by (simp add: procs_of_def upd_pcb_def)

lemma exec_fail_exits: "exec_fail msg t = Some r \<Longrightarrow> procs_of t = procs_of s \<Longrightarrow> (\<And>p e. \<not> loaded p e) \<Longrightarrow> exits loaded s r"
  by (auto simp: exec_fail_def exits_def intro!: exI [of _ "-1"])

lemma exec_fail_free_exits:
  "exec_fail_free msg b t = Some r \<Longrightarrow> procs_of t = procs_of s \<Longrightarrow> (\<And>p e. \<not> loaded p e) \<Longrightarrow> exits loaded s r"
  by (auto simp: exec_fail_free_def exits_def split: option.splits dest!: procs_of_kfree intro!: exI [of _ "-1"])

lemma exec_load_exits:
  assumes "exec_load p b t = Some r" "procs_of t = procs_of s"
  shows "exits (\<lambda>q e. q = p \<and> loads_image p b t e) s r"
proof (cases "elf_validate b t")
  case False
  with assms show ?thesis
    by (intro exec_fail_free_exits [where t = t]) (auto simp: exec_load_def loads_image_def elf_validate_image)
next
  case True
  from assms(1) True obtain e' t1 where l: "elf_load_segments b b (Some p) t = Some (e', t1)"
    by (auto simp: exec_load_def split: option.splits)
  have t1: "procs_of t1 = procs_of s" using procs_of_elf_load [OF l] assms(2) by simp
  show ?thesis
  proof (cases e')
    case None
    with assms(1) True l t1 show ?thesis
      by (intro exec_fail_free_exits [where t = t1]) (auto simp: exec_load_def loads_image_def)
  next
    case (Some e)
    have e: "e = load_le 8 (b + 24) (mem t)" using l Some
      by (auto simp: elf_load_segments_def Let_def read_ehdr_def split: if_splits option.splits)
    from assms(1) True l Some obtain t2 where
      k: "kfree b (upd_pcb p (\<lambda>b. b\<lparr>pcb_entry_point := e\<rparr>) t1) = Some t2"
      and r: "r = sys_exit 0 (console_puts ''[sys_exec] Process replacement not yet fully implemented\<newline>''
          (console_puts ''[sys_exec] Jumping to entry point...\<newline>'' (console_puts ''\<newline>'' (console_put_hex e
            (console_puts ''[sys_exec] Successfully loaded ELF, entry: '' t2)))))"
      by (auto simp: exec_load_def split: option.splits)
    have "procs_of t2 = procs_of (upd_pcb p (\<lambda>b. b\<lparr>pcb_entry_point := e\<rparr>) s)"
      using procs_of_kfree [OF k] procs_of_upd_pcb [OF t1] by simp
    moreover have "loads_image p b t e" using True l Some e by (auto simp: loads_image_def elf_validate_image)
    ultimately show ?thesis unfolding r exits_def by (intro exI conjI refl) auto
  qed
qed

lemma exec_file_exits:
  assumes "exec_file p fs path t = Some r" "procs_of t = procs_of s"
  shows "exits (\<lambda>q e. q = p \<and> (\<exists>b u. reads_file fs path t b u \<and> loads_image p b u e)) s r" (is "exits ?loaded s r")
proof -
  note ex = assms(1) [unfolded exec_file_def]
  from ex obtain n s1 where find: "mesafs_find_file fs path t = Some (n, s1)" by (auto split: option.splits)
  have p1: "procs_of s1 = procs_of s" using procs_of_find_file [OF find] assms(2) by simp
  show ?thesis
  proof (cases "n = 0")
    case True
    with ex find p1 show ?thesis
      by (intro exec_fail_exits [where t = "console_puts (map byte_char path) (console_puts ''[sys_exec] File not found: '' s1)"])
         (auto simp: reads_file_def)
  next
    case n: False
    with ex find obtain d s2 where inode: "mesafs_read_inode fs n s1 = Some (d, s2)" by (auto split: option.splits)
    have p2: "procs_of s2 = procs_of s" using procs_of_read_inode [OF inode] p1 by simp
    show ?thesis
    proof (cases "d = None \<or> in_type (the d) \<noteq> MESAFS_TYPE_FILE")
      case True
      with ex find n inode p2 show ?thesis
        by (cases d) (auto simp: reads_file_def intro!: exec_fail_exits [where t = s2])
    next
      case False
      then obtain d' where d: "d = Some d'" "in_type d' = MESAFS_TYPE_FILE" by auto
      with ex find n inode obtain b s3 where room: "kmalloc (ucast (in_size d')) s2 = Some (b, s3)"
        by (auto split: option.splits)
      have p3: "procs_of s3 = procs_of s" using procs_of_kmalloc [OF room] p2 by simp
      show ?thesis
      proof (cases "b = 0")
        case True
        with ex find n inode d room p3 show ?thesis
          by (auto simp: reads_file_def intro!: exec_fail_exits [where t = s3])
      next
        case b: False
        with ex find n inode d room obtain k s4 where rd: "mesafs_read fs n b (ucast (in_size d')) 0 s3 = Some (k, s4)"
          by (auto split: option.splits)
        have p4: "procs_of s4 = procs_of s" using procs_of_mesafs_read [OF rd] p3 by simp
        show ?thesis
        proof (cases "k = in_size d'")
          case False
          with ex find n inode d room b rd p4 show ?thesis
            by (auto simp: reads_file_def intro!: exec_fail_free_exits [where t = s4])
        next
          case True
          with ex find n inode d room b rd have "exec_load p b s4 = Some r" by simp
          from exec_load_exits [OF this p4] have "exits (\<lambda>q e. q = p \<and> loads_image p b s4 e) s r" .
          moreover have "reads_file fs path t b' u \<longleftrightarrow> b' = b \<and> u = s4" for b' u
            using find n inode d room b rd True by (auto simp: reads_file_def)
          then have "?loaded = (\<lambda>q e. q = p \<and> loads_image p b s4 e)" by (auto simp: fun_eq_iff)
          ultimately show ?thesis by simp
        qed
      qed
    qed
  qed
qed

lemma validate_state: "fst (validate_user_pointer p n s) \<Longrightarrow> snd (validate_user_pointer p n s) = s"
  by (auto simp: validate_user_pointer_def Let_def split: if_splits)

lemma sys_exec_exits:
  assumes "sys_exec path argv s = Some r"
  shows "exits (exec_loads path argv s) s r"
proof -
  note ex = assms(1) [unfolded sys_exec_def]
  from ex obtain ok s1 where args: "exec_args argv s = Some (ok, s1)" by (auto split: option.splits)
  have p1: "procs_of s1 = procs_of s" by (rule procs_of_exec_args [OF args])
  then have cur: "current_process s1 = current_process s" by (simp add: procs_of_def)
  show ?thesis
  proof (cases "ok \<and> current_process s \<noteq> None")
    case False
    then show ?thesis
    proof (cases ok)
      case False
      with ex args p1 show ?thesis by (auto simp: exec_loads_def exits_def intro!: exI [of _ "-1"])
    next
      case True
      with False cur have "current_process s1 = None" "current_process s = None" by auto
      with ex args True p1 show ?thesis
        by (intro exec_fail_exits [where t = s1]) (auto simp: exec_loads_def proc_current_def)
    qed
  next
    case True
    then obtain p where ok: ok and p: "current_process s = Some p" "proc_current s1 = Some p"
      using cur by (auto simp: proc_current_def)
    obtain v s2 where v: "validate_user_pointer path 256 s1 = (v, s2)" by force
    have p2: "procs_of s2 = procs_of s" using procs_of_validate [of path 256 s1] v p1 by simp
    have vi: "v \<longleftrightarrow> path \<noteq> 0 \<and> user_range path 256" using validate_iff [of path 256 s1] v by simp
    show ?thesis
    proof (cases v)
      case False
      with vi have "\<not> exec_loads path argv s q e" for q e by (auto simp: exec_loads_def)
      with ex args ok p v False p2 show ?thesis by (intro exec_fail_exits [where t = s2]) auto
    next
      case True
      then have s2: "s2 = s1" using validate_state [of path 256 s1] v by simp
      obtain name s3 where cp: "copy_path 255 path s1 = (name, s3)" by force
      have p3: "procs_of s3 = procs_of s" using procs_of_copy_path [of 255 path s1] cp p1 by simp
      show ?thesis
      proof (cases name)
        case None
        with ex args ok p v True s2 cp p3 show ?thesis
          by (auto simp: exec_loads_def exits_def intro!: exI [of _ "-1"])
      next
        case (Some kpath)
        let ?s = "console_puts ''\<newline>'' (console_puts (map byte_char kpath) (console_puts ''[sys_exec] Loading: '' s3))"
        have fs: "mesafs_get_mounted ?s = mounted_fs s3" by (simp add: mesafs_get_mounted_def)
        show ?thesis
        proof (cases "mounted_fs s3 = 0")
          case zero: True
          with ex args ok p v True s2 cp Some p3 fs show ?thesis
            by (intro exec_fail_exits [where t = ?s]) (auto simp: exec_loads_def Let_def)
        next
          case False
          with ex args ok p v True s2 cp Some fs have "exec_file p (mounted_fs s3) kpath ?s = Some r"
            by (simp add: Let_def)
          from exec_file_exits [OF this, of s] p3
          have "exits (\<lambda>q e. q = p \<and> (\<exists>b u. reads_file (mounted_fs s3) kpath ?s b u \<and> loads_image p b u e)) s r" by simp
          moreover have "exec_loads path argv s =
              (\<lambda>q e. q = p \<and> (\<exists>b u. reads_file (mounted_fs s3) kpath ?s b u \<and> loads_image p b u e))"
            using args ok p(1) vi True cp Some False by (auto simp: exec_loads_def fun_eq_iff)
          ultimately show ?thesis by simp
        qed
      qed
    qed
  qed
qed

section \<open>The call comes to an end\<close>

lemma vol_cong:
  fixes s t :: "'a syscalls_scheme"
  assumes "console.more t = console.more (s\<lparr>mem := m\<rparr>)"
  shows "fs_ok fs t = fs_ok fs s" "heap_ok t bs = heap_ok s bs" "mounted_fs t = mounted_fs s"
    "mem t = m" "fs_mem t = fs_mem s" "virtual_disk t = virtual_disk s" "disk_total_sectors t = disk_total_sectors s"
    "using_virtual_disk t = using_virtual_disk s"
  using assms by (cases s; cases t; simp add: fs_ok_def vdisk_ok_def heap_ok_def KHEAP_START_def)+

lemma same_mem: "console.more t = console.more s \<Longrightarrow> \<exists>m. console.more t = console.more (s\<lparr>mem := m\<rparr>)" for s t :: "'a syscalls_scheme"
  by (intro exI [of _ "mem s"]) simp

lemma mem_trans:
  fixes s t u :: "'a syscalls_scheme"
  assumes "console.more t = console.more (s\<lparr>mem := m\<rparr>)" "console.more u = console.more (t\<lparr>mem := m'\<rparr>)"
  shows "console.more u = console.more (s\<lparr>mem := m'\<rparr>)"
  using assms by (cases s; cases t; cases u; simp)

lemma copy_from_user_mem: "\<exists>m. console.more (snd (copy_from_user d p n s)) = console.more (s\<lparr>mem := m\<rparr>)" for s :: "'a syscalls_scheme"
proof -
  have v: "console.more (snd (validate_user_pointer p n s)) = console.more s" by simp
  from same_mem [OF this] console_memory_update [OF v] show ?thesis
    by (auto simp: copy_from_user_def split_def)
qed

lemma copy_path_mem: "\<exists>m. console.more (snd (copy_path n p s)) = console.more (s\<lparr>mem := m\<rparr>)"
proof (induction n arbitrary: p s)
  case 0
  show ?case by (simp add: same_mem)
next
  case (Suc n)
  let ?u = "snd (copy_from_user (local_at s L_c) p 1 s)"
  from copy_from_user_mem obtain m where m: "console.more ?u = console.more (s\<lparr>mem := m\<rparr>)" by blast
  from Suc.IH [of "p + 1" ?u] obtain m' where "console.more (snd (copy_path n (p + 1) ?u)) = console.more (?u\<lparr>mem := m'\<rparr>)" by blast
  from m mem_trans [OF m this] show ?case by (auto simp: split_def Let_def)
qed

lemma validate_args_console: "console.more (snd (validate_args argv is s)) = console.more s"
proof (induction argv "is" s rule: validate_args.induct)
  case (2 argv i "is" s)
  obtain ok u where v: "validate_user_pointer (load_le 8 (argv + 8 * of_nat i) (mem s)) 256 s = (ok, u)" by force
  then have "console.more u = console.more s" using validate_frame [of "load_le 8 (argv + 8 * of_nat i) (mem s)" 256 s] by simp
  with 2 v show ?case by simp
qed simp

lemma exec_args_console: "exec_args argv s = Some (ok, t) \<Longrightarrow> console.more t = console.more s"
proof -
  have "console.more w = console.more s" if "validate_args argv is s = (x, w)" for x w "is"
    using that validate_args_console [of argv "is" s] by simp
  then show "exec_args argv s = Some (ok, t) \<Longrightarrow> ?thesis"
    by (auto simp: exec_args_def split: if_splits option.splits prod.splits)
qed

lemma count_args_returns: "load_le 8 (p + 8 * of_nat n) m = (0 :: u64) \<Longrightarrow> count_args m p c \<noteq> None"
proof (induction n arbitrary: p c)
  case (Suc n)
  then show ?case by (subst count_args.simps) (simp add: algebra_simps)
qed (subst count_args.simps, simp)

lemma exec_args_returns: "argv = 0 \<or> load_le 8 (argv + 8 * of_nat n) (mem s) = (0 :: u64) \<Longrightarrow> \<exists>ok t. exec_args argv s = Some (ok, t)"
  using count_args_returns [of argv n "mem s" 0] by (auto simp: exec_args_def split_def split: option.split)

lemma fail_free_returns:
  assumes "heap_ok s bs" "b \<noteq> 0" "(unat b, k) \<in> live bs"
  shows "exec_fail_free msg b s \<noteq> None"
proof -
  have "heap_ok (console_puts msg s) bs" using assms(1) heap_ok_frame [of "console_puts msg s" s] by simp
  from kfree_returns [OF this assms(2,3)] show ?thesis by (auto simp: exec_fail_free_def)
qed

lemma exec_load_returns:
  assumes "heap_ok s bs" "b \<noteq> 0" "(unat b, k) \<in> live bs"
  shows "exec_load p b s \<noteq> None"
proof -
  from elf_load_segments_returns [of b b "Some p" s] obtain e t where
    t: "elf_load_segments b b (Some p) s = Some (e, t)" "low_of t = low_of s" by blast
  have u: "low_of (upd_pcb q f t) = low_of t" for q f by (simp add: low_of_def upd_pcb_def)
  have h: "heap_ok t bs" "heap_ok (upd_pcb q f t) bs" for q f
    using assms(1) low_of_heap [OF t(2)] low_of_heap [OF u] by auto
  show ?thesis using t(1) fail_free_returns [OF assms] fail_free_returns [OF h(1) assms(2,3)] kfree_returns [OF h(2) assms(2,3)]
    by (auto simp: exec_load_def split: option.split) (metis option.distinct(1))
qed

lemma exec_file_returns:
  assumes "fs_ok fs s" "heap_ok s bs"
  shows "exec_file p fs path s \<noteq> None"
proof -
  from find_file_returns [OF assms(1)] obtain n k where find: "mesafs_find_file fs path s = Some (n, s\<lparr>junk_reads := k\<rparr>)" by blast
  let ?s = "s\<lparr>junk_reads := k\<rparr>"
  obtain d k' where inode: "mesafs_read_inode fs n ?s = Some (d, s\<lparr>junk_reads := k'\<rparr>)"
    using assms(1) by (cases "has_inode ?s fs n") (simp_all add: read_inode_fs)
  let ?t = "s\<lparr>junk_reads := k'\<rparr>"
  show ?thesis
  proof (cases d)
    case None
    with find inode show ?thesis by (simp add: exec_file_def exec_fail_def)
  next
    case (Some i)
    have "heap_ok ?t bs" using assms(2) by simp
    from kmalloc_returns [OF this, of "ucast (in_size i)"] obtain b u bs' where
      room: "kmalloc (ucast (in_size i)) ?t = Some (b, u)" "heap_ok u bs'" "b \<noteq> 0 \<Longrightarrow> \<exists>j. (unat b, j) \<in> live bs'"
      by (auto split: if_splits)
    have "fs_ok fs u"
    proof -
      have "kheap.more u = kheap.more ?t" using kmalloc_frame(1) [OF room(1)] .
      then show ?thesis using assms(1) by (cases s; cases u; simp add: fs_ok_def vdisk_ok_def)
    qed
    from mesafs_read_returns [OF this] obtain r m j where
      rd: "mesafs_read fs n b (ucast (in_size i)) 0 u = Some (r, u\<lparr>mem := m, junk_reads := j\<rparr>)" by blast
    let ?u = "u\<lparr>mem := m, junk_reads := j\<rparr>"
    have h: "heap_ok ?u bs'" using room(2) by (simp add: heap_ok_def KHEAP_START_def)
    show ?thesis
    proof (cases "b = 0")
      case True
      with find inode Some room(1) show ?thesis by (simp add: exec_file_def exec_fail_def)
    next
      case False
      with room(3) obtain j where "(unat b, j) \<in> live bs'" by blast
      with find inode Some room(1) rd False fail_free_returns [OF h False this] exec_load_returns [OF h False this]
      show ?thesis by (simp add: exec_file_def exec_fail_def)
    qed
  qed
qed

lemma sys_exec_returns:
  assumes "argv = 0 \<or> load_le 8 (argv + 8 * of_nat n) (mem s) = (0 :: u64)"
    and "mounted_fs s = 0 \<or> fs_ok (mounted_fs s) s" "heap_ok s bs"
  shows "sys_exec path argv s \<noteq> None"
proof -
  from exec_args_returns [OF assms(1)] obtain ok s1 where args: "exec_args argv s = Some (ok, s1)" by blast
  obtain v s2 where v: "validate_user_pointer path 256 s1 = (v, s2)" by force
  have s2: "console.more s2 = console.more s"
    using validate_frame [of path 256 s1] v exec_args_console [OF args] by simp
  obtain name s3 where cp: "copy_path 255 path s2 = (name, s3)" by force
  from copy_path_mem [of 255 path s2] cp obtain m where "console.more s3 = console.more (s2\<lparr>mem := m\<rparr>)" by auto
  with console_memory_update [OF s2] have s3: "console.more s3 = console.more (s\<lparr>mem := m\<rparr>)" by simp
  let ?s = "\<lambda>name. console_puts ''\<newline>'' (console_puts (map byte_char name) (console_puts ''[sys_exec] Loading: '' s3))"
  have "console.more (?s name) = console.more (s\<lparr>mem := m\<rparr>)" for name using s3 by simp
  note vol = vol_cong [OF this]
  have "mounted_fs s \<noteq> 0 \<Longrightarrow> exec_file p (mounted_fs s) name (?s name) \<noteq> None" for p name
    using exec_file_returns [of "mounted_fs s" "?s name" bs] assms(2,3) vol by auto
  then show ?thesis using args v cp vol(3)
    by (auto simp: sys_exec_def Let_def mesafs_get_mounted_def exec_fail_def split: option.split)
qed

section \<open>Reading the program from a mounted volume\<close>

lemma vol_same:
  fixes s t :: "'a mesafs_scheme"
  assumes "mem t = mem s" "fs_mem t = fs_mem s" "virtual_disk t = virtual_disk s" "disk_total_sectors t = disk_total_sectors s"
    "using_virtual_disk t = using_virtual_disk s"
  shows "fs_ok fs t = fs_ok fs s" "fs_block t = fs_block s" "disk_inode t = disk_inode s" "has_inode t = has_inode s"
    "dir_lookup t = dir_lookup s" "dirs_wf t = dirs_wf s" "blocks_ok t = blocks_ok s" "file_data t = file_data s" "off_disk t = off_disk s"
proof -
  note v = vdisk_cong [OF assms(1,3-5)]
  show "fs_ok fs t = fs_ok fs s" by (simp add: fs_ok_def v assms)
  show b: "fs_block t = fs_block s" by (simp add: fs_block_def v assms fun_eq_iff)
  show i: "disk_inode t = disk_inode s" "has_inode t = has_inode s" by (simp_all add: disk_inode_def has_inode_def b assms fun_eq_iff)
  have d: "is_dir t = is_dir s" "dir_block t = dir_block s" by (simp_all add: is_dir_def dir_block_def i b assms fun_eq_iff)
  show "dir_lookup t = dir_lookup s" "dirs_wf t = dirs_wf s" by (simp_all add: dir_lookup_def dirs_wf_def d fun_eq_iff)
  show "blocks_ok t = blocks_ok s" "file_data t = file_data s" "off_disk t = off_disk s"
    by (simp_all add: blocks_ok_def file_data_def off_disk_def b assms fun_eq_iff)
qed

lemma vol_kheap:
  fixes s t :: "'a mesafs_scheme"
  assumes "kheap.more t = kheap.more s"
  shows "mem t = mem s" "fs_mem t = fs_mem s" "virtual_disk t = virtual_disk s" "disk_total_sectors t = disk_total_sectors s"
    "using_virtual_disk t = using_virtual_disk s" "mounted_fs t = mounted_fs s"
  using assms by (cases s; cases t; simp)+

text \<open>
  On a volume on the disk in memory, when the heap has room for the file away from the disk, the whole
  file lies in the buffer afterwards.
\<close>

lemma reads_file_data:
  assumes "fs_ok fs s" "dirs_wf s fs" "slot_safe (sb_root_inode (fs_sb (fs_mem s fs)))" "0 \<notin> set path"
    and "walk (dir_lookup s fs) (sb_root_inode (fs_sb (fs_mem s fs))) (path_components (strip_slash path)) = Some n"
    and "n \<noteq> 0" "has_inode s fs n" "slot_safe n" "in_type (disk_inode s fs n) = MESAFS_TYPE_FILE" "blocks_ok s fs (disk_inode s fs n)"
    and "length (file_data s fs (disk_inode s fs n)) = unat (in_size (disk_inode s fs n))"
    and "\<And>k. \<exists>u. kmalloc (ucast (in_size (disk_inode s fs n))) (s\<lparr>junk_reads := k\<rparr>) = Some (b, u)" "b \<noteq> 0"
    and "off_disk s b (unat (in_size (disk_inode s fs n)))"
  shows "\<exists>t. reads_file fs path s b t \<and> mem t = store_bytes b (file_data s fs (disk_inode s fs n)) (mem s)"
proof -
  let ?d = "disk_inode s fs n" and ?cnt = "ucast (in_size (disk_inode s fs n)) :: u64"
  obtain k where find: "mesafs_find_file fs path s = Some (n, s\<lparr>junk_reads := k\<rparr>)"
    using mesafs_find_file_refines [OF assms(1-4)] assms(5) by auto
  let ?t = "s\<lparr>junk_reads := Suc k\<rparr>"
  have t: "disk_inode (s\<lparr>junk_reads := j\<rparr>) = disk_inode s" "has_inode (s\<lparr>junk_reads := j\<rparr>) = has_inode s" for j
    by (rule vol_same; simp)+
  have inode: "mesafs_read_inode fs n (s\<lparr>junk_reads := k\<rparr>) = Some (Some ?d, ?t)"
    using assms(1,7,8) by (simp add: read_inode_fs t seen_inode_safe)
  from assms(12) [of "Suc k"] obtain u where room: "kmalloc ?cnt ?t = Some (b, u)" by blast
  note f = vol_kheap [OF kmalloc_frame(1) [OF room], simplified]
  note vol = vol_same [OF f(1-5)]
  have cnt: "unat ?cnt = unat (in_size ?d)" by (rule unat_ucast_u64)
  have "off_disk u b (unat ?cnt)" "unat (0 :: u64) + unat ?cnt < 2 ^ 64" using assms(14) vol(9) cnt unat_u64 [of ?cnt] by simp_all
  from mesafs_read_correct [OF _ assms(6,13) _ assms(8) _ _ this, of fs] assms(1,7,9-11)
  obtain j where "mesafs_read fs n b ?cnt 0 u = Some (of_nat (unat (in_size ?d)), u\<lparr>mem := store_bytes b (file_data s fs ?d) (mem s), junk_reads := j\<rparr>)"
    by (auto simp: vol f(1) cnt Let_def)
  then have rd: "mesafs_read fs n b ?cnt 0 u = Some (in_size ?d, u\<lparr>mem := store_bytes b (file_data s fs ?d) (mem s), junk_reads := j\<rparr>)"
    by simp
  define t where "t = u\<lparr>mem := store_bytes b (file_data s fs ?d) (mem s), junk_reads := j\<rparr>"
  have "reads_file fs path s b t"
    using find assms(6,9,13) inode room rd unfolding reads_file_def t_def by blast
  moreover have "mem t = store_bytes b (file_data s fs ?d) (mem s)" by (simp add: t_def)
  ultimately show ?thesis by blast
qed

section \<open>A sample\<close>

lemma fs_block_byte:
  assumes "fs_ok fs s" "b < sb_total_blocks (fs_sb (fs_mem s fs))" "i < 4096"
  shows "\<exists>a. unat a = unat (virtual_disk s) + ((unat (fs_partition_lba (fs_mem s fs)) + 1 + unat b) * 512 + i) \<and> fs_block s fs b ! i = mem s a"
proof -
  let ?l = "block_lba (fs_mem s fs) b + of_nat (i div 512)" and ?n = "unat (fs_partition_lba (fs_mem s fs)) + 1 + unat b"
  have ok: "vdisk_ok s" using assms(1) by (simp add: fs_ok_def)
  note lba = fs_ok_fields [OF assms(1,2)]
  have d: "i div 512 < 8" using assms(3) by simp
  have l: "unat ?l = ?n + i div 512" using unat_lba_add [of "block_lba (fs_mem s fs) b" "i div 512" "disk_total_sectors s"] lba d by simp
  then have "?l < disk_total_sectors s" using lba d by (simp add: word_less_nat_alt)
  from vdisk_addr_nat [OF ok this, of "i mod 512"]
  have "unat (vdisk_addr s ?l (i mod 512)) = unat (virtual_disk s) + (unat ?l * 512 + i mod 512)" by simp
  then have "unat (vdisk_addr s ?l (i mod 512)) = unat (virtual_disk s) + (?n * 512 + i)"
    using div_mult_mod_eq [of i 512] unfolding l add_mult_distrib by linarith
  moreover have "fs_block s fs b ! i = mem s (vdisk_addr s ?l (i mod 512))"
    using assms(3) by (simp add: fs_block_def sectors_nth vsector_def del: upt_rec_numeral)
  ultimately show ?thesis by blast
qed

lemma exec_vol_block:
  assumes "exec_vol t"
  shows "fs_ok 0x10 t" "b \<le> 32 \<Longrightarrow> fs_block t 0x10 b = fs_block sample_vol 0x10 b" "i < 5 \<Longrightarrow> fs_block t 0x10 40 ! i = elf_start ! i"
proof -
  show ok: "fs_ok 0x10 t" using assms by (simp add: exec_vol_def fs_ok_def vdisk_ok_def sample_mount_def)
  have m: "fs_mem t 0x10 = sample_mount" "unat (virtual_disk t) = 0x200000" using assms by (simp_all add: exec_vol_def)
  have byte: "\<exists>a. unat a = 0x200000 + ((1 + unat b) * 512 + i) \<and> fs_block t 0x10 b ! i = mem t a" if "b < 50" "i < 4096" for b i
    using fs_block_byte [OF ok, of b i] that by (simp add: m sample_mount_def)
  show "fs_block t 0x10 b = fs_block sample_vol 0x10 b" if "b \<le> 32"
  proof (rule nth_equalityI)
    fix i assume "i < length (fs_block t 0x10 b)"
    then have i: "i < 4096" by simp
    have b: "unat b \<le> 32" "b < 50" using that by (simp_all add: word_le_nat_alt word_less_nat_alt)
    from byte [OF b(2) i] obtain a where a: "unat a = 0x200000 + ((1 + unat b) * 512 + i)" "fs_block t 0x10 b ! i = mem t a" by blast
    have "unat a < 0x205200" using a(1) b(1) i by simp
    moreover have "unat a - 0x200000 = 512 * (unat b + 1) + i" using a(1) by simp
    ultimately have "mem t a = vol_byte (512 * (unat b + 1) + i)" using assms a(1) unfolding exec_vol_def by (metis le_add1)
    with a(2) sample_block_nth [OF b(2) i, of "0x10"] show "fs_block t 0x10 b ! i = fs_block sample_vol 0x10 b ! i" by simp
  qed simp
  show "fs_block t 0x10 40 ! i = elf_start ! i" if "i < 5"
  proof -
    have "i < 4096" using that by simp
    from byte [OF _ this, of 40] obtain a where a: "unat a = 0x205200 + i" "fs_block t 0x10 40 ! i = mem t a" by auto
    have "unat (0x205200 + of_nat i :: u64) = 0x205200 + i" using that by (simp add: unat_add_small unat_of_nat_small)
    with a(1) have "a = 0x205200 + of_nat i" by (simp add: word_unat_eq_iff)
    with a(2) assms that show ?thesis by (simp add: exec_vol_def)
  qed
qed

lemma exec_vol_file:
  assumes "exec_vol t"
  shows "dirs_wf t 0x10" "walk (dir_lookup t 0x10) 1 [[0x61]] = Some 3" "has_inode t 0x10 3"
    "disk_inode t 0x10 3 = disk_inode sample_vol 0x10 3" "blocks_ok t 0x10 (disk_inode sample_vol 0x10 3)"
    "file_data t 0x10 (disk_inode sample_vol 0x10 3) = elf_start"
proof -
  note block = exec_vol_block(2) [OF assms]
  have m: "fs_mem t 0x10 = sample_mount" using assms by (simp add: exec_vol_def)
  have h: "has_inode t 0x10 n = has_inode sample_vol 0x10 n" for n by (simp add: has_inode_def m sample_vol_fields)
  have i: "disk_inode t 0x10 n = disk_inode sample_vol 0x10 n" if "has_inode sample_vol 0x10 n" for n
  proof -
    have "n < 256" using that by (simp add: has_inode_def sample_vol_fields sample_mount_def)
    from inode_block_nat(2) [OF this] have "inode_block n \<le> 32" by (simp add: word_less_nat_alt word_le_nat_alt)
    from block [OF this] show ?thesis by (simp add: disk_inode_def)
  qed
  have d: "is_dir t 0x10 n = is_dir sample_vol 0x10 n" for n using i [of n] by (auto simp: is_dir_def h m sample_vol_fields)
  have b: "dir_block t 0x10 1 = dir_block sample_vol 0x10 1"
    using block [of 20] by (simp add: dir_block_def i sample_root)
  show "dirs_wf t 0x10"
    using sample_dirs_wf sample_is_dir unfolding dirs_wf_def d by (metis b)
  have "dir_lookup t 0x10 1 = dir_lookup sample_vol 0x10 1" by (simp add: dir_lookup_def d b)
  with sample_walk show "walk (dir_lookup t 0x10) 1 [[0x61]] = Some 3" by (simp split: option.splits)
  show "has_inode t 0x10 3" "disk_inode t 0x10 3 = disk_inode sample_vol 0x10 3" using sample_file(1) i h by simp_all
  show "blocks_ok t 0x10 (disk_inode sample_vol 0x10 3)" using sample_file(6) by (simp add: blocks_ok_def m sample_vol_fields)
  have "take 5 (fs_block t 0x10 40) = elf_start"
  proof (rule nth_equalityI)
    show "length (take 5 (fs_block t 0x10 40)) = length elf_start" by (simp add: elf_start_def)
    show "take 5 (fs_block t 0x10 40) ! j = elf_start ! j" if "j < length (take 5 (fs_block t 0x10 40))" for j
      using that exec_vol_block(3) [OF assms, of j] by simp
  qed
  then show "file_data t 0x10 (disk_inode sample_vol 0x10 3) = elf_start"
    by (simp add: file_data_def sample_file)
qed

lemma low_memory_blank:
  assumes "unat a < 0x200000"
  shows "mem (user_calls ks) a = 0"
proof -
  have "unat (a - 0x200000) = 2 ^ 64 + unat a - 0x200000"
    using assms by (simp add: unat_sub_if_size word_size word_le_nat_alt)
  moreover have "vol_byte n = 0" if "20997 \<le> n" for n using that by (simp add: vol_byte_def)
  moreover have "mem (typing_vfs ks) = mem sample_vol"
    by (simp add: typing_vfs_def fresh_idt_def sample_idt_def idt_state.defs proc.defs tss_state.defs mesafs.defs)
  ultimately show ?thesis by (simp add: sample_vol_fields)
qed

lemma elf_start_nth: "length elf_start = 5" "elf_start ! 0 = 0x7F" "elf_start ! Suc 0 = 0x45" "elf_start ! 2 = 0x4C" "elf_start ! 3 = 0x46"
  "elf_start ! 4 = 2"
  by (simp_all add: elf_start_def)

lemma exec_calls_mem:
  "unat a < 0x205200 \<Longrightarrow> mem exec_calls a = (if a = 0x106028 then 2 else if a = 0x10602A then 62 else mem (user_calls []) a)"
  "0x205205 \<le> unat a \<Longrightarrow> mem exec_calls a = (if a = 0x400000 then 0x61 else mem (user_calls []) a)"
  "i < 5 \<Longrightarrow> mem exec_calls (0x205200 + of_nat i) = elf_start ! i"
proof -
  have out: "mem exec_calls a = ((mem path_calls)(0x106028 := 2, 0x10602A := 62)) a"
    if "unat a < 0x205200 \<or> 0x205205 \<le> unat a" for a
    unfolding exec_calls_def using that by (simp add: store_bytes_outside elf_start_nth)
  show "unat a < 0x205200 \<Longrightarrow> mem exec_calls a = (if a = 0x106028 then 2 else if a = 0x10602A then 62 else mem (user_calls []) a)"
    by (subst out) (auto simp: path_calls_def)
  show "0x205205 \<le> unat a \<Longrightarrow> mem exec_calls a = (if a = 0x400000 then 0x61 else mem (user_calls []) a)"
    by (subst out) (auto simp: path_calls_def)
  show "i < 5 \<Longrightarrow> mem exec_calls (0x205200 + of_nat i) = elf_start ! i"
    by (simp add: exec_calls_def store_bytes_at elf_start_nth)
qed

lemma exec_calls_fields:
  "current_process exec_calls = Some 0" "mounted_fs exec_calls = 0x10" "local_at exec_calls = sample_local"
  "fs_mem exec_calls = (\<lambda>_. sample_mount)" "virtual_disk exec_calls = 0x200000" "disk_total_sectors exec_calls = 128"
  "using_virtual_disk exec_calls" "heap_ok exec_calls [(0x106000, 0x3FFFE8, True)]"
  "process_table exec_calls ! 0 = pcb_zero\<lparr>pcb_pid := 1, pcb_state := PROC_STATE_RUNNING, pcb_heap_start := 0x400000, pcb_brk := 0x400000\<rparr>"
  "length (process_table exec_calls) = 1"
proof -
  show "heap_ok exec_calls [(0x106000, 0x3FFFE8, True)]"
  proof -
    have "heap_ok exec_calls bs = heap_ok sample_heap bs" for bs
      by (simp add: exec_calls_def path_calls_def user_calls_def typing_vfs_def fresh_idt_def sample_idt_def sample_vol_def
          sample_part_def vdisk_sample_def cold_memory_def cold_keyboard_def marked_mm_def boot_mm_def heap_ok_def KHEAP_START_def
          kheap.defs mm.defs keyboard.defs memory.defs disk.defs partition.defs mesafs.defs tss_state.defs proc.defs
          idt_state.defs vfs.defs)
    with sample_heap_ok show ?thesis by simp
  qed
next
  show "fs_mem exec_calls = (\<lambda>_. sample_mount)" "using_virtual_disk exec_calls"
    using user_calls_dirs(3) [of "[]"] user_calls_vol(1) [of "[]"]
    by (simp_all add: exec_calls_def path_calls_def fun_eq_iff fs_ok_def vdisk_ok_def)
  show "mounted_fs exec_calls = 0x10" using user_calls_vol(2) [of "[]"] by (simp add: exec_calls_def path_calls_def)
  show "process_table exec_calls ! 0 = pcb_zero\<lparr>pcb_pid := 1, pcb_state := PROC_STATE_RUNNING, pcb_heap_start := 0x400000, pcb_brk := 0x400000\<rparr>"
    "length (process_table exec_calls) = 1"
    by (simp_all add: exec_calls_def path_calls_def user_calls_def vfs.defs)
qed (simp_all add: exec_calls_def path_calls_def user_calls_vol)

lemma exec_vol_sample:
  fixes t :: syscalls
  assumes "console.more t = console.more (exec_calls\<lparr>mem := (mem exec_calls)(0x180F00 := c)\<rparr>)"
  shows "exec_vol t" "heap_ok t [(0x106000, 0x3FFFE8, True)]" "fs_mem t = (\<lambda>_. sample_mount)"
    "mem t = (mem exec_calls)(0x180F00 := c)" "off_disk t 0x106018 5"
proof -
  have f: "mem t = (mem exec_calls)(0x180F00 := c)" "fs_mem t = (\<lambda>_. sample_mount)" "virtual_disk t = 0x200000"
    "disk_total_sectors t = 128" "using_virtual_disk t"
    using vol_cong(4-8) [OF assms] by (simp_all add: exec_calls_fields)
  show "mem t = (mem exec_calls)(0x180F00 := c)" "fs_mem t = (\<lambda>_. sample_mount)" by (fact f)+
  show "heap_ok t [(0x106000, 0x3FFFE8, True)]" using vol_cong(2) [OF assms, of "[(0x106000, 0x3FFFE8, True)]"] exec_calls_fields(8) by simp
  show "off_disk t 0x106018 5" by (simp add: off_disk_def f)
  have "mem t a = vol_byte (unat a - 0x200000)" if "0x200000 \<le> unat a" "unat a < 0x205200" for a
  proof -
    have "mem t a = mem (user_calls []) a" using that by (auto simp: f exec_calls_mem(1))
    moreover have "mem (typing_vfs []) = mem sample_vol"
      by (simp add: typing_vfs_def fresh_idt_def sample_idt_def idt_state.defs proc.defs tss_state.defs mesafs.defs)
    moreover have "unat (a - 0x200000) = unat a - 0x200000" using that(1) by (subst unat_sub) (simp_all add: word_le_nat_alt)
    ultimately show ?thesis by (simp add: sample_vol_fields)
  qed
  moreover have "mem t (0x205200 + of_nat i) = elf_start ! i" if "i < 5" for i
  proof -
    have "unat (0x205200 + of_nat i :: u64) = 0x205200 + i" using that by (simp add: unat_add_small unat_of_nat_small)
    then have "unat (0x205200 + of_nat i :: u64) \<noteq> unat (0x180F00 :: u64)" using that by simp
    then have "0x205200 + of_nat i \<noteq> (0x180F00 :: u64)" by metis
    then show ?thesis using exec_calls_mem(3) [OF that] by (simp add: f)
  qed
  ultimately show "exec_vol t" by (simp add: exec_vol_def f)
qed

lemma exec_calls_buffer:
  assumes "m = store_bytes 0x106018 elf_start ((mem exec_calls)(0x180F00 := c))"
  shows "i < 5 \<Longrightarrow> m (0x106018 + of_nat i) = elf_start ! i"
    "0x10601D \<le> unat a \<Longrightarrow> unat a < 0x180000 \<Longrightarrow> m a = (if a = 0x106028 then 2 else if a = 0x10602A then 62 else 0)"
proof -
  show "i < 5 \<Longrightarrow> m (0x106018 + of_nat i) = elf_start ! i"
    unfolding assms by (intro store_bytes_at) (simp_all add: elf_start_nth)
  assume a: "0x10601D \<le> unat a" "unat a < 0x180000"
  then have "a \<noteq> 0x180F00" by auto
  moreover have "store_bytes 0x106018 elf_start m' a = m' a" for m'
    using a by (intro store_bytes_outside) (simp_all add: elf_start_nth)
  ultimately show "m a = (if a = 0x106028 then 2 else if a = 0x10602A then 62 else 0)"
    unfolding assms using exec_calls_mem(1) [of a] low_memory_blank [of a "[]"] a by simp
qed

lemma exec_calls_image:
  assumes "mem t = store_bytes 0x106018 elf_start ((mem exec_calls)(0x180F00 := c))"
  shows "loads_image p 0x106018 t 0"
proof -
  note first = exec_calls_buffer(1) [OF assms] and rest = exec_calls_buffer(2) [OF assms]
  have image: "elf_image 0x106018 (mem t)"
    using first [of 0] first [of 1] first [of 2] first [of 3] first [of 4]
    by (simp add: elf_image_def elf_start_nth rest)
  have phnum: "e_phnum (read_ehdr 0x106018 (mem t)) = 0" by (simp add: read_ehdr_def load_le_2 rest)
  have entry: "load_le 8 (0x106018 + 24) (mem t) = (0 :: u64)" by (simp add: load_le_def upt_rec rest)
  have "elf_segments_loop r 0x106018 data phdrs 0 t = Some (True, t)" for r data phdrs
    by (subst elf_segments_loop.simps) (simp add: phnum)
  then have "elf_load_segments 0x106018 0x106018 (Some p) t = Some (Some 0, t)"
    using image entry by (simp add: elf_load_segments_def elf_validate_image Let_def) (simp add: read_ehdr_def)
  with image entry show ?thesis by (auto simp: loads_image_def)
qed

lemma exec_calls_loads: "exec_loads 0x400000 0 exec_calls 0 0"
proof -
  have path: "path_at 255 0x400000 (mem exec_calls) = [0x61]"
  proof -
    have "(255 :: nat) = Suc (Suc 253)" by simp
    moreover have "mem exec_calls 0x400001 = 0" "mem exec_calls 0x400000 = 0x61"
      using user_calls_blank [of "0x400001" "[]"] by (simp_all add: exec_calls_mem(2))
    ultimately show ?thesis by (simp only: path_at.simps) simp
  qed
  obtain c where cp: "copy_path 255 0x400000 exec_calls = (Some [0x61], exec_calls\<lparr>mem := (mem exec_calls)(0x180F00 := c)\<rparr>)"
    using copy_path_reads [of "0x400000" 255 exec_calls] by (auto simp: path exec_calls_fields sample_local_def)
  let ?s = "exec_calls\<lparr>mem := (mem exec_calls)(0x180F00 := c)\<rparr>"
  let ?u = "console_puts ''\<newline>'' (console_puts (map byte_char [0x61]) (console_puts ''[sys_exec] Loading: '' ?s))"
  have u: "console.more ?u = console.more ?s" by simp
  note vol = exec_vol_sample [OF u] and prog = exec_vol_file [OF exec_vol_sample(1) [OF u]]
  have size: "in_size (disk_inode sample_vol 0x10 3) = 5" "in_type (disk_inode sample_vol 0x10 3) = 1" by (rule sample_file)+
  have room: "\<exists>w. kmalloc 5 (?u\<lparr>junk_reads := k\<rparr>) = Some (0x106018, w)" for k
  proof -
    have "heap_ok (?u\<lparr>junk_reads := k\<rparr>) [(0x106000, 0x3FFFE8, True)]" using vol(2) by simp
    from kmalloc_spec [OF this, of 5] show ?thesis by (auto simp: align16_def)
  qed
  have "\<exists>t. reads_file 0x10 [0x61] ?u 0x106018 t \<and> mem t = store_bytes 0x106018 (file_data ?u 0x10 (disk_inode ?u 0x10 3)) (mem ?u)"
  proof (rule reads_file_data [where n = 3])
    show "fs_ok 0x10 ?u" by (rule exec_vol_block(1) [OF vol(1)])
    show "slot_safe (sb_root_inode (fs_sb (fs_mem ?u 0x10)))" using sample_root_safe vol(3) by simp
    show "walk (dir_lookup ?u 0x10) (sb_root_inode (fs_sb (fs_mem ?u 0x10))) (path_components (strip_slash [0x61])) = Some 3"
      using prog(2) vol(3) by (simp add: strip_slash_def path_components.simps sample_mount_def del: walk.simps)
    show "\<exists>w. kmalloc (ucast (in_size (disk_inode ?u 0x10 3))) (?u\<lparr>junk_reads := k\<rparr>) = Some (0x106018, w)" for k
      using room [of k] by (simp only: prog(4) size) simp
  qed (use prog vol(5) size sample_file(2) in \<open>simp_all add: elf_start_nth\<close>)
  then obtain t where t: "reads_file 0x10 [0x61] ?u 0x106018 t" "mem t = store_bytes 0x106018 elf_start (mem ?u)"
    by (auto simp only: prog(4,6))
  have "mem t = store_bytes 0x106018 elf_start ((mem exec_calls)(0x180F00 := c))" using t(2) vol(4) by simp
  from exec_calls_image [OF this] t(1) cp show ?thesis
    unfolding exec_loads_def
    by (auto simp: exec_calls_fields exec_args_def user_range_def)
qed

section \<open>Properties\<close>

lemma exit_state:
  fixes s u :: "'a syscalls_scheme"
  assumes "procs_of u = procs_of s"
  shows "\<exists>v. sys_exit status u = Halt v \<and> procs_of v = procs_of (kill_current s)"
proof -
  have "procs_of (kill_current t) = procs_of (kill_current s)" if "procs_of t = procs_of s" for t :: "'a syscalls_scheme"
    using that by (auto simp: kill_current_def procs_of_def upd_pcb_def split: option.splits)
  from this [of "console_puts ''\<newline>'' (console_put_dec (scast status) (console_puts ''\<newline>[PROCESS] Exit with status: '' u))"] assms
  show ?thesis by (simp add: sys_exit_def)
qed

lemma kill_current_table:
  assumes "procs_of v = procs_of (kill_current s)"
  shows "current_process v = current_process s" "process_list_head v = process_list_head s" "next_pid v = next_pid s"
    "process_table v = (case current_process s of None \<Rightarrow> process_table s
       | Some p \<Rightarrow> (process_table s)[p := (pcb s p)\<lparr>pcb_state := PROC_STATE_ZOMBIE\<rparr>])"
  using assms by (auto simp: procs_of_def kill_current_def upd_pcb_def split: option.splits)

lemma zombie_entry:
  fixes b :: pcb_t
  shows "b\<lparr>pcb_state := st, pcb_entry_point := e\<rparr> = b\<lparr>pcb_entry_point := e, pcb_state := st\<rparr>"
    "b\<lparr>pcb_state := st, pcb_entry_point := pcb_entry_point b\<rparr> = b\<lparr>pcb_state := st\<rparr>"
  by (cases b; simp)+

text \<open>
  C35: \<^verbatim>\<open>sys_exec\<close> never starts the program that it loads: whenever it comes to an end, it has ended the
  calling process the way \<^verbatim>\<open>sys_exit\<close> does.  The processor is halted with the caller still the current
  process and a zombie; the ring, the PIDs and the other processes are as they were.  The status is 0
  exactly when a path below the border led to a regular file that was read completely, is an ELF
  executable for this processor and could be loaded, and the entry point that its header names is then
  recorded for the dead process; after every error the status is -1 and nothing else of the process
  has changed.  The call does come to an end when the list of arguments has an end, the heap is well
  formed, and nothing is mounted or the mounted volume lies on the disk in memory.
\<close>

theorem sys_exec_ends_caller:
  "((argv = 0 \<or> (\<exists>n. load_le 8 (argv + 8 * of_nat n) (mem s) = (0 :: u64))) \<and> (\<exists>bs. heap_ok s bs) \<and>
      (mounted_fs s = 0 \<or> fs_ok (mounted_fs s) s) \<longrightarrow> sys_exec path argv s \<noteq> None) \<and>
   (\<forall>r. sys_exec path argv s = Some r \<longrightarrow>
     (\<exists>status u v. r = sys_exit status u \<and> r = Halt v \<and> current_process v = current_process s \<and>
        process_list_head v = process_list_head s \<and> next_pid v = next_pid s \<and>
        (case current_process s of
           None \<Rightarrow> status = -1 \<and> process_table v = process_table s
         | Some p \<Rightarrow>
             (\<exists>e. process_table v = (process_table s)[p := (pcb s p)\<lparr>pcb_state := PROC_STATE_ZOMBIE, pcb_entry_point := e\<rparr>] \<and>
               (status = 0 \<and> exec_loads path argv s p e \<or>
                status = -1 \<and> (\<nexists>e'. exec_loads path argv s p e') \<and> e = pcb_entry_point (pcb s p))))))"
proof -
  have ended: "\<exists>status u v. r = sys_exit status u \<and> r = Halt v \<and> current_process v = current_process s \<and>
      process_list_head v = process_list_head s \<and> next_pid v = next_pid s \<and>
      (case current_process s of
         None \<Rightarrow> status = -1 \<and> process_table v = process_table s
       | Some p \<Rightarrow>
           (\<exists>e. process_table v = (process_table s)[p := (pcb s p)\<lparr>pcb_state := PROC_STATE_ZOMBIE, pcb_entry_point := e\<rparr>] \<and>
             (status = 0 \<and> exec_loads path argv s p e \<or>
              status = -1 \<and> (\<nexists>e'. exec_loads path argv s p e') \<and> e = pcb_entry_point (pcb s p))))"
    if r: "sys_exec path argv s = Some r" for r
  proof -
    from sys_exec_exits [OF r] obtain status u where ru: "r = sys_exit status u" and
      u: "status = 0 \<and> (\<exists>p e. exec_loads path argv s p e \<and> procs_of u = procs_of (upd_pcb p (\<lambda>b. b\<lparr>pcb_entry_point := e\<rparr>) s)) \<or>
        status = -1 \<and> (\<nexists>p e. exec_loads path argv s p e) \<and> procs_of u = procs_of s"
      unfolding exits_def by blast
    from u show ?thesis
    proof
      assume "status = 0 \<and> (\<exists>p e. exec_loads path argv s p e \<and> procs_of u = procs_of (upd_pcb p (\<lambda>b. b\<lparr>pcb_entry_point := e\<rparr>) s))"
      then obtain p e where l: "status = 0" "exec_loads path argv s p e" "procs_of u = procs_of (upd_pcb p (\<lambda>b. b\<lparr>pcb_entry_point := e\<rparr>) s)"
        by blast
      have p: "current_process s = Some p" using l(2) by (simp add: exec_loads_def)
      from exit_state [OF l(3)] obtain v where
        v: "r = Halt v" "procs_of v = procs_of (kill_current (upd_pcb p (\<lambda>b. b\<lparr>pcb_entry_point := e\<rparr>) s))"
        unfolding ru by blast
      note k = kill_current_table [OF v(2)]
      have "process_table v = (process_table s)[p := (pcb s p)\<lparr>pcb_state := PROC_STATE_ZOMBIE, pcb_entry_point := e\<rparr>]"
        using k(4) p by (cases "p < length (process_table s)") (simp_all add: upd_pcb_def zombie_entry not_less list_update_beyond)
      with k(1-3) ru v(1) l(1,2) p show ?thesis
        by - (rule exI [of _ status], rule exI [of _ u], rule exI [of _ v], auto simp: upd_pcb_def)
    next
      assume l: "status = -1 \<and> (\<nexists>p e. exec_loads path argv s p e) \<and> procs_of u = procs_of s"
      then have "procs_of u = procs_of s" by blast
      from exit_state [OF this] obtain v where v: "r = Halt v" "procs_of v = procs_of (kill_current s)"
        unfolding ru by blast
      show ?thesis
        using kill_current_table [OF v(2)] v(1) ru l
        by - (rule exI [of _ status], rule exI [of _ u], rule exI [of _ v],
            auto simp: zombie_entry(2) split: option.split intro!: exI [of _ "pcb_entry_point (pcb s p)" for p])
    qed
  qed
  show ?thesis using sys_exec_returns ended by blast
qed

text \<open>A program whose file is only five bytes long is accepted: the rest of its header is what lies behind the buffer.\<close>

theorem sys_exec_ends_caller_witness:
  "\<exists>u v. sys_exec 0x400000 0 exec_calls = Some (sys_exit 0 u) \<and> sys_exit 0 u = (Halt v :: (unit, _) outcome) \<and>
     current_process v = Some 0 \<and> pcb_state (pcb v 0) = PROC_STATE_ZOMBIE"
proof -
  note ends = sys_exec_ends_caller [of 0 exec_calls "0x400000"]
  have "fs_ok 0x10 exec_calls" by (simp add: fs_ok_def vdisk_ok_def exec_calls_fields sample_mount_def)
  with ends [THEN conjunct1] exec_calls_fields(2,8) obtain r where r: "sys_exec 0x400000 0 exec_calls = Some r" by fastforce
  have p: "current_process exec_calls = Some 0" "length (process_table exec_calls) = 1" by (rule exec_calls_fields)+
  from ends [THEN conjunct2, rule_format, OF r, unfolded p option.case] obtain status u v e where
    v: "r = sys_exit status u" "r = Halt v" "current_process v = Some 0"
      "process_table v = (process_table exec_calls)[0 := (pcb exec_calls 0)\<lparr>pcb_state := PROC_STATE_ZOMBIE, pcb_entry_point := e\<rparr>]"
      "status = 0 \<or> (\<nexists>e'. exec_loads 0x400000 0 exec_calls 0 e')" by blast
  have "status = 0" using v(5) exec_calls_loads by blast
  have "pcb_state (pcb v 0) = PROC_STATE_ZOMBIE" using v(4) p(2) by simp
  with r v(1-3) \<open>status = 0\<close> show ?thesis by blast
qed

end
