(* ===== verification/Kernel.thy ===== *)
theory Kernel
  imports Syscall
begin

text \<open>
  The main program, \<^verbatim>\<open>kernel.c\<close>: the order in which the modules are initialised, the mounting of the first
  partition, the creation of the five processes, and the idle loop that the boot processor never
  leaves.  \<^verbatim>\<open>ipc_init\<close> is the parameter \<open>api\<close>, since no file of the repository defines it.
\<close>

definition kernel_panic :: "string \<Rightarrow> i32 \<Rightarrow> string \<Rightarrow> 'a console_scheme \<Rightarrow> (unit, 'a console_scheme) outcome" where
  "kernel_panic file line msg s =
     (let s1 = console_puts ''\<newline>\<newline>!!! KERNEL PANIC !!!\<newline>'' (console_set_color VGA_WHITE VGA_RED (cli s));
          s2 = console_puts '':'' (console_puts file (console_set_color VGA_LIGHT_RED VGA_BLACK s1));
          s3 = console_puts msg (console_puts '': '' (console_put_dec (scast line) s2))
      in Halt (emit Hlt (console_puts ''\<newline>System halted.\<newline>'' s3)))"

section \<open>Booting\<close>

definition boot_banner :: "'a console_scheme \<Rightarrow> 'a console_scheme" where
  "boot_banner s =
     console_set_color VGA_WHITE VGA_BLACK (console_puts ''\<newline>=== MESA-OS Microkernel x86_64 ===\<newline>\<newline>''
       (console_set_color VGA_LIGHT_CYAN VGA_BLACK (console_init s)))"

text \<open>The modules in their order; the record that \<^verbatim>\<open>partition_init\<close> reads the sector into lies on the stack.\<close>

definition init_modules :: "'a syscalls_scheme ipc_api \<Rightarrow> 'a syscalls_scheme \<Rightarrow> 'a syscalls_scheme option" where
  "init_modules api s =
     (case disk_init (syscall_init (idt_init (tss_init (pic_init (mm_init s))))) of
        None \<Rightarrow> None
      | Some s1 \<Rightarrow>
          (case stack_bytes 512 s1 of (junk, s2) \<Rightarrow>
             (case partition_init junk s2 of
                None \<Rightarrow> None
              | Some s3 \<Rightarrow>
                  (case keyboard_init (vfs_init s3) of
                     None \<Rightarrow> None
                   | Some s4 \<Rightarrow> Some (sched_init (snd (ipc_init api (proc_init s4))))))))"

definition mount_root :: "'a syscalls_scheme \<Rightarrow> 'a syscalls_scheme option" where
  "mount_root s =
     (case partition_get 0 s of
        None \<Rightarrow> None
      | Some part \<Rightarrow>
          if part \<noteq> 0 \<and> pi_type (part_mem s part) = PART_TYPE_MESAFS
          then (let root_fs = sym s Sym_root_fs
                in case mesafs_mount (pi_lba_start (part_mem s part)) root_fs s of
                     None \<Rightarrow> None
                   | Some (True, s1) \<Rightarrow> Some s1
                   | Some (False, s1) \<Rightarrow>
                       (let s2 = console_puts ''[BOOT] Formatting MesaFS partition...\<newline>'' s1
                        in case mesafs_format (pi_lba_start (part_mem s2 part)) (pi_num_sectors (part_mem s2 part)) s2 of
                             None \<Rightarrow> None
                           | Some (False, s3) \<Rightarrow> Some s3
                           | Some (True, s3) \<Rightarrow> map_option snd (mesafs_mount (pi_lba_start (part_mem s3 part)) root_fs s3)))
          else Some (console_puts ''[BOOT] No MesaFS partition found\<newline>'' s))"

definition boot_process :: "symbol \<Rightarrow> 'a proc_scheme \<Rightarrow> 'a proc_scheme option" where
  "boot_process entry s = (case proc_create (sym s entry) s of (p, s1) \<Rightarrow> sched_add_process p s1)"

fun boot_processes :: "symbol list \<Rightarrow> 'a proc_scheme \<Rightarrow> 'a proc_scheme option" where
  "boot_processes [] s = Some s"
| "boot_processes (e # es) s = (case boot_process e s of None \<Rightarrow> None | Some s1 \<Rightarrow> boot_processes es s1)"

definition boot_entries :: "symbol list" where
  "boot_entries = [Sym_shell_main, Sym_ipc_server, Sym_ipc_client, Sym_user_program_1, Sym_user_program_2]"

text \<open>\<^verbatim>\<open>kernel_main\<close> up to its idle loop.\<close>

definition kernel_boot :: "'a syscalls_scheme ipc_api \<Rightarrow> 'a syscalls_scheme \<Rightarrow> 'a syscalls_scheme option" where
  "kernel_boot api s =
     (case init_modules api (boot_banner s) of
        None \<Rightarrow> None
      | Some s1 \<Rightarrow>
          (case partition_print_info s1 of
             None \<Rightarrow> None
           | Some s2 \<Rightarrow>
               (case mount_root s2 of
                  None \<Rightarrow> None
                | Some s3 \<Rightarrow>
                    (case boot_processes boot_entries (console_puts ''\<newline>[BOOT] Creating processes...\<newline>\<newline>'' s3) of
                       None \<Rightarrow> None
                     | Some s4 \<Rightarrow>
                         Some (console_puts ''=== Kernel idle loop (scheduler active) ===\<newline>''
                           (sti (pic_unmask_irq 1 (pic_unmask_irq 0
                             (console_puts ''\<newline>[BOOT] Starting scheduler via IRQ0...\<newline>\<newline>'' s4)))))))))"

section \<open>The idle loop\<close>

text \<open>Cells of the text screen, from the offset \<open>i\<close> on.\<close>

fun draw_text :: "u32 \<Rightarrow> string \<Rightarrow> u16 \<Rightarrow> 'a console_scheme \<Rightarrow> 'a console_scheme" where
  "draw_text i [] attr s = s"
| "draw_text i (c # cs) attr s =
     draw_text (i + 1) cs attr (s\<lparr>vga_buffer := (vga_buffer s)(i := scast (char_byte c) OR attr)\<rparr>)"

abbreviation (input) "SPINNER_POS \<equiv> (1360 :: u32)"

definition idle_label :: "'a console_scheme \<Rightarrow> 'a console_scheme" where
  "idle_label s = draw_text SPINNER_POS ''Kernel Idle: '' 0x0700 s"

definition spinner :: string where
  "spinner = [CHR ''|'', CHR ''/'', CHR ''-'', CHR 0x5C]"

definition counter_digits :: "u64 \<Rightarrow> string" where
  "counter_digits c = map (\<lambda>i. ''0123456789ABCDEF'' ! unat (drop_bit ((15 - i) * 4) c AND 0xF)) [0..<16]"

text \<open>One turn: the spinner, the counter in hexadecimal, and \<^verbatim>\<open>hlt\<close>.\<close>

definition idle_turn :: "u64 \<Rightarrow> 'a console_scheme \<Rightarrow> 'a console_scheme" where
  "idle_turn idle_counter s =
     (let s1 = draw_text (SPINNER_POS + 13) [spinner ! unat (idle_counter AND 3)] 0x0F00 s;
          s2 = draw_text (SPINNER_POS + 15) (counter_digits idle_counter) 0x0800 s1
      in emit Hlt s2)"

text \<open>
  The loop: each \<^verbatim>\<open>hlt\<close> ends with an interrupt request, whose handler is entered with the given stack pointer.
  When the handler returns another one, the processor does not come back to the loop.
\<close>

fun idle_loop :: "u64 list \<Rightarrow> u64 \<Rightarrow> 'a idt_state_scheme \<Rightarrow> (u64 \<times> 'a idt_state_scheme) option" where
  "idle_loop [] idle_counter s = Some (idle_counter, s)"
| "idle_loop (rsp # rsps) idle_counter s =
     (case irq_handler_with_switch rsp (idle_turn idle_counter s) of
        None \<Rightarrow> None
      | Some (rsp1, s1) \<Rightarrow> if rsp1 = rsp then idle_loop rsps (idle_counter + 1) s1 else None)"

section \<open>Frames\<close>

lemma draw_text_frame [simp]: "console.more (draw_text i cs attr s) = console.more s"
  by (induction cs arbitrary: i s) simp_all

lemma idle_turn_frame [simp]: "console.more (idle_turn c s) = console.more s"
  by (simp add: idle_turn_def Let_def)

lemma idle_label_frame [simp]: "console.more (idle_label s) = console.more s"
  by (simp add: idle_label_def)

lemma boot_banner_frame [simp]: "console.more (boot_banner s) = console.more s"
  by (simp add: boot_banner_def)

end
