(* ===== verification/Kernel_Props.thy ===== *)
theory Kernel_Props
  imports Kernel Syscall_Fs_Props Proc_Frames
begin

text \<open>
Booting: what the initialisation of each module leaves alone, the five processes that \<^verbatim>\<open>kernel_main\<close> creates,
  the idle loop under any sequence of interrupts, and the boot of a machine without a drive from its
  first instruction to the idle loop.
\<close>

section \<open>Specification\<close>

text \<open>The message queues keep to their own data: \<^verbatim>\<open>ipc_init\<close> leaves the other modules alone.\<close>

definition ipc_init_local :: "'a syscalls_scheme ipc_api \<Rightarrow> bool" where
  "ipc_init_local api \<longleftrightarrow> (\<forall>s. let t = snd (ipc_init api s)
     in procs_of t = procs_of s \<and> partition_list_head t = partition_list_head s \<and> mounted_fs t = mounted_fs s)"

text \<open>The processes with the given entry points are ready, in the first slots and in the ring, in this order.\<close>

definition booted :: "symbol list \<Rightarrow> u32 \<Rightarrow> 'a proc_scheme \<Rightarrow> bool" where
  "booted es pid s \<longleftrightarrow> current_process s = None \<and> sched_ok s [0..<length es] \<and> next_pid s = pid + of_nat (length es) \<and>
     length (process_table s) = 64 \<and>
     (\<forall>i < length es. pcb_pid (pcb s i) = pid + of_nat i \<and> pcb_state (pcb s i) = PROC_STATE_READY \<and>
        pcb_entry_point (pcb s i) = sym s (es ! i)) \<and>
     (\<forall>i. length es \<le> i \<and> i < 64 \<longrightarrow> pcb_state (pcb s i) = PROC_STATE_UNUSED)"

text \<open>What booting needs of the boot processor's memory: no process yet, no partition found, nothing mounted.\<close>

definition cold_boot :: "'a syscalls_scheme \<Rightarrow> bool" where
  "cold_boot s \<longleftrightarrow> current_process s = None \<and> process_list_head s = None \<and> boot_pml4 s \<noteq> 0 \<and>
     partition_list_head s = 0 \<and> mounted_fs s = 0 \<and> sane_layout s"

text \<open>A bus without a drive reads as ones.\<close>

definition no_drive :: "'a machine_scheme \<Rightarrow> bool" where
  "no_drive s \<longleftrightarrow> (\<forall>tr. ucast (dev s tr 0x1F7) = (0xFF :: u8))"

definition silent_queues :: "'a syscalls_scheme ipc_api" where
  "silent_queues = \<lparr>ipc_init = (\<lambda>s. (0, s)), ipc_send = (\<lambda>pid p n s. Some (-1, s)),
     ipc_receive = (\<lambda>pid p n s. Some (-1, s)), ipc_call = (\<lambda>pid p n q k s. Some (-1, s))\<rparr>"

definition powered_on :: syscalls where
  "powered_on = (user_calls [])\<lparr>current_process := None, process_list_head := None, next_pid := 1, partition_list_head := 0,
     mounted_fs := 0, kernel_end := 0x180000, dev := (\<lambda>tr p. if p = 0x1F7 then 0xFF else 0)\<rparr>"

section \<open>Initialisation leaves the processes alone\<close>

lemma procs_of_boot_steps [simp]: "procs_of (boot_banner s) = procs_of s" "procs_of (idle_label s) = procs_of s"
  "procs_of (idle_turn c s) = procs_of s"
  by (rule procs_of_console, simp)+

lemma procs_of_unmask [simp]: "procs_of (pic_unmask_irq n s) = procs_of s"
  by (rule procs_of_machine) simp

lemma procs_of_mm_init [simp]: "procs_of (mm_init s) = procs_of s"
  by (rule procs_of_mm) simp_all

lemma procs_of_modules [simp]:
  fixes s :: "'a syscalls_scheme"
  shows "procs_of (pic_init s) = procs_of s" "procs_of (vfs_init s) = procs_of s" "procs_of (sched_init s) = procs_of s"
    "procs_of (tss_init s) = procs_of s" "procs_of (idt_init s) = procs_of s" "procs_of (syscall_init s) = procs_of s"
proof -
  have i: "procs_of (idt_set_gate n h a b u) = procs_of u" for n h a b and u :: "'a syscalls_scheme"
    by (simp add: idt_set_gate_def procs_of_def)
  have u: "procs_of (u\<lparr>idtr := r\<rparr>) = procs_of u" "procs_of (u\<lparr>tss := t\<rparr>) = procs_of u" "procs_of (u\<lparr>gdt_tss := g\<rparr>) = procs_of u"
    "procs_of (u\<lparr>cpu_data := c\<rparr>) = procs_of u" for u :: "'a syscalls_scheme" and r t g c
    by (simp_all add: procs_of_def)
  have w: "procs_of (wrmsr r v u) = procs_of u" for r v and u :: "'a syscalls_scheme"
    by (simp add: wrmsr_def Let_def)
  show "procs_of (pic_init s) = procs_of s" "procs_of (vfs_init s) = procs_of s" by (rule procs_of_console, simp)+
  show "procs_of (sched_init s) = procs_of s" by (simp add: sched_init_def)
  show "procs_of (tss_init s) = procs_of s" by (simp add: tss_init_def Let_def u)
  show "procs_of (idt_init s) = procs_of s" by (simp add: idt_init_def Let_def u i procs_of_fold)
  show "procs_of (syscall_init s) = procs_of s" by (simp add: syscall_init_def syscall_banner_def Let_def u w)
qed

lemma drain_controller_machine:
  assumes "drain_controller s = Some t"
  shows "machine.more t = machine.more s"
proof (rule drain_controller.raw_induct [where P = "\<lambda>s t. machine.more t = machine.more s", OF _ assms])
  fix drain and s t :: "'a keyboard_scheme"
  assume IH: "\<And>s t. drain s = Some t \<Longrightarrow> machine.more t = machine.more s"
    and eq: "(case inb 0x64 s of (status, s1) \<Rightarrow>
        if status AND 1 \<noteq> 0 then drain (snd (inb 0x60 s1)) else Some s1) = Some t"
  show "machine.more t = machine.more s"
    using eq IH [of "snd (inb 0x60 (snd (inb 0x64 s)))" t] by (auto simp: split_def split: if_splits)
qed

lemma procs_of_keyboard_init: "keyboard_init s = Some t \<Longrightarrow> procs_of t = procs_of (s :: 'a syscalls_scheme)"
proof -
  have u: "procs_of (s\<lparr>kb_buffer := b, shift_pressed := x, ctrl_pressed := y, caps_lock := z\<rparr>) = procs_of s" for b x y z
    by (simp add: procs_of_def)
  assume "keyboard_init s = Some t"
  then show ?thesis
    by (auto simp: keyboard_init_def Let_def u split: option.splits dest!: drain_controller_machine procs_of_machine)
qed

lemma procs_of_disk_init:
  fixes s :: "'a syscalls_scheme"
  assumes "disk_init s = Some t"
  shows "procs_of t = procs_of s"
proof -
  have u: "procs_of (u\<lparr>virtual_disk := v, mem := m, using_virtual_disk := b, disk_total_sectors := d\<rparr>) = procs_of u" for u :: "'a syscalls_scheme" and v m b d
    by (simp add: procs_of_def)
  have id: "procs_of (snd (ata_identify u)) = procs_of u" for u :: "'a syscalls_scheme"
  proof -
    have "procs_of (outb p v w) = procs_of w" "procs_of (snd (inb p w)) = procs_of w"
      "procs_of (snd (identify_poll n st w)) = procs_of w" "procs_of (snd (read_words n w)) = procs_of w"
      for p v n st and w :: "'a syscalls_scheme"
      by (rule procs_of_machine, simp)+
    then show ?thesis by (simp add: ata_identify_def split_def Let_def split: option.splits)
  qed
  have "procs_of (disk_use_memory p u) = procs_of u" "procs_of (announce_virtual u) = procs_of u" "procs_of (report_physical u) = procs_of u"
    for p and u :: "'a syscalls_scheme"
    by (simp_all add: disk_use_memory_def report_status_def announce_virtual_def report_physical_def u)
  with assms id [of "console_puts ''[DISK] Initializing ATA/IDE disk...\<newline>'' s"] show ?thesis
    by (auto simp: disk_init_def split: option.splits prod.splits if_splits dest!: procs_of_kmalloc)
qed

lemma procs_of_partition_init:
  fixes s :: "'a syscalls_scheme"
  assumes "partition_init junk s = Some t"
  shows "procs_of t = procs_of s"
proof -
  have pp: "procs_of (print_part i p u) = procs_of u" "procs_of (report_status c m u) = procs_of u" for i p c m and u :: "'a syscalls_scheme"
    by (simp_all add: print_part_def report_status_def)
  have up: "procs_of (u\<lparr>part_mem := m, partition_list_head := a\<rparr>) = procs_of u" for m a and u :: "'a syscalls_scheme"
    by (simp add: procs_of_def)
  have add: "procs_of w = procs_of u" if "add_partition i p u = Some w" for i p and u w :: "'a syscalls_scheme"
    using that by (auto simp: add_partition_def Let_def pp up split: if_splits option.splits dest!: procs_of_kmalloc)
  have adds: "procs_of w = procs_of u" if "add_partitions i ps u = Some w" for i ps and u w :: "'a syscalls_scheme"
    using that by (induction i ps u rule: add_partitions.induct) (auto split: option.splits dest!: add)
  have list: "procs_of w = procs_of u" if "list_partitions m u = Some w" for m and u w :: "'a syscalls_scheme"
    using that by (auto simp: list_partitions_def pp split: option.splits dest!: adds)
  have rd: "procs_of w = procs_of u" if "partition_read_mbr b u = Some (r, w)" for b r and u w :: "'a syscalls_scheme"
    using that by (auto simp: partition_read_mbr_def split: option.splits if_splits dest!: procs_of_read_sector)
  show ?thesis
    using assms by (auto simp: partition_init_def Let_def split: option.splits bool.splits prod.splits
        dest!: list rd procs_of_write_sector)
qed

lemma procs_of_print_info:
  assumes "partition_print_info s = Some t"
  shows "procs_of t = procs_of (s :: 'a syscalls_scheme)"
proof -
  have "procs_of w = procs_of u" if "print_info_loop p n u = Some (r, w)" for p n r and u w :: "'a syscalls_scheme"
  proof -
    have "procs_of (snd x) = procs_of u" if "print_info_loop p n u = Some x" for x
    proof (rule print_info_loop.raw_induct [where P = "\<lambda>p n u x. procs_of (snd x) = procs_of (u :: 'a syscalls_scheme)", OF _ that])
      fix loop p n x and u :: "'a syscalls_scheme"
      assume IH: "\<And>p n u x. loop p n u = Some x \<Longrightarrow> procs_of (snd x) = procs_of u"
        and eq: "(if p = 0 then Some (n, u)
          else loop (pi_next (part_mem u p)) (n + pi_size_bytes (part_mem u p)) (print_part_report (part_mem u p) u)) = Some x"
      have "procs_of (print_part_report q u) = procs_of u" for q
        by (simp add: print_part_report_def Let_def)
      with eq show "procs_of (snd x) = procs_of u" by (auto split: if_splits dest!: IH)
    qed
    with that show ?thesis by fastforce
  qed
  with assms show ?thesis
    by (auto simp: partition_print_info_def print_space_def Let_def split: if_splits option.splits)
qed

lemma procs_of_mount:
  assumes "mesafs_mount lba fs s = Some (r, t)"
  shows "procs_of t = procs_of (s :: 'a syscalls_scheme)"
proof -
  have "procs_of (mount_report sb u) = procs_of u" for sb and u :: "'a syscalls_scheme"
    by (simp add: mount_report_def)
  moreover have "procs_of (u\<lparr>fs_mem := m, mounted_fs := a\<rparr>) = procs_of u" for m a and u :: "'a syscalls_scheme"
    by (simp add: procs_of_def)
  moreover have "procs_of w = procs_of u" if "stack_bytes n u = (x, w)" for n x and u w :: "'a syscalls_scheme"
    using that procs_of_stack_bytes [of n u] by simp
  ultimately show ?thesis using assms
    by (auto simp: mesafs_mount_def Let_def split: if_splits option.splits prod.splits dest!: procs_of_read_sector)
qed

lemma procs_of_format:
  assumes "mesafs_format lba n s = Some (r, t)"
  shows "procs_of t = procs_of (s :: 'a syscalls_scheme)"
proof -
  have "procs_of w = procs_of u" if "stack_bytes n u = (x, w)" for n x and u w :: "'a syscalls_scheme"
    using that procs_of_stack_bytes [of n u] by simp
  with assms show ?thesis
    by (auto simp: mesafs_format_def Let_def split: if_splits option.splits prod.splits bool.splits
        dest!: procs_of_write_sector procs_of_write_sectors)
qed

section \<open>The processes that booting creates\<close>

lemma booted_procs_of: "procs_of t = procs_of s \<Longrightarrow> booted es pid s \<Longrightarrow> booted es pid t"
  by (simp add: booted_def procs_of_def sched_ok_def split: option.splits)

lemma find_unused_at:
  assumes "k < length ps" "\<forall>i < k. pcb_state (ps ! i) \<noteq> PROC_STATE_UNUSED" "pcb_state (ps ! k) = PROC_STATE_UNUSED"
  shows "find_unused i ps = Some (i + k)"
  using assms
proof (induction ps arbitrary: i k)
  case (Cons p ps)
  then show ?case
  proof (cases k)
    case (Suc j)
    have "pcb_state p \<noteq> PROC_STATE_UNUSED" using Cons.prems(2) Suc by force
    moreover have "find_unused (Suc i) ps = Some (Suc i + j)"
      using Cons.prems Suc by (intro Cons.IH) force+
    ultimately show ?thesis using Suc by simp
  qed simp
qed simp

lemma sched_add_process_keeps:
  assumes "sched_add_process p s = Some t"
  shows "next_pid t = next_pid s" "boot_pml4 t = boot_pml4 s" "sym t = sym s"
  using assms by (auto simp: sched_add_process_def upd_pcb_def Let_def split: option.splits if_splits)

lemma proc_create_keeps:
  fixes s :: "'a proc_scheme"
  assumes "proc_create e s = (p, t)"
  shows "boot_pml4 t = boot_pml4 s" "sym t = sym s"
proof -
  have "boot_pml4 (proc_report q u) = boot_pml4 u" for q and u :: "'a proc_scheme" by (simp add: proc_report_def)
  with assms show "boot_pml4 t = boot_pml4 s" "sym t = sym s"
    by (auto simp: proc_create_def upd_pcb_def split_def Let_def split: option.splits if_splits)
qed

lemma boot_process_booted:
  assumes "booted es pid s" "length es < 64" "boot_pml4 s \<noteq> 0"
  shows "\<exists>t. boot_process e s = Some t \<and> booted (es @ [e]) pid t \<and> boot_pml4 t = boot_pml4 s \<and> sym t = sym s"
proof -
  let ?k = "length es"
  note b = assms(1)[unfolded booted_def]
  have a: "alloc_pcb s = Some ?k"
    using find_unused_at [of ?k "process_table s" 0] b assms(2) by (simp add: alloc_pcb_def)
  from proc_create_spec [OF a assms(3), of "sym s e"] obtain u where
    u: "proc_create (sym s e) s = (Some ?k, u)" "pcb_pid (pcb u ?k) = next_pid s" "pcb_state (pcb u ?k) = PROC_STATE_READY"
      "pcb_entry_point (pcb u ?k) = sym s e" "\<And>q. q \<noteq> ?k \<Longrightarrow> pcb u q = pcb s q"
      "length (process_table u) = length (process_table s)" "next_pid u = next_pid s + 1"
      "current_process u = current_process s" "process_list_head u = process_list_head s"
    by (auto simp: Let_def)
  have "links_to (process_table u) [0..<?k] y = links_to (process_table s) [0..<?k] y" for y
    using u(5) by (intro links_to_cong) simp
  then have so: "sched_ok u [0..<?k]" using b u(6,9) by (auto simp: sched_ok_def ring_def hd_upt split: option.splits)
  have "?k < length (process_table u)" using b assms(2) u(6) by simp
  from sched_add_spec [OF so _ this u(3)] obtain t where
    t: "sched_add_process (Some ?k) u = Some t" "sched_ok t ([0..<?k] @ [?k])" "length (process_table t) = length (process_table u)"
      "current_process t = current_process u"
      and eq: "\<And>x. (pcb t x)\<lparr>pcb_next := None, pcb_time_slice := 0\<rparr> = (pcb u x)\<lparr>pcb_next := None, pcb_time_slice := 0\<rparr>"
    by auto
  have f: "pcb_pid (pcb t x) = pcb_pid (pcb u x)" "pcb_state (pcb t x) = pcb_state (pcb u x)"
    "pcb_entry_point (pcb t x) = pcb_entry_point (pcb u x)" for x
    using arg_cong [OF eq [of x], of pcb_pid] arg_cong [OF eq [of x], of pcb_state] arg_cong [OF eq [of x], of pcb_entry_point]
    by simp_all
  note keeps = sched_add_process_keeps [OF t(1)] proc_create_keeps [OF u(1)]
  have "booted (es @ [e]) pid t"
    using b t u keeps by (auto simp: booted_def f nth_append less_Suc_eq)
  moreover have "boot_process e s = Some t" using u(1) t(1) by (simp add: boot_process_def)
  ultimately show ?thesis using keeps by auto
qed

lemma boot_processes_booted:
  assumes "booted xs pid s" "length xs + length es \<le> 64" "boot_pml4 s \<noteq> 0"
  shows "\<exists>t. boot_processes es s = Some t \<and> booted (xs @ es) pid t"
  using assms
proof (induction es arbitrary: xs s)
  case (Cons e es)
  from boot_process_booted [OF Cons.prems(1) _ Cons.prems(3), of e] Cons.prems(2) obtain u where
    u: "boot_process e s = Some u" "booted (xs @ [e]) pid u" "boot_pml4 u = boot_pml4 s" by auto
  from Cons.IH [OF u(2)] Cons.prems(2,3) u(1,3) show ?case by auto
qed auto

section \<open>The boot sequence\<close>

lemma procs_of_mount_root:
  assumes "mount_root s = Some t"
  shows "procs_of t = procs_of s"
  using assms by (auto simp: mount_root_def Let_def split: option.splits if_splits bool.splits prod.splits
      dest!: procs_of_mount procs_of_format)

lemma init_modules_booted:
  assumes "init_modules api s = Some t" "ipc_init_local api" "current_process s = None" "process_list_head s = None"
  shows "booted [] (next_pid s) t \<and> boot_pml4 t = boot_pml4 s"
proof -
  from assms(1) obtain s1 junk s2 s3 s4 where
    s: "disk_init (syscall_init (idt_init (tss_init (pic_init (mm_init s))))) = Some s1" "stack_bytes 512 s1 = (junk, s2)"
      "partition_init junk s2 = Some s3" "keyboard_init (vfs_init s3) = Some s4"
      "t = sched_init (snd (ipc_init api (proc_init s4)))"
    by (auto simp: init_modules_def split: option.splits prod.splits)
  have "procs_of s4 = procs_of s"
    using procs_of_disk_init [OF s(1)] procs_of_stack_bytes [of 512 s1] procs_of_partition_init [OF s(3)]
      procs_of_keyboard_init [OF s(4)] s(2) by simp
  moreover have "procs_of t = procs_of (proc_init s4)"
    using assms(2) s(5) by (simp add: ipc_init_local_def Let_def)
  ultimately show ?thesis using assms(3,4)
    by (auto simp: procs_of_def booted_def proc_init_def Let_def sched_ok_def)
qed

lemma kernel_boot_booted:
  assumes "kernel_boot api s = Some t" "ipc_init_local api" "current_process s = None" "process_list_head s = None"
    "boot_pml4 s \<noteq> 0"
  shows "booted boot_entries (next_pid s) t"
proof -
  from assms(1) obtain s1 s2 s3 s4 where
    s: "init_modules api (boot_banner s) = Some s1" "partition_print_info s1 = Some s2" "mount_root s2 = Some s3"
      "boot_processes boot_entries (console_puts ''\<newline>[BOOT] Creating processes...\<newline>\<newline>'' s3) = Some s4" "procs_of t = procs_of s4"
    by (auto simp: kernel_boot_def split: option.splits)
  have b: "procs_of (boot_banner s) = procs_of s" by simp
  then have "booted [] (next_pid s) s1 \<and> boot_pml4 s1 = boot_pml4 s"
    using init_modules_booted [OF s(1) assms(2)] assms(3,4) by (simp add: procs_of_def)
  moreover have p: "procs_of (console_puts ''\<newline>[BOOT] Creating processes...\<newline>\<newline>'' s3) = procs_of s1"
    using procs_of_print_info [OF s(2)] procs_of_mount_root [OF s(3)] by simp
  moreover have "boot_pml4 (console_puts ''\<newline>[BOOT] Creating processes...\<newline>\<newline>'' s3) = boot_pml4 s1"
    using p by (simp add: procs_of_def)
  ultimately have "booted [] (next_pid s) (console_puts ''\<newline>[BOOT] Creating processes...\<newline>\<newline>'' s3)"
    "boot_pml4 (console_puts ''\<newline>[BOOT] Creating processes...\<newline>\<newline>'' s3) \<noteq> 0"
    using assms(5) booted_procs_of [OF p] by metis+
  from boot_processes_booted [OF this(1) _ this(2), of boot_entries] s(4) have "booted boot_entries (next_pid s) s4"
    by (simp add: boot_entries_def)
  then show ?thesis by (rule booted_procs_of [OF s(5)])
qed

lemma idle_loop_runs:
  assumes "current_process s = None"
  shows "\<exists>t. idle_loop rsps c s = Some (c + of_nat (length rsps), t) \<and> keyboard.more t = keyboard.more s"
  using assms
proof (induction rsps arbitrary: c s)
  case (Cons r rs)
  have kb: "keyboard.more v = keyboard.more w" if "console.more v = console.more w" for v w :: "'a idt_state_scheme"
    using that by (cases v; cases w; simp)
  have i: "keyboard.more (idle_turn c s) = keyboard.more s" by (rule kb) simp
  note f = keyboard_to_proc [OF i]
  from irq_without_current [of "idle_turn c s" r] Cons.prems f obtain u where
    u: "irq_handler_with_switch r (idle_turn c s) = Some (r, u)" "keyboard.more u = keyboard.more (idle_turn c s)" by auto
  note g = keyboard_to_proc [OF u(2)]
  have "current_process u = None" using Cons.prems f g by simp
  from Cons.IH [OF this, of "c + 1"] obtain t where
    t: "idle_loop rs (c + 1) u = Some (c + 1 + of_nat (length rs), t)" "keyboard.more t = keyboard.more u" by blast
  have "idle_loop (r # rs) c s = Some (c + of_nat (length (r # rs)), t)" using u(1) t(1) by (simp add: add.assoc)
  then show ?case using t(2) u(2) i by simp
qed simp

section \<open>Booting without a drive\<close>

lemma mm_init_heap:
  assumes "sane_layout s"
  shows "heap_ok (mm_init s) (fresh_segs s) \<and> dev (mm_init s) = dev s"
proof -
  let ?s = "console_puts ''\<newline>'' (console_put_dec MAX_PHYS_PAGES (console_puts ''     Physical pages: ''
    ((console_puts ''[MM] Initializing memory...\<newline>'' s)\<lparr>phys_bitmap := mark_low_pages (phys_bitmap s)\<rparr>)))"
  have k: "kernel_end ?s = kernel_end s" "dev ?s = dev s" by simp_all
  have "low_of (mm_map_user_stack u) = low_of u" for u :: "'a mm_scheme"
    by (simp add: mm_map_user_stack_def split_def Let_def)
  then have "low_of (mm_init s) = low_of (kheap_init ?s)" by (simp add: mm_init_def Let_def)
  from low_of_heap [OF this] have "heap_ok (mm_init s) (fresh_segs s) = heap_ok (kheap_init ?s) (fresh_segs s)"
    "dev (mm_init s) = dev (kheap_init ?s)" by simp_all
  moreover have "heap_ok (kheap_init ?s) (fresh_segs ?s)" using assms k by (intro kheap_init_ok) (simp add: sane_layout_def)
  moreover have "fresh_segs ?s = fresh_segs s" using k by (simp add: fresh_segs_def KHEAP_START_def)
  moreover have "dev (kheap_init ?s) = dev s" using k by (simp add: kheap_init_def Let_def)
  ultimately show ?thesis by simp
qed

text \<open>The machine before \<^verbatim>\<open>disk_init\<close>, and what the modules up to there leave alone.\<close>

lemma early_modules:
  fixes s :: "'a syscalls_scheme"
  shows "low_of (syscall_init (idt_init (tss_init (pic_init s)))) = low_of s"
    "partition_list_head (syscall_init (idt_init (tss_init (pic_init s)))) = partition_list_head s"
    "mounted_fs (syscall_init (idt_init (tss_init (pic_init s)))) = mounted_fs s"
proof -
  let ?f = "\<lambda>s :: 'a syscalls_scheme. (low_of s, partition_list_head s, mounted_fs s)"
  have c: "?f (console_puts cs u) = ?f u" "?f (console_set_color fg bg u) = ?f u" "?f (emit e u) = ?f u" for cs fg bg e and u :: "'a syscalls_scheme"
    by simp_all
  have u: "?f (u\<lparr>idtr := r\<rparr>) = ?f u" "?f (u\<lparr>tss := t\<rparr>) = ?f u" "?f (u\<lparr>gdt_tss := g\<rparr>) = ?f u" "?f (u\<lparr>cpu_data := d\<rparr>) = ?f u"
    for u :: "'a syscalls_scheme" and r t g d
    by (simp_all add: low_of_def)
  have i: "?f (idt_set_gate n h a b u) = ?f u" for n h a b and u :: "'a syscalls_scheme"
    by (simp add: idt_set_gate_def low_of_def)
  have w: "?f (wrmsr r v u) = ?f u" for r v and u :: "'a syscalls_scheme"
    using c(3) by (simp add: wrmsr_def Let_def)
  have fold: "?f (fold (\<lambda>i s. idt_set_gate (g i) (h i s) a b s) xs u) = ?f u" for g h a b and xs :: "nat list" and u :: "'a syscalls_scheme"
  proof (induction xs arbitrary: u)
    case (Cons x xs)
    then show ?case using i by simp
  qed simp
  have p: "?f (pic_init s) = ?f s"
    by (simp add: pic_init_def split_def Let_def low_of_def)
  have t: "?f (tss_init v) = ?f v" for v :: "'a syscalls_scheme"
    using c u by (simp add: tss_init_def Let_def)
  have d: "?f (idt_init v) = ?f v" for v :: "'a syscalls_scheme"
    using c u i fold by (simp add: idt_init_def Let_def)
  have y: "?f (syscall_init v) = ?f v" for v :: "'a syscalls_scheme"
    using c u w by (simp add: syscall_init_def syscall_banner_def Let_def)
  show "low_of (syscall_init (idt_init (tss_init (pic_init s)))) = low_of s"
    "partition_list_head (syscall_init (idt_init (tss_init (pic_init s)))) = partition_list_head s"
    "mounted_fs (syscall_init (idt_init (tss_init (pic_init s)))) = mounted_fs s"
    using p t d y by simp_all
qed

lemma keyboard_init_fields:
  assumes "keyboard_init s = Some t"
  shows "partition_list_head t = partition_list_head s" "mounted_fs t = mounted_fs s"
  using keyboard_init_frame [OF assms] by (cases s; cases t; simp)+

lemma kmalloc_fields:
  fixes s :: "'a syscalls_scheme"
  assumes "kmalloc n s = Some (p, t)"
  shows "dev t = dev s" "partition_list_head t = partition_list_head s" "mounted_fs t = mounted_fs s"
  using assms by (auto simp: kmalloc_def split: if_splits option.splits)

lemma disk_init_without_drive:
  fixes s :: "'a syscalls_scheme"
  assumes "heap_ok s bs" "no_drive s"
  shows "\<exists>t. disk_init s = Some t \<and> disk_total_sectors t = 0 \<and> dev t = dev s \<and>
    partition_list_head t = partition_list_head s \<and> mounted_fs t = mounted_fs s"
proof -
  let ?s = "console_puts ''[DISK] Initializing ATA/IDE disk...\<newline>'' s"
  from disk_init_absent [OF assms(1) assms(2)[unfolded no_drive_def]] obtain s1 s2 where
    d: "disk_init s = Some (disk_use_memory 0 s2)" "kmalloc 0x1000000 (announce_virtual s1) = Some (0, s2)"
      "ata_identify ?s = (False, s1)" "machine.more s1 = machine.more ?s" by blast
  have "dev (snd (identify_poll n st u)) = dev u" for n st and u :: "'a syscalls_scheme"
    by (induction n arbitrary: st u) (simp_all add: split_def)
  moreover have "dev (snd (read_words n u)) = dev u" for n and u :: "'a syscalls_scheme"
    by (induction n arbitrary: u) (simp_all add: split_def)
  ultimately have "dev (snd (ata_identify ?s)) = dev ?s"
    by (simp add: ata_identify_def split_def Let_def split: option.splits)
  then have s1: "dev s1 = dev s" using d(3) by simp
  have m: "partition_list_head s1 = partition_list_head ?s" "mounted_fs s1 = mounted_fs ?s"
    using machine_to_disk(10) [OF d(4)] by (cases s1; cases ?s; simp)+
  have a: "dev (announce_virtual s1) = dev s1" "partition_list_head (announce_virtual s1) = partition_list_head s1"
    "mounted_fs (announce_virtual s1) = mounted_fs s1" by (simp_all add: announce_virtual_def)
  have "disk_total_sectors (disk_use_memory 0 s2) = 0" "dev (disk_use_memory 0 s2) = dev s2"
    "partition_list_head (disk_use_memory 0 s2) = partition_list_head s2" "mounted_fs (disk_use_memory 0 s2) = mounted_fs s2"
    by (simp_all add: disk_use_memory_def report_status_def)
  with d(1) kmalloc_fields [OF d(2)] a s1 m show ?thesis by simp
qed

lemma partition_init_without_disk:
  fixes s :: "'a syscalls_scheme"
  assumes "disk_total_sectors s = 0"
  shows "\<exists>t. partition_init junk s = Some t \<and> dev t = dev s \<and> partition_list_head t = partition_list_head s \<and>
    mounted_fs t = mounted_fs s"
  using assms by (simp add: partition_init_def partition_read_mbr_def disk_read_sector_def disk_write_sector_def Let_def)

lemma init_modules_without_drive:
  assumes "cold_boot s" "no_drive s" "holds_bytes n (dev s)" "ipc_init_local api"
  shows "\<exists>t. init_modules api s = Some t \<and> partition_list_head t = 0 \<and> mounted_fs t = 0"
proof -
  let ?a = "syscall_init (idt_init (tss_init (pic_init (mm_init s))))"
  have "heap_ok (mm_init s) (fresh_segs s)" "dev (mm_init s) = dev s"
    using mm_init_heap [of s] assms(1) by (simp_all add: cold_boot_def)
  then have a: "heap_ok ?a (fresh_segs s)" "dev ?a = dev s" using low_of_heap [OF early_modules(1) [of "mm_init s"]] by auto
  have f: "partition_list_head ?a = 0" "mounted_fs ?a = 0" using early_modules(2,3) [of "mm_init s"] assms(1) by (simp_all add: cold_boot_def)
  from disk_init_without_drive [OF a(1)] a(2) f assms(2) obtain s1 where
    s1: "disk_init ?a = Some s1" "disk_total_sectors s1 = 0" "dev s1 = dev s" "partition_list_head s1 = 0" "mounted_fs s1 = 0"
    by (auto simp: no_drive_def)
  obtain junk s2 where j: "stack_bytes 512 s1 = (junk, s2)" by force
  then have s2: "disk_total_sectors s2 = 0" "dev s2 = dev s" "partition_list_head s2 = 0" "mounted_fs s2 = 0"
    using s1 by (auto simp: stack_bytes_def)
  from partition_init_without_disk [OF s2(1), of junk] s2 obtain s3 where
    s3: "partition_init junk s2 = Some s3" "dev s3 = dev s" "partition_list_head s3 = 0" "mounted_fs s3 = 0" by auto
  have v: "dev (vfs_init s3) = dev s" "partition_list_head (vfs_init s3) = 0" "mounted_fs (vfs_init s3) = 0"
    using s3 by (simp_all add: vfs_init_def)
  from keyboard_init_returns [of n "vfs_init s3"] assms(3) v(1) obtain s4 where s4: "keyboard_init (vfs_init s3) = Some s4" by auto
  note k = keyboard_init_fields [OF s4]
  have "partition_list_head (proc_init s4) = 0" "mounted_fs (proc_init s4) = 0" using k v by (simp_all add: proc_init_def)
  then have "partition_list_head (sched_init (snd (ipc_init api (proc_init s4)))) = 0" "mounted_fs (sched_init (snd (ipc_init api (proc_init s4)))) = 0"
    using assms(4) by (simp_all add: ipc_init_local_def Let_def sched_init_def)
  then show ?thesis using s1(1) j s3(1) s4 by (simp add: init_modules_def)
qed

lemma boot_process_mounted:
  assumes "boot_process e s = Some t"
  shows "mounted_fs t = mounted_fs (s :: 'a proc_scheme)"
proof -
  have "mounted_fs (proc_report q u) = mounted_fs u" for q and u :: "'a proc_scheme" by (simp add: proc_report_def)
  then have "mounted_fs (snd (proc_create a s)) = mounted_fs s" for a
    by (auto simp: proc_create_def upd_pcb_def split_def Let_def split: option.splits if_splits)
  moreover have "mounted_fs t = mounted_fs u" if "sched_add_process p u = Some t" for p u
    using that by (auto simp: sched_add_process_def upd_pcb_def Let_def split: option.splits if_splits)
  ultimately show ?thesis using assms by (auto simp: boot_process_def split_def)
qed

lemma boot_processes_mounted: "boot_processes es s = Some t \<Longrightarrow> mounted_fs t = mounted_fs s"
  by (induction es s rule: boot_processes.induct) (auto split: option.splits dest: boot_process_mounted)

lemma kernel_boot_without_drive:
  assumes "cold_boot s" "no_drive s" "holds_bytes n (dev s)" "ipc_init_local api"
  shows "\<exists>t. kernel_boot api s = Some t \<and> booted boot_entries (next_pid s) t \<and> mounted_fs t = 0 \<and> iflag t"
proof -
  let ?b = "boot_banner s"
  have c: "console.more ?b = console.more s" by simp
  have dev: "dev ?b = dev s" by (simp add: boot_banner_def console_init_def)
  have "cold_boot ?b" "no_drive ?b" "holds_bytes n (dev ?b)"
    using assms c dev by (cases s; cases ?b; simp add: cold_boot_def no_drive_def sane_layout_def)+
  from init_modules_without_drive [OF this assms(4)] obtain s1 where
    s1: "init_modules api ?b = Some s1" "partition_list_head s1 = 0" "mounted_fs s1 = 0" by blast
  have m: "booted [] (next_pid ?b) s1 \<and> boot_pml4 s1 = boot_pml4 ?b"
    using init_modules_booted [OF s1(1) assms(4)] \<open>cold_boot ?b\<close> by (simp add: cold_boot_def)
  let ?s2 = "console_puts ''       No partitions found\<newline>'' (console_puts report_rule
    (console_puts ''\<newline>[PART] Partition Space Report:\<newline>'' s1))"
  let ?s3 = "console_puts ''[BOOT] No MesaFS partition found\<newline>'' ?s2"
  let ?s = "console_puts ''\<newline>[BOOT] Creating processes...\<newline>\<newline>'' ?s3"
  have s2: "partition_print_info s1 = Some ?s2" using s1(2) by (simp add: partition_print_info_def Let_def)
  have s3: "mount_root ?s2 = Some ?s3"
    using s1(2) by (simp add: mount_root_def partition_get_def partition_find.simps)
  have p: "procs_of ?s = procs_of s1" by simp
  then have "booted [] (next_pid ?b) ?s" "boot_pml4 ?s \<noteq> 0"
    using m \<open>cold_boot ?b\<close> booted_procs_of [OF p] by (auto simp: cold_boot_def)
  from boot_processes_booted [OF this(1) _ this(2), of boot_entries] obtain s4 where
    s4: "boot_processes boot_entries ?s = Some s4" by (auto simp: boot_entries_def)
  let ?t = "console_puts ''=== Kernel idle loop (scheduler active) ===\<newline>'' (sti (pic_unmask_irq 1 (pic_unmask_irq 0
    (console_puts ''\<newline>[BOOT] Starting scheduler via IRQ0...\<newline>\<newline>'' s4))))"
  have t: "kernel_boot api s = Some ?t" using s1(1) s2 s3 s4 by (simp add: kernel_boot_def)
  have u: "mounted_fs (pic_unmask_irq i v) = mounted_fs v" for i and v :: "'a syscalls_scheme"
    by (simp add: pic_unmask_irq_def split_def Let_def)
  have "mounted_fs ?t = mounted_fs s4" by (simp add: u)
  then have "mounted_fs ?t = 0" using boot_processes_mounted [OF s4] s1(3) by simp
  moreover have "iflag ?t" by (simp add: sti_def emit_def)
  moreover have "booted boot_entries (next_pid s) ?t"
    using kernel_boot_booted [OF t assms(4)] assms(1) by (simp add: cold_boot_def)
  ultimately show ?thesis using t by blast
qed

section \<open>Properties\<close>

text \<open>
  C36: on a machine without a drive, whose keyboard controller holds finitely many stale bytes, booting
  returns: the five processes are ready in the ring in the order in which \<^verbatim>\<open>kernel_main\<close> creates them,
  interrupts are on, and no file system is mounted.
\<close>

theorem boot_without_drive:
  assumes "cold_boot s" "no_drive s" "holds_bytes n (dev s)" "ipc_init_local api"
  shows "\<exists>t. kernel_boot api s = Some t \<and> booted boot_entries (next_pid s) t \<and> mounted_fs t = 0 \<and> iflag t"
  by (rule kernel_boot_without_drive [OF assms])

lemma powered_on_cold:
  "cold_boot powered_on" "no_drive powered_on" "holds_bytes 0 (dev powered_on)" "ipc_init_local silent_queues" "next_pid powered_on = 1"
proof -
  have "boot_pml4 powered_on = 0x101000"
    by (simp add: powered_on_def)
  then show "cold_boot powered_on" by (simp add: cold_boot_def powered_on_def sane_layout_def)
  show "no_drive powered_on" "holds_bytes 0 (dev powered_on)" "ipc_init_local silent_queues" "next_pid powered_on = 1"
    by (simp_all add: no_drive_def holds_bytes_def powered_on_def ipc_init_local_def silent_queues_def Let_def)
qed

theorem boot_without_drive_witness: "\<exists>t. kernel_boot silent_queues powered_on = Some t \<and> booted boot_entries 1 t \<and> mounted_fs t = 0"
  using boot_without_drive [OF powered_on_cold(1-4)] powered_on_cold(5) by auto

text \<open>
  C37: booting creates five processes and runs none of them.  Whatever devices there are, when the boot
  sequence comes to its end there is no current process, and the idle loop then goes on forever: after
  any sequence of interrupts it has made one turn for each, and the five processes are still ready
  and none is current.
\<close>

theorem boot_never_runs_a_process:
  assumes "kernel_boot api s = Some t" "ipc_init_local api" "current_process s = None" "process_list_head s = None" "boot_pml4 s \<noteq> 0"
  shows "booted boot_entries (next_pid s) t \<and>
    (\<exists>u. idle_loop rsps 0 (idle_label t) = Some (of_nat (length rsps), u) \<and> booted boot_entries (next_pid s) u)"
proof -
  have b: "booted boot_entries (next_pid s) t" by (rule kernel_boot_booted [OF assms])
  have l: "booted boot_entries (next_pid s) (idle_label t)" by (rule booted_procs_of [OF _ b]) simp
  then have "current_process (idle_label t) = None" by (simp add: booted_def)
  from idle_loop_runs [OF this, of rsps 0] obtain u where
    u: "idle_loop rsps 0 (idle_label t) = Some (0 + of_nat (length rsps), u)" "keyboard.more u = keyboard.more (idle_label t)" by blast
  have "process_table u = process_table (idle_label t)" "current_process u = current_process (idle_label t)"
    "process_list_head u = process_list_head (idle_label t)" "next_pid u = next_pid (idle_label t)" "sym u = sym (idle_label t)"
    using u(2) by (cases u; cases "idle_label t"; simp)+
  then have "booted boot_entries (next_pid s) u = booted boot_entries (next_pid s) (idle_label t)" by (simp add: booted_def sched_ok_def split: option.split)
  with l b u(1) show ?thesis by auto
qed

theorem boot_never_runs_a_process_witness:
  "\<exists>t u. kernel_boot silent_queues powered_on = Some t \<and> idle_loop (replicate 1000 0x5000) 0 (idle_label t) = Some (1000, u) \<and>
    current_process u = None"
proof -
  from kernel_boot_without_drive [OF powered_on_cold(1-4)] obtain t where t: "kernel_boot silent_queues powered_on = Some t" by blast
  have "current_process powered_on = None" "process_list_head powered_on = None" "boot_pml4 powered_on \<noteq> 0"
    using powered_on_cold(1) by (simp_all add: cold_boot_def)
  from boot_never_runs_a_process [OF t powered_on_cold(4) this, of "replicate 1000 0x5000"] t show ?thesis
    by (auto simp: booted_def)
qed

end
