(* ===== verification/Shell.thy ===== *)
theory Shell
  imports Syscall
begin

text \<open>
  The shell, \<^verbatim>\<open>user/shell.c\<close>, on top of the call stubs of \<^verbatim>\<open>include/usersyscall.h\<close>.  \<open>shell_at\<close> gives the addresses
  of its arrays, all in the memory \<open>mem\<close> that it shares with the kernel, and \<open>lit_at\<close> those of its string
  literals.  The \<^verbatim>\<open>syscall\<close> instruction is a call of \<^verbatim>\<open>syscall_handler\<close>; the stubs leave the registers of
  the fourth and fifth argument alone, and none of the calls made here reads them.
\<close>

datatype shell_array = Sh_buffer | Sh_dir_path | Sh_dir_buffer | Sh_filename | Sh_file_buffer

record shell = syscalls +
  shell_at :: "shell_array \<Rightarrow> u64"
  lit_at :: "string \<Rightarrow> u64"

text \<open>What follows a call, unless the call does not come back.\<close>

definition and_then ::
  "('r, 's) outcome option \<Rightarrow> ('r \<Rightarrow> 's \<Rightarrow> ('q, 's) outcome option) \<Rightarrow> ('q, 's) outcome option" where
  "and_then m f = (case m of None \<Rightarrow> None | Some (Halt s) \<Rightarrow> Some (Halt s) | Some (Return r s) \<Rightarrow> f r s)"

section \<open>System calls from user code\<close>

definition user_call ::
  "'a syscalls_scheme ipc_api \<Rightarrow> u64 \<Rightarrow> u64 \<Rightarrow> u64 \<Rightarrow> u64 \<Rightarrow> 'a syscalls_scheme \<Rightarrow> (u64, 'a syscalls_scheme) outcome option" where
  "user_call api num arg1 arg2 arg3 s = syscall_handler api num arg1 arg2 arg3 0 0 s"

definition user_write ::
  "'a syscalls_scheme ipc_api \<Rightarrow> i32 \<Rightarrow> u64 \<Rightarrow> u64 \<Rightarrow> 'a syscalls_scheme \<Rightarrow> (u64, 'a syscalls_scheme) outcome option" where
  "user_write api fd buf cnt s = user_call api 1 (scast fd) buf cnt s"

definition user_read ::
  "'a syscalls_scheme ipc_api \<Rightarrow> i32 \<Rightarrow> u64 \<Rightarrow> u64 \<Rightarrow> 'a syscalls_scheme \<Rightarrow> (u64, 'a syscalls_scheme) outcome option" where
  "user_read api fd buf cnt s = user_call api 0 (scast fd) buf cnt s"

definition user_exit :: "'a syscalls_scheme ipc_api \<Rightarrow> i32 \<Rightarrow> 'a syscalls_scheme \<Rightarrow> (u64, 'a syscalls_scheme) outcome option" where
  "user_exit api status s = user_call api 60 (scast status) 0 0 s"

definition user_open ::
  "'a syscalls_scheme ipc_api \<Rightarrow> u64 \<Rightarrow> i32 \<Rightarrow> 'a syscalls_scheme \<Rightarrow> (i32, 'a syscalls_scheme) outcome option" where
  "user_open api path flags s = and_then (user_call api 2 path (scast flags) 0 s) (\<lambda>r s1. Some (Return (ucast r) s1))"

definition user_close :: "'a syscalls_scheme ipc_api \<Rightarrow> i32 \<Rightarrow> 'a syscalls_scheme \<Rightarrow> (i32, 'a syscalls_scheme) outcome option" where
  "user_close api fd s = and_then (user_call api 3 (scast fd) 0 0 s) (\<lambda>r s1. Some (Return (ucast r) s1))"

definition user_readdir ::
  "'a syscalls_scheme ipc_api \<Rightarrow> u64 \<Rightarrow> u64 \<Rightarrow> u64 \<Rightarrow> 'a syscalls_scheme \<Rightarrow> (i32, 'a syscalls_scheme) outcome option" where
  "user_readdir api path buf sz s = and_then (user_call api 78 path buf sz s) (\<lambda>r s1. Some (Return (ucast r) s1))"

section \<open>Printing\<close>

partial_function (option) strlen_loop :: "(u64 \<Rightarrow> u8) \<Rightarrow> u64 \<Rightarrow> u64 \<Rightarrow> u64 option" where
  "strlen_loop m p n = (if m (p + n) = 0 then Some n else strlen_loop m p (n + 1))"

definition shell_puts :: "'a syscalls_scheme ipc_api \<Rightarrow> u64 \<Rightarrow> 'a syscalls_scheme \<Rightarrow> (u64, 'a syscalls_scheme) outcome option" where
  "shell_puts api p s = (case strlen_loop (mem s) p 0 of None \<Rightarrow> None | Some n \<Rightarrow> user_write api 1 p n s)"

text \<open>Literals one after the other.\<close>

fun shell_print ::
  "'a shell_scheme ipc_api \<Rightarrow> string list \<Rightarrow> 'a shell_scheme \<Rightarrow> (unit, 'a shell_scheme) outcome option" where
  "shell_print api [] s = Some (Return () s)"
| "shell_print api (l # ls) s = and_then (shell_puts api (lit_at s l) s) (\<lambda>_. shell_print api ls)"

section \<open>Commands\<close>

definition input_char :: "'a shell_scheme \<Rightarrow> nat \<Rightarrow> char" where
  "input_char s i = byte_char (mem s (shell_at s Sh_buffer + of_nat i))"

definition begins :: "string \<Rightarrow> 'a shell_scheme \<Rightarrow> bool" where
  "begins w s \<longleftrightarrow> list_all (\<lambda>i. input_char s i = w ! i) [0..<length w]"

definition ends_at :: "nat \<Rightarrow> 'a shell_scheme \<Rightarrow> bool" where
  "ends_at i s \<longleftrightarrow> input_char s i = CHR 0x0A \<or> input_char s i = CHR 0x00"

definition shell_exit :: "'a shell_scheme ipc_api \<Rightarrow> 'a shell_scheme \<Rightarrow> (unit, 'a shell_scheme) outcome option" where
  "shell_exit api s =
     and_then (shell_print api [''Goodbye!\<newline>''] s) (\<lambda>_ s1. and_then (user_exit api 0 s1) (\<lambda>_ s2. Some (Return () s2)))"

definition shell_help :: "'a shell_scheme ipc_api \<Rightarrow> 'a shell_scheme \<Rightarrow> (unit, 'a shell_scheme) outcome option" where
  "shell_help api s = shell_print api
     [''Available commands:\<newline>'', ''  help  - Show this help\<newline>'', ''  exit  - Exit shell\<newline>'',
      ''  ls    - List files in current directory\<newline>'', ''  cat   - Show file contents\<newline>'', ''  echo  - Print text\<newline>'',
      ''  clear - Clear screen\<newline>''] s"

definition shell_ls :: "'a shell_scheme ipc_api \<Rightarrow> 'a shell_scheme \<Rightarrow> (unit, 'a shell_scheme) outcome option" where
  "shell_ls api s =
     (let s1 = s\<lparr>mem := store_bytes (shell_at s Sh_dir_path) (0x2F # replicate 255 0) (mem s)\<rparr>;
          dir_buffer = shell_at s1 Sh_dir_buffer
      in and_then (user_readdir api (shell_at s1 Sh_dir_path) dir_buffer 1023 s1) (\<lambda>result s2.
           if 0 < sint result
           then and_then (shell_puts api dir_buffer (s2\<lparr>mem := (mem s2)(dir_buffer + scast result := 0)\<rparr>)) (\<lambda>_ s3. Some (Return () s3))
           else shell_print api [''Directory is empty or error occurred.\<newline>''] s2))"

text \<open>The loop that copies the file name: \<open>k\<close> more characters at most, \<open>fn_len\<close> copied so far.\<close>

primrec copy_filename :: "nat \<Rightarrow> u64 \<Rightarrow> 'a shell_scheme \<Rightarrow> u64 \<times> 'a shell_scheme" where
  "copy_filename 0 fn_len s = (fn_len, s)"
| "copy_filename (Suc k) fn_len s =
     (let c = mem s (shell_at s Sh_buffer + 4 + fn_len)
      in if c = 0x0A \<or> c = 0 then (fn_len, s)
         else copy_filename k (fn_len + 1) (s\<lparr>mem := (mem s)(shell_at s Sh_filename + fn_len := c)\<rparr>))"

definition shell_show :: "'a shell_scheme ipc_api \<Rightarrow> i32 \<Rightarrow> 'a shell_scheme \<Rightarrow> (unit, 'a shell_scheme) outcome option" where
  "shell_show api fd s =
     (let file_buffer = shell_at s Sh_file_buffer
      in and_then (user_read api fd file_buffer 511 s) (\<lambda>bytes_read s1.
           and_then
             (if 0 < sint bytes_read
              then and_then (shell_puts api file_buffer (s1\<lparr>mem := (mem s1)(file_buffer + bytes_read := 0)\<rparr>)) (\<lambda>_ s2.
                     if bytes_read = 511 then shell_print api [''...\<newline>''] s2 else Some (Return () s2))
              else Some (Return () s1))
             (\<lambda>_ s2. and_then (user_close api fd s2) (\<lambda>_ s3. Some (Return () s3)))))"

definition shell_cat :: "'a shell_scheme ipc_api \<Rightarrow> 'a shell_scheme \<Rightarrow> (unit, 'a shell_scheme) outcome option" where
  "shell_cat api s =
     (case copy_filename 255 0 s of (fn_len, s1) \<Rightarrow>
        let filename = shell_at s1 Sh_filename; s2 = s1\<lparr>mem := (mem s1)(filename + fn_len := 0)\<rparr>
        in if 0 < fn_len
           then and_then (user_open api filename 0 s2) (\<lambda>fd s3.
                  if sint fd < 0 then shell_print api [''Error: File not found or cannot open.\<newline>''] s3
                  else shell_show api fd s3)
           else shell_print api [''Usage: cat <filename>\<newline>''] s2)"

text \<open>The end of the text after \<^verbatim>\<open>echo\<close>: the first newline or NUL from \<open>i\<close> on, at most \<open>k\<close> characters away.\<close>

primrec echo_end :: "nat \<Rightarrow> nat \<Rightarrow> 'a shell_scheme \<Rightarrow> nat" where
  "echo_end 0 i s = i"
| "echo_end (Suc k) i s = (if ends_at i s then i else echo_end k (Suc i) s)"

definition shell_echo :: "'a shell_scheme ipc_api \<Rightarrow> 'a shell_scheme \<Rightarrow> (unit, 'a shell_scheme) outcome option" where
  "shell_echo api s =
     (let i = echo_end 250 5 s
      in if 5 < i
         then and_then (user_write api 1 (shell_at s Sh_buffer + 5) (of_nat (i - 5)) s) (\<lambda>_. shell_print api [''\<newline>''])
         else shell_print api [''\<newline>''] s)"

definition shell_clear :: "'a console_scheme \<Rightarrow> 'a console_scheme" where
  "shell_clear s = s\<lparr>vga_buffer := fold (\<lambda>i v. v(of_nat i := 0x0720)) [0..<2000] (vga_buffer s)\<rparr>"

text \<open>What the loop does with the \<open>n\<close> bytes of a line.\<close>

definition shell_command :: "'a shell_scheme ipc_api \<Rightarrow> u64 \<Rightarrow> 'a shell_scheme \<Rightarrow> (unit, 'a shell_scheme) outcome option" where
  "shell_command api n s =
     (if ends_at 0 s then Some (Return () s)
      else if begins ''exit'' s \<and> ends_at 4 s then shell_exit api s
      else if begins ''help'' s \<and> ends_at 4 s then shell_help api s
      else if begins ''ls'' s \<and> (ends_at 2 s \<or> input_char s 2 = CHR '' '') then shell_ls api s
      else if begins ''cat '' s then shell_cat api s
      else if begins ''echo '' s then shell_echo api s
      else if begins ''clear'' s \<and> ends_at 5 s then Some (Return () (shell_clear s))
      else and_then (shell_print api [''Unknown command: ''] s) (\<lambda>_ s1.
             and_then (user_write api 1 (shell_at s1 Sh_buffer) n s1) (\<lambda>_.
               shell_print api [''\<newline>Type 'help' for available commands.\<newline>''])))"

text \<open>One turn of the loop, and the first \<open>k\<close> turns of the shell, which has no way out but \<^verbatim>\<open>exit\<close>.\<close>

definition shell_turn :: "'a shell_scheme ipc_api \<Rightarrow> 'a shell_scheme \<Rightarrow> (unit, 'a shell_scheme) outcome option" where
  "shell_turn api s =
     and_then (shell_print api [''mesaos> ''] s) (\<lambda>_ s1.
       and_then (user_read api 0 (shell_at s1 Sh_buffer) 255 s1) (\<lambda>n s2.
         if sint n \<le> 0 then Some (Return () s2)
         else shell_command api n (s2\<lparr>mem := (mem s2)(shell_at s2 Sh_buffer + n := 0)\<rparr>)))"

primrec shell_turns :: "nat \<Rightarrow> 'a shell_scheme ipc_api \<Rightarrow> 'a shell_scheme \<Rightarrow> (unit, 'a shell_scheme) outcome option" where
  "shell_turns 0 api s = Some (Return () s)"
| "shell_turns (Suc k) api s = and_then (shell_turn api s) (\<lambda>_. shell_turns k api)"

definition shell_main :: "nat \<Rightarrow> 'a shell_scheme ipc_api \<Rightarrow> 'a shell_scheme \<Rightarrow> (unit, 'a shell_scheme) outcome option" where
  "shell_main k api s = and_then (shell_print api [''\<newline>=== MesaOS-Lite Shell ===\<newline>''] s) (\<lambda>_. shell_turns k api)"

end
