(* ===== verification/Shell_Props.thy ===== *)
theory Shell_Props
  imports Shell Kernel_Props
begin

text \<open>
The shell: printing through \<^verbatim>\<open>sys_write\<close>, its commands on a line in memory, and whole turns from the keys that are
  typed to the characters that appear on the console.
\<close>

section \<open>Specification\<close>

definition str_at :: "(u64 \<Rightarrow> u8) \<Rightarrow> u64 \<Rightarrow> string \<Rightarrow> bool" where
  "str_at m p cs \<longleftrightarrow> (\<forall>i < length cs. m (p + of_nat i) = char_byte (cs ! i) \<and> cs ! i \<noteq> CHR 0x00) \<and> m (p + of_nat (length cs)) = 0"

text \<open>\<open>n\<close> bytes at \<open>p\<close> that the kernel accepts and that lie outside the buffer into which it copies them.\<close>

definition outside_kbuf :: "'a syscalls_scheme \<Rightarrow> u64 \<Rightarrow> nat \<Rightarrow> bool" where
  "outside_kbuf s p n \<longleftrightarrow> p \<noteq> 0 \<and> unat p + n \<le> 0xFFFF800000000000 \<and> unat (local_at s L_write_kbuf) + 256 \<le> 2 ^ 64 \<and>
     (unat p + n \<le> unat (local_at s L_write_kbuf) \<or> unat (local_at s L_write_kbuf) + 256 \<le> unat p)"

text \<open>The console shows \<open>out\<close> more, and of the memory only the kernel's buffer has changed.\<close>

definition prints :: "string \<Rightarrow> 'a syscalls_scheme \<Rightarrow> 'a syscalls_scheme \<Rightarrow> bool" where
  "prints out s t \<longleftrightarrow> (\<exists>m. t = (fold console_putchar out s)\<lparr>mem := m\<rparr> \<and>
     (\<forall>x. \<not> in_range (local_at s L_write_kbuf) 256 x \<longrightarrow> m x = mem s x))"

definition lit_ok :: "'a shell_scheme \<Rightarrow> string \<Rightarrow> bool" where
  "lit_ok s l \<longleftrightarrow> length l \<le> 256 \<and> str_at (mem s) (lit_at s l) l \<and> outside_kbuf s (lit_at s l) (length l + 1)"

definition line_at :: "'a shell_scheme \<Rightarrow> string \<Rightarrow> bool" where
  "line_at s cs \<longleftrightarrow> (\<forall>i < length cs. input_char s i = cs ! i)"

definition plain :: "char \<Rightarrow> bool" where
  "plain c \<longleftrightarrow> c \<noteq> CHR 0x0A \<and> c \<noteq> CHR 0x00"

text \<open>The shell's input buffer, and the literals that a command prints.\<close>

definition shell_ready :: "'a shell_scheme \<Rightarrow> string list \<Rightarrow> bool" where
  "shell_ready s ls \<longleftrightarrow> outside_kbuf s (shell_at s Sh_buffer) 256 \<and> (\<forall>l \<in> set ls. lit_ok s l)"

text \<open>The \<open>n\<close> bytes at \<open>p\<close> lie outside the kernel's buffer for reading.\<close>

definition outside_rbuf :: "'a syscalls_scheme \<Rightarrow> u64 \<Rightarrow> nat \<Rightarrow> bool" where
  "outside_rbuf s p n \<longleftrightarrow> unat (local_at s L_read_kbuf) + 256 \<le> 2 ^ 64 \<and> unat p + n \<le> 2 ^ 64 \<and>
     (unat p + n \<le> unat (local_at s L_read_kbuf) \<or> unat (local_at s L_read_kbuf) + 256 \<le> unat p)"

text \<open>Strings at intervals of 256 bytes; the last one lies in the input buffer.\<close>

definition sample_strings :: "string \<Rightarrow> string list" where
  "sample_strings line = [''mesaos> '', ''\<newline>'', ''Goodbye!\<newline>'', ''Unknown command: '',
     ''\<newline>Type 'help' for available commands.\<newline>'', line]"

definition strings_mem :: "string list \<Rightarrow> u64 \<Rightarrow> u8" where
  "strings_mem ls a = (let k = unat (a - 0x500000) div 256; j = unat (a - 0x500000) mod 256
     in if k < length ls \<and> j < length (ls ! k) then char_byte (ls ! k ! j) else 0)"

definition sample_shell :: "string \<Rightarrow> u8 list \<Rightarrow> shell" where
  "sample_shell line ks = syscalls.extend ((user_calls ks)\<lparr>mem := strings_mem (sample_strings line)\<rparr>)
     \<lparr>shell_at = (\<lambda>a. case a of Sh_buffer \<Rightarrow> 0x500500 | Sh_dir_path \<Rightarrow> 0x500600 | Sh_dir_buffer \<Rightarrow> 0x500700
        | Sh_filename \<Rightarrow> 0x500B00 | Sh_file_buffer \<Rightarrow> 0x500C00),
      lit_at = (\<lambda>l. if l = ''mesaos> '' then 0x500000 else if l = ''\<newline>'' then 0x500100 else if l = ''Goodbye!\<newline>'' then 0x500200
        else if l = ''Unknown command: '' then 0x500300 else 0x500400)\<rparr>"

section \<open>The console and the memory\<close>

lemma console_steps_mem:
  fixes s :: "'a memory_scheme"
  shows "update_cursor (s\<lparr>mem := m\<rparr>) = (update_cursor s)\<lparr>mem := m\<rparr>"
    "redraw_row i (s\<lparr>mem := m\<rparr>) = (redraw_row i s)\<lparr>mem := m\<rparr>"
    "console_scroll (s\<lparr>mem := m\<rparr>) = (console_scroll s)\<lparr>mem := m\<rparr>"
  by (simp_all add: update_cursor_def redraw_row_def console_scroll_def instruction_defs)

lemma redraw_mem:
  fixes s :: "'a memory_scheme"
  shows "console_redraw_from_history (s\<lparr>mem := m\<rparr>) = (console_redraw_from_history s)\<lparr>mem := m\<rparr>"
proof -
  have "fold (\<lambda>i. redraw_row (f i)) xs (u\<lparr>mem := m\<rparr>) = (fold (\<lambda>i. redraw_row (f i)) xs u)\<lparr>mem := m\<rparr>"
    for f and xs :: "nat list" and u :: "'a memory_scheme"
    by (induction xs arbitrary: u) (simp_all add: console_steps_mem)
  then show ?thesis by (simp add: console_redraw_from_history_def Let_def console_steps_mem)
qed

lemma putchar_mem:
  fixes s :: "'a memory_scheme"
  shows "console_putchar c (s\<lparr>mem := m\<rparr>) = (console_putchar c s)\<lparr>mem := m\<rparr>"
proof -
  define wrap where "wrap u = (if VGA_WIDTH \<le> cursor_col u then u\<lparr>cursor_col := 0, cursor_row := cursor_row u + 1\<rparr> else u)"
    for u :: "'a memory_scheme"
  have sw: "putchar_switch c (s\<lparr>mem := m\<rparr>) = (putchar_switch c s)\<lparr>mem := m\<rparr>"
    by (simp add: putchar_switch_def Let_def console_steps_mem redraw_mem)
  have sc: "scroll_loop (u\<lparr>mem := m\<rparr>) = (scroll_loop u)\<lparr>mem := m\<rparr>" for u :: "'a memory_scheme"
    by (simp add: scroll_loop_step console_steps_mem)
  have wr: "wrap (u\<lparr>mem := m\<rparr>) = (wrap u)\<lparr>mem := m\<rparr>" for u by (simp add: wrap_def)
  have "console_putchar c u = update_cursor (scroll_loop (wrap (putchar_switch c u)))" for u
    by (simp add: console_putchar_def Let_def wrap_def)
  then show ?thesis by (simp only: console_steps_mem sw sc wr)
qed

lemma print_mem:
  fixes s :: "'a memory_scheme"
  shows "fold console_putchar cs (s\<lparr>mem := m\<rparr>) = (fold console_putchar cs s)\<lparr>mem := m\<rparr>"
  by (induction cs arbitrary: s) (simp_all add: putchar_mem)

section \<open>Strings in memory\<close>

lemma char_byte_0: "char_byte c = 0 \<longleftrightarrow> c = CHR 0x00"
proof -
  have "char_byte (CHR 0x00) = 0" by (simp add: char_byte_def)
  then show ?thesis by (metis byte_char_byte)
qed

lemma strlen_loop_str:
  assumes "str_at m p cs" "k \<le> length cs" "length cs < 2 ^ 64"
  shows "strlen_loop m p (of_nat k) = Some (of_nat (length cs))"
  using assms(2)
proof (induction "length cs - k" arbitrary: k)
  case 0
  then have "k = length cs" by simp
  then show ?case using assms(1) by (subst strlen_loop.simps) (simp add: str_at_def)
next
  case (Suc n)
  then have k: "k < length cs" by simp
  then have "m (p + of_nat k) \<noteq> 0" using assms(1) by (simp add: str_at_def char_byte_0)
  moreover have "strlen_loop m p (of_nat (Suc k)) = Some (of_nat (length cs))" using Suc k by (intro Suc.hyps(1)) simp_all
  ultimately show ?case by (subst strlen_loop.simps) (simp add: add.commute)
qed

section \<open>Printing by the system call\<close>

lemma print_frame [simp]: "console.more (fold console_putchar cs s) = console.more s"
  by (induction cs arbitrary: s) simp_all

lemma print_fields [simp]:
  fixes s :: "'a syscalls_scheme"
  shows "local_at (fold console_putchar cs s) = local_at s" "mem (fold console_putchar cs s) = mem s"
    "syscalls.more (fold console_putchar cs s) = syscalls.more s"
  by (induction cs arbitrary: s) simp_all

lemma prints_fields:
  assumes "prints out s t"
  shows "local_at t = local_at s" "\<not> in_range (local_at s L_write_kbuf) 256 x \<Longrightarrow> mem t x = mem s x"
  using assms by (auto simp: prints_def)

lemma prints_trans:
  assumes "prints a s t" "prints b t u"
  shows "prints (a @ b) s u"
proof -
  from assms(1) obtain m where t: "t = (fold console_putchar a s)\<lparr>mem := m\<rparr>"
    "\<forall>x. \<not> in_range (local_at s L_write_kbuf) 256 x \<longrightarrow> m x = mem s x" by (auto simp: prints_def)
  from assms(2) obtain m' where u: "u = (fold console_putchar b t)\<lparr>mem := m'\<rparr>"
    "\<forall>x. \<not> in_range (local_at t L_write_kbuf) 256 x \<longrightarrow> m' x = mem t x" by (auto simp: prints_def)
  have "u = (fold console_putchar (a @ b) s)\<lparr>mem := m'\<rparr>" using u(1) t(1) by (simp add: print_mem)
  moreover have "\<forall>x. \<not> in_range (local_at s L_write_kbuf) 256 x \<longrightarrow> m' x = mem s x"
    using u(2) t prints_fields [OF assms(1)] by simp
  ultimately show ?thesis unfolding prints_def by blast
qed

lemma prints_Nil [simp]: "prints [] s s"
  unfolding prints_def by (intro exI [of _ "mem s"]) simp

lemma sys_write_run:
  assumes "fd = 1 \<or> fd = 2" "unat cnt \<le> 256" "outside_kbuf s buf (unat cnt)"
  shows "\<exists>t. sys_write fd buf cnt s = (cnt, t) \<and> prints (map (\<lambda>i. byte_char (mem s (buf + of_nat i))) [0..<unat cnt]) s t"
proof -
  let ?q = "local_at s L_write_kbuf" and ?out = "map (\<lambda>i. byte_char (mem s (buf + of_nat i))) [0..<unat cnt]"
  let ?s = "s\<lparr>mem := copy_bytes ?q buf (unat cnt) (mem s)\<rparr>"
  have w: "sys_write fd buf cnt s = (cnt, fold console_putchar ?out ?s)"
    using assms by (intro sys_write_copies) (auto simp: outside_kbuf_def user_range_def)
  have "copy_bytes ?q buf (unat cnt) (mem s) x = mem s x" if "\<not> in_range ?q 256 x" for x
  proof (rule copy_bytes_outside)
    fix i assume "i < unat cnt"
    then have "in_range ?q 256 (?q + of_nat i)"
      using assms(2,3) by (subst in_range_def) (simp add: outside_kbuf_def unat_offset)
    then show "x \<noteq> ?q + of_nat i" using that by blast
  qed
  then have "prints ?out s (fold console_putchar ?out ?s)" by (auto simp: prints_def print_mem)
  then show ?thesis using w by blast
qed

section \<open>Printing from the shell\<close>

lemma user_write_call: "user_write api 1 buf cnt s = Some (case sys_write 1 buf cnt s of (n, t) \<Rightarrow> Return n t)"
  by (simp add: user_write_def user_call_def syscall_handler_def syscall_table_def syscall_call_def returns_def word_le_nat_alt)

lemma user_write_run:
  assumes "outside_kbuf s buf (min 256 (unat cnt))"
  shows "\<exists>t. user_write api 1 buf cnt s = Some (Return (if 256 < cnt then 256 else cnt) t) \<and>
    prints (map (\<lambda>i. byte_char (mem s (buf + of_nat i))) [0..<min 256 (unat cnt)]) s t"
proof -
  let ?n = "if 256 < cnt then 256 else cnt"
  have n: "unat ?n = min 256 (unat cnt)" by (auto simp: word_less_nat_alt)
  have "sys_write 1 buf cnt s = sys_write 1 buf ?n s" by (simp add: sys_write_cap)
  moreover obtain t where "sys_write 1 buf ?n s = (?n, t)"
    "prints (map (\<lambda>i. byte_char (mem s (buf + of_nat i))) [0..<min 256 (unat cnt)]) s t"
    using sys_write_run [of 1 ?n s buf] assms unfolding n by auto
  ultimately show ?thesis unfolding user_write_call by (intro exI [of _ t]) simp
qed

lemma shell_puts_str:
  assumes "str_at (mem s) p cs" "length cs < 2 ^ 64" "outside_kbuf s p (min 256 (length cs))"
  shows "\<exists>t. shell_puts api p s = Some (Return (of_nat (min 256 (length cs))) t) \<and> prints (take 256 cs) s t"
proof -
  have n: "unat (of_nat (length cs) :: u64) = length cs" using assms(2) by (simp add: unat_of_nat_small)
  have "map (\<lambda>i. byte_char (mem s (p + of_nat i))) [0..<min 256 (length cs)] = take 256 cs"
    using assms(1) by (auto intro!: nth_equalityI simp: str_at_def simp del: upt_rec_numeral)
  with user_write_run [of s p "of_nat (length cs)" api] assms(3) obtain t where
    t: "user_write api 1 p (of_nat (length cs)) s = Some (Return (if 256 < (of_nat (length cs) :: u64) then 256 else of_nat (length cs)) t)"
      "prints (take 256 cs) s t" unfolding n by auto
  moreover have "(if 256 < (of_nat (length cs) :: u64) then 256 else of_nat (length cs)) = (of_nat (min 256 (length cs)) :: u64)"
    using n by (auto simp: word_less_nat_alt min_def)
  moreover have "strlen_loop (mem s) p 0 = Some (of_nat (length cs))" using strlen_loop_str [OF assms(1) _ assms(2), of 0] by simp
  ultimately show ?thesis by (simp add: shell_puts_def)
qed

lemma shell_field_cong:
  fixes s t :: "'a shell_scheme"
  assumes "syscalls.more t = syscalls.more s"
  shows "shell_at t = shell_at s" "lit_at t = lit_at s"
  using assms by (cases s; cases t; simp)+

lemma prints_shell:
  fixes s t :: "'a shell_scheme"
  assumes "prints out s t"
  shows "shell_at t = shell_at s" "lit_at t = lit_at s"
proof -
  have "syscalls.more t = syscalls.more s" using assms by (auto simp: prints_def)
  then show "shell_at t = shell_at s" "lit_at t = lit_at s" by (rule shell_field_cong)+
qed

lemma outside_not_in:
  assumes "outside_kbuf s p n" "i < n"
  shows "\<not> in_range (local_at s L_write_kbuf) 256 (p + of_nat i)"
proof -
  have "unat (p + of_nat i) = unat p + i" using assms by (intro unat_offset) (simp add: outside_kbuf_def)
  then show ?thesis using assms by (auto simp: outside_kbuf_def in_range_def)
qed

lemma prints_mem:
  assumes "prints out s t" "outside_kbuf s p n" "i < n"
  shows "mem t (p + of_nat i) = mem s (p + of_nat i)"
  using prints_fields(2) [OF assms(1) outside_not_in [OF assms(2,3)]] .

lemma prints_outside: "prints out s t \<Longrightarrow> outside_kbuf t p n = outside_kbuf s p n"
  by (simp add: outside_kbuf_def prints_fields(1))

lemma prints_lit:
  assumes "prints out s t" "lit_ok s l"
  shows "lit_ok t l"
proof -
  have o: "outside_kbuf s (lit_at s l) (Suc (length l))" using assms(2) by (simp add: lit_ok_def)
  have "mem t (lit_at s l + of_nat i) = mem s (lit_at s l + of_nat i)" if "i \<le> length l" for i
    using prints_mem [OF assms(1) o, of i] that by simp
  then show ?thesis using assms(2) by (simp add: lit_ok_def str_at_def prints_shell [OF assms(1)] prints_outside [OF assms(1)])
qed

lemma outside_mono: "outside_kbuf s p n \<Longrightarrow> m \<le> n \<Longrightarrow> outside_kbuf s p m"
  by (auto simp: outside_kbuf_def)

lemma shell_print_run:
  assumes "\<forall>l \<in> set ls. lit_ok s l"
  shows "\<exists>t. shell_print api ls s = Some (Return () t) \<and> prints (concat ls) s t"
  using assms
proof (induction ls arbitrary: s)
  case (Cons l ls)
  have l: "lit_ok s l" using Cons.prems by simp
  then have "str_at (mem s) (lit_at s l) l" "length l \<le> 256" "outside_kbuf s (lit_at s l) (min 256 (length l))"
    by (auto simp: lit_ok_def intro: outside_mono)
  with shell_puts_str [of s "lit_at s l" l api] obtain u where
    u: "shell_puts api (lit_at s l) s = Some (Return (of_nat (length l)) u)" "prints l s u" by auto
  have "\<forall>l \<in> set ls. lit_ok u l" using Cons.prems prints_lit [OF u(2)] by simp
  from Cons.IH [OF this] obtain t where t: "shell_print api ls u = Some (Return () t)" "prints (concat ls) u t" by blast
  show ?case using u(1) t(1) prints_trans [OF u(2) t(2)] by (simp add: and_then_def)
qed simp

section \<open>Commands\<close>

lemma echo_end_at:
  assumes "\<forall>j < m. \<not> ends_at (i + j) s" "ends_at (i + m) s" "m < k"
  shows "echo_end k i s = i + m"
  using assms
proof (induction k arbitrary: i m)
  case (Suc k)
  show ?case
  proof (cases m)
    case 0
    then show ?thesis using Suc.prems by simp
  next
    case (Suc j)
    have "\<not> ends_at i s" using Suc.prems(1) Suc by force
    moreover have "echo_end k (Suc i) s = Suc i + j"
      using Suc.prems Suc by (intro Suc.IH) force+
    ultimately show ?thesis using Suc by simp
  qed
qed simp

lemma line_echo:
  assumes "line_at s (''echo '' @ msg @ [CHR 0x0A])" "list_all plain msg" "length msg < 250"
  shows "shell_command api n s = shell_echo api s" "echo_end 250 5 s = 5 + length msg"
proof -
  have c: "input_char s 0 = CHR ''e''" "input_char s 1 = CHR ''c''" "input_char s 2 = CHR ''h''" "input_char s 3 = CHR ''o''"
    "input_char s 4 = CHR '' ''"
    using assms(1)[unfolded line_at_def, rule_format, of 0] assms(1)[unfolded line_at_def, rule_format, of 1]
      assms(1)[unfolded line_at_def, rule_format, of 2] assms(1)[unfolded line_at_def, rule_format, of 3]
      assms(1)[unfolded line_at_def, rule_format, of 4] by simp_all
  then show "shell_command api n s = shell_echo api s" by (simp add: shell_command_def begins_def ends_at_def numeral_eq_Suc)
  have t: "input_char s (5 + j) = (msg @ [CHR 0x0A]) ! j" if "j \<le> length msg" for j
    using assms(1)[unfolded line_at_def, rule_format, of "5 + j"] that by simp
  have "\<forall>j < length msg. \<not> ends_at (5 + j) s"
    using t assms(2) by (auto simp: ends_at_def plain_def nth_append list_all_length)
  moreover have "ends_at (5 + length msg) s" using t by (simp add: ends_at_def)
  ultimately show "echo_end 250 5 s = 5 + length msg" using assms(3) by (rule echo_end_at)
qed

lemma outside_shift:
  assumes "outside_kbuf s p n" "i + m \<le> n" "i < n"
  shows "outside_kbuf s (p + of_nat i) m"
proof -
  have u: "unat (p + of_nat i) = unat p + i" using assms by (intro unat_offset) (simp add: outside_kbuf_def)
  moreover have "p + of_nat i \<noteq> 0" using u assms by (auto simp: outside_kbuf_def unat_eq_0 [symmetric])
  ultimately show ?thesis using assms by (auto simp: outside_kbuf_def)
qed

lemma shell_echo_run:
  assumes "line_at s (''echo '' @ msg @ [CHR 0x0A])" "list_all plain msg" "length msg < 250" "shell_ready s [''\<newline>'']"
  shows "\<exists>t. shell_command api n s = Some (Return () t) \<and> prints (msg @ ''\<newline>'') s t"
proof -
  let ?b = "shell_at s Sh_buffer"
  note e = line_echo [OF assms(1-3)]
  have nl: "lit_ok s ''\<newline>''" and b: "outside_kbuf s ?b 256" using assms(4) by (simp_all add: shell_ready_def)
  show ?thesis
  proof (cases msg)
    case Nil
    with e shell_print_run [of "[''\<newline>'']" s api] nl show ?thesis by (simp add: shell_echo_def)
  next
    case (Cons c cs)
    have n: "unat (of_nat (length msg) :: u64) = length msg" using assms(3) by (simp add: unat_of_nat_small)
    have o: "outside_kbuf s (?b + 5) (length msg)" using outside_shift [OF b, of 5 "length msg"] assms(3) by simp
    have "byte_char (mem s (?b + 5 + of_nat j)) = msg ! j" if "j < length msg" for j
      using assms(1)[unfolded line_at_def, rule_format, of "5 + j"] that by (simp add: input_char_def nth_append add.assoc)
    then have "map (\<lambda>j. byte_char (mem s (?b + 5 + of_nat j))) [0..<length msg] = msg" by (intro nth_equalityI) simp_all
    with user_write_run [of s "?b + 5" "of_nat (length msg)" api] o assms(3) obtain u where
      u: "\<exists>r. user_write api 1 (?b + 5) (of_nat (length msg)) s = Some (Return r u)" "prints msg s u" unfolding n by auto
    from shell_print_run [of "[''\<newline>'']" u api] prints_lit [OF u(2) nl] obtain t where
      t: "shell_print api [''\<newline>''] u = Some (Return () t)" "prints ''\<newline>'' u t" by auto
    have "shell_echo api s = Some (Return () t)" using e(2) u(1) t(1) Cons by (auto simp: shell_echo_def and_then_def)
    then show ?thesis using e(1) prints_trans [OF u(2) t(2)] by auto
  qed
qed

text \<open>
  The command \<^verbatim>\<open>echo\<close> prints the rest of its line, up to the newline, and a newline, whatever the text is;
  apart from the kernel's copy nothing in memory changes.
\<close>

theorem shell_echo_prints:
  assumes "line_at s (''echo '' @ msg @ [CHR 0x0A])" "list_all plain msg" "length msg < 250" "shell_ready s [''\<newline>'']"
  shows "\<exists>t. shell_command api n s = Some (Return () t) \<and> prints (msg @ ''\<newline>'') s t"
  by (rule shell_echo_run [OF assms])

text \<open>
  A line that begins with none of the letters of the commands is reported: the console shows it in full
  between the two parts of the message.
\<close>

theorem shell_reports_unknown:
  assumes "line_at s cs" "cs \<noteq> []" "hd cs \<notin> set ''ehlc''" "plain (hd cs)" "length cs \<le> 256"
    "shell_ready s [''Unknown command: '', ''\<newline>Type 'help' for available commands.\<newline>'']"
  shows "\<exists>t. shell_command api (of_nat (length cs)) s = Some (Return () t) \<and>
    prints (''Unknown command: '' @ cs @ ''\<newline>Type 'help' for available commands.\<newline>'') s t"
proof -
  let ?b = "shell_at s Sh_buffer" and ?u = "''Unknown command: ''" and ?h = "''\<newline>Type 'help' for available commands.\<newline>''"
  have lits: "lit_ok s ?u" "lit_ok s ?h" and b: "outside_kbuf s ?b 256" using assms(6) unfolding shell_ready_def by auto
  have n: "unat (of_nat (length cs) :: u64) = length cs" using assms(5) by (simp add: unat_of_nat_small)
  have "input_char s 0 = hd cs" using assms(1,2) by (simp add: line_at_def hd_conv_nth)
  then have cmd: "shell_command api (of_nat (length cs)) s = and_then (shell_print api [?u] s) (\<lambda>_ s1.
      and_then (user_write api 1 (shell_at s1 Sh_buffer) (of_nat (length cs)) s1) (\<lambda>_. shell_print api [?h]))"
    using assms(3,4) by (simp add: shell_command_def begins_def ends_at_def plain_def upt_rec)
  obtain s1 where s1: "shell_print api [?u] s = Some (Return () s1)" "prints ?u s s1"
    using shell_print_run [of "[?u]" s api] lits(1) by auto
  have c: "byte_char (mem s1 (?b + of_nat j)) = cs ! j" if "j < length cs" for j
    using prints_mem [OF s1(2) b, of j] assms(1)[unfolded line_at_def, rule_format, of j] assms(5) that by (simp add: input_char_def)
  have "map (\<lambda>j. byte_char (mem s1 (?b + of_nat j))) [0..<length cs] = cs" using c by (intro nth_equalityI) simp_all
  moreover have "min 256 (length cs) = length cs" "outside_kbuf s1 ?b (length cs)"
    using assms(5) prints_outside [OF s1(2)] outside_mono [OF b, of "length cs"] by simp_all
  ultimately obtain s2 where s2: "\<exists>r. user_write api 1 ?b (of_nat (length cs)) s1 = Some (Return r s2)" "prints cs s1 s2"
    using user_write_run [of s1 ?b "of_nat (length cs)" api] unfolding n by auto
  obtain t where t: "shell_print api [?h] s2 = Some (Return () t)" "prints ?h s2 t"
    using shell_print_run [of "[?h]" s2 api] prints_lit [OF s2(2) prints_lit [OF s1(2) lits(2)]] by auto
  have "shell_command api (of_nat (length cs)) s = Some (Return () t)"
    using cmd s1(1) s2(1) t(1) prints_shell(1) [OF s1(2)] by (auto simp: and_then_def simp del: shell_print.simps)
  then show ?thesis using prints_trans [OF s1(2) prints_trans [OF s2(2) t(2)]] by blast
qed

section \<open>Reading a line\<close>

lemma vfs_more_keyboard:
  fixes s t :: "'a vfs_scheme"
  assumes "keyboard.more t = keyboard.more s"
  shows "vfs.more t = vfs.more s"
  using assms by (cases s; cases t; simp)

lemma wait_key_frame:
  assumes "wait_key ks s = Some (c, t)"
  shows "vfs.more t = vfs.more s"
  using assms
proof (induction ks arbitrary: s)
  case Nil
  have pop: "vfs.more (snd (keyboard_buffer_pop s)) = vfs.more s" by (rule vfs_more_keyboard) simp
  obtain r u where "keyboard_buffer_pop s = (r, u)" by force
  with Nil pop show ?case by (auto split: option.splits)
next
  case (Cons k ks)
  have pop: "vfs.more (snd (keyboard_buffer_pop s)) = vfs.more s" by (rule vfs_more_keyboard) simp
  obtain r u where p: "keyboard_buffer_pop s = (r, u)" by force
  have "keyboard.more (key_interrupt k (emit Hlt u)) = keyboard.more u" by simp
  then have "vfs.more (key_interrupt k (emit Hlt u)) = vfs.more u" by (rule vfs_more_keyboard)
  with Cons p pop show ?case by (auto split: option.splits if_splits)
qed

lemma console_read_loop_frame:
  fixes s :: "'a vfs_scheme"
  assumes "console_read_loop dst cnt n s = Some r"
  shows "vfs.more (snd r) = vfs.more s"
proof (rule console_read_loop.raw_induct [where P = "\<lambda>dst cnt n s r. vfs.more (snd r) = vfs.more (s :: 'a vfs_scheme)", OF _ assms])
  fix loop dst cnt n r and s :: "'a vfs_scheme"
  assume IH: "\<And>dst cnt n s r. loop dst cnt n s = Some r \<Longrightarrow> vfs.more (snd r) = vfs.more s"
    and eq: "(if \<not> n < cnt then Some (n, s)
      else case wait_key (keys_ahead s) s of
             None \<Rightarrow> None
           | Some (c, s1) \<Rightarrow>
               if c = KEYCODE_UP then loop dst cnt n (console_scroll_up s1)
               else if c = KEYCODE_DOWN then loop dst cnt n (console_scroll_down s1)
               else if c = KEYCODE_LEFT \<or> c = KEYCODE_RIGHT then loop dst cnt n s1
               else (let s2 = s1\<lparr>mem := (mem s1)(dst + n := char_byte c)\<rparr>
                     in if c = CHR 0x0A then Some (n + 1, s2) else loop dst cnt (n + 1) s2)) = Some r"
  have sc: "vfs.more (console_scroll_up u) = vfs.more u" "vfs.more (console_scroll_down u) = vfs.more u" for u :: "'a vfs_scheme"
    by (rule vfs_more_keyboard, simp)+
  show "vfs.more (snd r) = vfs.more s"
    using eq by (auto simp: Let_def sc split: if_splits option.splits dest!: IH wait_key_frame)
qed

lemma read_line_length: "read_line n cs = Some l \<Longrightarrow> length l \<le> n"
  by (induction n cs arbitrary: l rule: read_line.induct) (auto split: if_splits)

lemma user_read_line:
  assumes "kb_ok (kb_buffer s)" "iflag s" "read_line 255 (filter (\<lambda>c. \<not> arrow_key c) (input_stream s)) = Some l" "l \<noteq> []"
    and "buf \<noteq> 0" "user_range buf 256" "outside_rbuf s buf 256"
  shows "\<exists>t. user_read api 0 buf 255 s = Some (Return (of_nat (length l)) t) \<and> length l \<le> 255 \<and>
    (\<forall>i < length l. mem t (buf + of_nat i) = char_byte (l ! i)) \<and>
    (\<forall>x. \<not> in_range (local_at s L_read_kbuf) 256 x \<longrightarrow> \<not> in_range buf 256 x \<longrightarrow> mem t x = mem s x) \<and>
    local_at t = local_at s \<and> syscalls.more t = syscalls.more s"
proof -
  let ?q = "local_at s L_read_kbuf" and ?n = "of_nat (length l) :: u64"
  have len: "length l \<le> 255" by (rule read_line_length [OF assms(3)])
  from console_read_line_spec [OF assms(1,2), where cnt = 255 and buf = ?q and offset = 0] assms(3) obtain u where
    u: "vfs_read vfs_get_console_in ?q 255 0 s = Some (?n, u)" "mem u = store_bytes ?q (map char_byte l) (mem s)" by auto
  have "vfs.more u = vfs.more s"
    using u(1) console_read_loop_frame [of ?q 255 0 s "(?n, u)"]
    by (simp add: vfs_read_def vfs_get_console_in_def node_op_def console_in_node_def console_in_ops_def console_read_def)
  note f = syscalls_field_cong [OF this]
  have n: "unat ?n = length l" using len by (simp add: unat_of_nat_small)
  have s: "sint ?n = int (length l)" using len by (simp add: signed_of_nat signed_take_bit_int_eq_self)
  have r: "user_range buf ?n" using assms(6) len by (simp add: user_range_def n)
  let ?t = "u\<lparr>mem := copy_bytes buf ?q (length l) (mem u)\<rparr>"
  have "sys_read 0 buf 255 s = Some (?n, ?t)"
    using u(1) s n assms(4) validate_accepts [OF assms(5) r, of u]
    by (simp add: sys_read_def Let_def vfs_get_console_in_def)
  then have c: "user_read api 0 buf 255 s = Some (Return ?n ?t)"
    by (simp add: user_read_def user_call_def syscall_handler_def syscall_table_def syscall_call_def returns_def word_le_nat_alt)
  have o: "unat ?q + length l \<le> 2 ^ 64" "unat buf + length l \<le> 2 ^ 64" "unat ?q + length l \<le> unat buf \<or> unat buf + length l \<le> unat ?q"
    using assms(7) len by (auto simp: outside_rbuf_def)
  have "mem ?t (buf + of_nat i) = char_byte (l ! i)" if "i < length l" for i
    using kbuf_copy [OF o that, of "mem u"] store_bytes_at [of ?q "map char_byte l" i "mem s"] that o(1) u(2) by simp
  moreover have "mem ?t x = mem s x" if "\<not> in_range ?q 256 x" "\<not> in_range buf 256 x" for x
  proof -
    have "x \<noteq> buf + of_nat i" if "i < length l" for i
    proof -
      have "in_range buf 256 (buf + of_nat i)" using assms(6) len that by (simp add: in_range_def user_range_def unat_offset)
      then show ?thesis using \<open>\<not> in_range buf 256 x\<close> by blast
    qed
    moreover have "store_bytes ?q (map char_byte l) (mem s) x = mem s x"
      using that(1) len o(1) by (intro store_bytes_outside) (auto simp: in_range_def)
    ultimately show ?thesis using u(2) by (simp add: copy_bytes_outside)
  qed
  ultimately show ?thesis using c len f by auto
qed

section \<open>A whole turn\<close>

lemma prints_keyboard:
  fixes s t :: "'a syscalls_scheme"
  assumes "prints out s t"
  shows "kb_buffer t = kb_buffer s" "iflag t = iflag s" "input_stream t = input_stream s"
proof -
  have "kb_buffer (fold console_putchar cs v) = kb_buffer v" "iflag (fold console_putchar cs v) = iflag v"
    "kb_abs (fold console_putchar cs v) = kb_abs v" "keys_ahead (fold console_putchar cs v) = keys_ahead v" for cs and v :: "'a syscalls_scheme"
    by (induction cs arbitrary: v) (simp_all add: kb_abs_def)
  moreover have "kb_abs (v\<lparr>mem := m\<rparr>) = kb_abs v" for m and v :: "'a syscalls_scheme" by (simp add: kb_abs_def)
  ultimately show "kb_buffer t = kb_buffer s" "iflag t = iflag s" "input_stream t = input_stream s"
    using assms by (auto simp: prints_def input_stream_def)
qed

text \<open>
  C40: one turn of the shell over the whole stack, from the keys that are pressed to the screen: when the first
  line that is typed is an \<^verbatim>\<open>echo\<close> command, the turn prints the prompt, waits for the line and then prints
  the text of the command.
\<close>

theorem shell_turn_echo:
  assumes "read_line 255 (filter (\<lambda>c. \<not> arrow_key c) (input_stream s)) = Some (''echo '' @ msg @ [CHR 0x0A])" "list_all plain msg"
    and "kb_ok (kb_buffer s)" "iflag s" "shell_ready s [''mesaos> '', ''\<newline>'']"
    and "outside_rbuf s (shell_at s Sh_buffer) 256" "outside_rbuf s (lit_at s ''\<newline>'') 2"
    and "unat (lit_at s ''\<newline>'') + 2 \<le> unat (shell_at s Sh_buffer) \<or> unat (shell_at s Sh_buffer) + 256 \<le> unat (lit_at s ''\<newline>'')"
  shows "\<exists>s1 s2 m t. prints ''mesaos> '' s s1 \<and>
    user_read api 0 (shell_at s Sh_buffer) 255 s1 = Some (Return (of_nat (6 + length msg)) s2) \<and>
    shell_turn api s = Some (Return () t) \<and> prints (msg @ ''\<newline>'') (s2\<lparr>mem := m\<rparr>) t"
proof -
  let ?b = "shell_at s Sh_buffer" and ?l = "''echo '' @ msg @ [CHR 0x0A]" and ?nl = "lit_at s ''\<newline>''"
  have lits: "lit_ok s ''mesaos> ''" "lit_ok s ''\<newline>''" and b: "outside_kbuf s ?b 256" using assms(5) unfolding shell_ready_def by auto
  obtain s1 where s1: "shell_print api [''mesaos> ''] s = Some (Return () s1)" "prints ''mesaos> '' s s1"
    using shell_print_run [of "[''mesaos> '']" s api] lits(1) by auto
  note p = prints_shell [OF s1(2)] prints_fields(1) [OF s1(2)] prints_keyboard [OF s1(2)]
  have ub: "?b \<noteq> 0" "user_range ?b 256" using b by (simp_all add: outside_kbuf_def user_range_def)
  have rb: "outside_rbuf s1 ?b 256" using assms(6) p by (simp add: outside_rbuf_def)
  from user_read_line [of s1 ?l ?b api] assms(1,3,4) p ub rb obtain s2 where
    s2: "user_read api 0 ?b 255 s1 = Some (Return (of_nat (length ?l)) s2)" "length ?l \<le> 255"
      "\<And>i. i < length ?l \<Longrightarrow> mem s2 (?b + of_nat i) = char_byte (?l ! i)"
      "\<And>x. \<not> in_range (local_at s1 L_read_kbuf) 256 x \<Longrightarrow> \<not> in_range ?b 256 x \<Longrightarrow> mem s2 x = mem s1 x"
      "local_at s2 = local_at s1" "syscalls.more s2 = syscalls.more s1" by auto
  note g = shell_field_cong [OF s2(6)]
  let ?s3 = "s2\<lparr>mem := (mem s2)(?b + of_nat (length ?l) := 0)\<rparr>"
  have off: "unat (?b + of_nat i) = unat ?b + i" if "i \<le> length ?l" for i
    using b s2(2) that by (intro unat_offset) (simp add: outside_kbuf_def)
  have line: "line_at ?s3 ?l"
    unfolding line_at_def
  proof (intro allI impI)
    fix i assume i: "i < length ?l"
    have "?b + of_nat i \<noteq> ?b + of_nat (length ?l)" using off [of i] off [of "length ?l"] i by (metis add_left_cancel less_imp_le_nat nat_neq_iff order_refl)
    then show "input_char ?s3 i = ?l ! i" using s2(3) [OF i] g p by (simp add: input_char_def)
  qed
  have nl: "lit_ok ?s3 ''\<newline>''"
  proof -
    have o: "outside_kbuf s ?nl 2" using lits(2) by (simp add: lit_ok_def numeral_2_eq_2)
    have same: "mem ?s3 (?nl + of_nat i) = mem s (?nl + of_nat i)" if "i < 2" for i
    proof -
      have u: "unat (?nl + of_nat i) = unat ?nl + i" using that o by (intro unat_offset) (simp add: outside_kbuf_def)
      have "\<not> in_range (local_at s1 L_read_kbuf) 256 (?nl + of_nat i)" "\<not> in_range ?b 256 (?nl + of_nat i)"
        using assms(7,8) that p by (auto simp: in_range_def u outside_rbuf_def)
      moreover have "?nl + of_nat i \<noteq> ?b + of_nat (length ?l)" using off [of "length ?l"] u assms(8) that s2(2) by auto
      moreover have "mem s1 (?nl + of_nat i) = mem s (?nl + of_nat i)"
        by (rule prints_mem [OF s1(2) o that])
      ultimately show ?thesis using s2(4) by simp
    qed
    have "str_at (mem ?s3) ?nl ''\<newline>''"
      using same [of 0] same [of 1] lits(2) by (simp add: lit_ok_def str_at_def)
    then show ?thesis using o g p s2(5) by (simp add: lit_ok_def outside_kbuf_def)
  qed
  have len: "length msg < 250" using s2(2) by simp
  have "shell_ready ?s3 [''\<newline>'']" using b nl g p s2(5) by (simp add: shell_ready_def outside_kbuf_def)
  from shell_echo_run [OF line assms(2) len this, of api "of_nat (length ?l)"] obtain t where
    t: "shell_command api (of_nat (length ?l)) ?s3 = Some (Return () t)" "prints (msg @ ''\<newline>'') ?s3 t" by blast
  have "sint (of_nat n :: u64) = int n" if "n \<le> 255" for n
    using that by (simp add: signed_of_nat signed_take_bit_int_eq_self)
  from this [OF s2(2)] have "0 < sint (of_nat (length ?l) :: u64)" by simp
  then have "shell_turn api s = Some (Return () t)"
    using s1(1) s2(1) t(1) g p by (simp add: shell_turn_def and_then_def del: shell_print.simps)
  moreover have "length ?l = 6 + length msg" by simp
  ultimately show ?thesis using s1(2) s2(1) t(2) by metis
qed

section \<open>Leaving the shell\<close>

text \<open>
  The command \<^verbatim>\<open>exit\<close> ends the shell: after its farewell the call does not come back, and the current process
  is a zombie.
\<close>

theorem shell_exit_ends:
  assumes "line_at s (''exit'' @ [CHR 0x0A])" "shell_ready s [''Goodbye!\<newline>'']" "current_process s = Some p" "p < length (process_table s)"
  shows "\<exists>t. shell_command api n s = Some (Halt t) \<and> pcb_state (pcb t p) = PROC_STATE_ZOMBIE"
proof -
  have c: "input_char s 0 = CHR ''e''" "input_char s 1 = CHR ''x''" "input_char s 2 = CHR ''i''" "input_char s 3 = CHR ''t''"
    "input_char s 4 = CHR 0x0A"
    using assms(1)[unfolded line_at_def, rule_format, of 0] assms(1)[unfolded line_at_def, rule_format, of 1]
      assms(1)[unfolded line_at_def, rule_format, of 2] assms(1)[unfolded line_at_def, rule_format, of 3]
      assms(1)[unfolded line_at_def, rule_format, of 4] by simp_all
  then have e: "shell_command api n s = shell_exit api s" by (simp add: shell_command_def begins_def ends_at_def numeral_eq_Suc)
  obtain u where u: "shell_print api [''Goodbye!\<newline>''] s = Some (Return () u)" "prints ''Goodbye!\<newline>'' s u"
    using shell_print_run [of "[''Goodbye!\<newline>'']" s api] assms(2) unfolding shell_ready_def by auto
  have "current_process (fold console_putchar cs v) = current_process v \<and> process_table (fold console_putchar cs v) = process_table v" for cs v
    by (induction cs arbitrary: v) simp_all
  then have p: "current_process u = Some p" "p < length (process_table u)" using u(2) assms(3,4) by (auto simp: prints_def)
  have "user_exit api 0 u = Some (sys_exit 0 u)"
    by (simp add: user_exit_def user_call_def syscall_handler_def syscall_table_def syscall_call_def word_le_nat_alt)
  then have "shell_exit api s = Some (Halt (emit Hlt (sti (kill_current (console_puts ''\<newline>'' (console_put_dec 0
      (console_puts ''\<newline>[PROCESS] Exit with status: '' u)))))))"
    using u(1) by (simp add: shell_exit_def and_then_def sys_exit_def del: shell_print.simps)
  moreover have "process_table (emit Hlt (sti v)) = process_table v" for v :: "'a shell_scheme"
    by (simp add: instruction_defs)
  ultimately show ?thesis using e p by (auto simp: kill_current_def upd_pcb_def)
qed

section \<open>A sample shell\<close>

lemma sample_shell_fields [simp]:
  "mem (sample_shell line ks) = strings_mem (sample_strings line)" "local_at (sample_shell line ks) = sample_local"
  "shell_at (sample_shell line ks) Sh_buffer = 0x500500" "current_process (sample_shell line ks) = Some 0"
  "length (process_table (sample_shell line ks)) = 1" "iflag (sample_shell line ks)" "kb_ok (kb_buffer (sample_shell line ks))"
  "input_stream (sample_shell line ks) = input_stream (typing_vfs ks)"
  "lit_at (sample_shell line ks) ''mesaos> '' = 0x500000" "lit_at (sample_shell line ks) ''\<newline>'' = 0x500100"
  "lit_at (sample_shell line ks) ''Goodbye!\<newline>'' = 0x500200" "lit_at (sample_shell line ks) ''Unknown command: '' = 0x500300"
  "lit_at (sample_shell line ks) ''\<newline>Type 'help' for available commands.\<newline>'' = 0x500400"
proof -
  have k: "kb_abs (sample_shell line ks) = kb_abs (user_calls ks)" by (simp add: sample_shell_def syscalls.defs kb_abs_def)
  have a: "keys_ahead (sample_shell line ks) = ks" "keys_ahead (typing_vfs ks) = ks" "iflag (user_calls ks)" "kb_ok (kb_buffer (user_calls ks))"
    using user_calls_fields(6,8,9) by (simp_all add: sample_shell_def syscalls.defs)
  show "input_stream (sample_shell line ks) = input_stream (typing_vfs ks)"
    using k a user_calls_fields(10) by (simp add: input_stream_def)
  show "mem (sample_shell line ks) = strings_mem (sample_strings line)" "local_at (sample_shell line ks) = sample_local"
    "shell_at (sample_shell line ks) Sh_buffer = 0x500500" "current_process (sample_shell line ks) = Some 0"
    "iflag (sample_shell line ks)" "kb_ok (kb_buffer (sample_shell line ks))"
    "lit_at (sample_shell line ks) ''mesaos> '' = 0x500000" "lit_at (sample_shell line ks) ''\<newline>'' = 0x500100"
    "lit_at (sample_shell line ks) ''Goodbye!\<newline>'' = 0x500200" "lit_at (sample_shell line ks) ''Unknown command: '' = 0x500300"
    "lit_at (sample_shell line ks) ''\<newline>Type 'help' for available commands.\<newline>'' = 0x500400"
    using user_calls_fields(4) a(3,4) by (simp_all add: sample_shell_def syscalls.defs)
  show "length (process_table (sample_shell line ks)) = 1" by (simp add: sample_shell_def syscalls.defs user_calls_def vfs.defs)
qed

lemma strings_mem_at:
  assumes "k < length ls" "length ls \<le> 16" "length (ls ! k) < 256" "i \<le> length (ls ! k)"
  shows "strings_mem ls (0x500000 + 0x100 * of_nat k + of_nat i) = (if i < length (ls ! k) then char_byte (ls ! k ! i) else 0)"
proof -
  have "(0x500000 + 0x100 * of_nat k + of_nat i :: u64) - 0x500000 = of_nat (256 * k + i)" by simp
  moreover have "unat (of_nat (256 * k + i) :: u64) = 256 * k + i" using assms by (intro unat_of_nat_small) simp
  ultimately have "unat ((0x500000 + 0x100 * of_nat k + of_nat i :: u64) - 0x500000) = 256 * k + i" by metis
  then show ?thesis using assms by (simp add: strings_mem_def Let_def)
qed

lemma strings_mem_str:
  assumes "k < length ls" "length ls \<le> 16" "length (ls ! k) < 256" "CHR 0x00 \<notin> set (ls ! k)"
  shows "str_at (strings_mem ls) (0x500000 + 0x100 * of_nat k) (ls ! k)"
  using strings_mem_at [OF assms(1-3)] assms(4) by (auto simp: str_at_def) (metis nth_mem)

lemma sample_shell_ready: "shell_ready (sample_shell line ks) (take 5 (sample_strings line))"
proof -
  have o: "outside_kbuf (sample_shell line ks) p n" if "0x500000 \<le> unat p" "unat p + n \<le> 0x600000" for p n
    using that by (auto simp: outside_kbuf_def sample_local_def)
  have l: "lit_ok (sample_shell line ks) (sample_strings line ! k)"
    if "k < 5" "lit_at (sample_shell line ks) (sample_strings line ! k) = 0x500000 + 0x100 * of_nat k"
      "length (sample_strings line ! k) < 50" "CHR 0x00 \<notin> set (sample_strings line ! k)" for k
  proof -
    have "unat (0x500000 + 0x100 * of_nat k :: u64) = 0x500000 + 0x100 * k"
      using that(1) by (simp add: unat_add_small unat_mult_small unat_of_nat_small)
    then have "outside_kbuf (sample_shell line ks) (0x500000 + 0x100 * of_nat k) (length (sample_strings line ! k) + 1)"
      using that(1,3) by (intro o) simp_all
    moreover have "str_at (strings_mem (sample_strings line)) (0x500000 + 0x100 * of_nat k) (sample_strings line ! k)"
      using that by (intro strings_mem_str) (auto simp: sample_strings_def)
    ultimately show ?thesis using that(2,3) by (simp add: lit_ok_def)
  qed
  have "lit_ok (sample_shell line ks) ''mesaos> ''" using l [of 0] by (simp add: sample_strings_def)
  moreover have "lit_ok (sample_shell line ks) ''\<newline>''" using l [of 1] by (simp add: sample_strings_def)
  moreover have "lit_ok (sample_shell line ks) ''Goodbye!\<newline>''" using l [of 2] by (simp add: sample_strings_def)
  moreover have "lit_ok (sample_shell line ks) ''Unknown command: ''" using l [of 3] by (simp add: sample_strings_def)
  moreover have "lit_ok (sample_shell line ks) ''\<newline>Type 'help' for available commands.\<newline>''" using l [of 4] by (simp add: sample_strings_def)
  ultimately show ?thesis using o [of "0x500500" 256] by (simp add: shell_ready_def sample_strings_def)
qed

lemma sample_shell_line: "length cs < 256 \<Longrightarrow> line_at (sample_shell cs ks) cs"
  using strings_mem_at [of 5 "sample_strings cs"] by (simp add: line_at_def input_char_def sample_strings_def)

theorem shell_exit_ends_witness:
  "\<exists>t. shell_command silent_queues 5 (sample_shell (''exit'' @ [CHR 0x0A]) []) = Some (Halt t) \<and> pcb_state (pcb t 0) = PROC_STATE_ZOMBIE"
proof -
  let ?s = "sample_shell (''exit'' @ [CHR 0x0A]) []"
  have "line_at ?s (''exit'' @ [CHR 0x0A])" by (rule sample_shell_line) simp
  moreover have "shell_ready ?s [''Goodbye!\<newline>'']"
    using sample_shell_ready [of "''exit'' @ [CHR 0x0A]" "[]"] unfolding shell_ready_def by (simp add: sample_strings_def)
  ultimately show ?thesis using shell_exit_ends [of ?s 0 silent_queues 5] by simp
qed

theorem shell_echo_prints_witness:
  "\<exists>t. shell_command silent_queues 8 (sample_shell (''echo hi'' @ [CHR 0x0A]) []) = Some (Return () t) \<and>
    prints ''hi\<newline>'' (sample_shell (''echo hi'' @ [CHR 0x0A]) []) t"
proof -
  let ?s = "sample_shell (''echo hi'' @ [CHR 0x0A]) []"
  have "line_at ?s (''echo hi'' @ [CHR 0x0A])" by (rule sample_shell_line) simp
  then have "line_at ?s (''echo '' @ ''hi'' @ [CHR 0x0A])" by simp
  moreover have "shell_ready ?s [''\<newline>'']"
    using sample_shell_ready [of "''echo hi'' @ [CHR 0x0A]" "[]"] unfolding shell_ready_def by (simp add: sample_strings_def)
  ultimately show ?thesis using shell_echo_prints [of ?s "''hi''" silent_queues 8] by (simp add: plain_def)
qed

theorem shell_reports_unknown_witness:
  "\<exists>t. shell_command silent_queues 3 (sample_shell (''dir'') []) = Some (Return () t) \<and>
    prints (''Unknown command: dir\<newline>Type 'help' for available commands.\<newline>'') (sample_shell ''dir'' []) t"
proof -
  let ?s = "sample_shell ''dir'' []"
  have "line_at ?s ''dir''" by (rule sample_shell_line) simp
  moreover have "shell_ready ?s [''Unknown command: '', ''\<newline>Type 'help' for available commands.\<newline>'']"
    using sample_shell_ready [of "''dir''" "[]"] unfolding shell_ready_def by (simp add: sample_strings_def)
  ultimately show ?thesis using shell_reports_unknown [of ?s "''dir''" silent_queues] by (simp add: plain_def)
qed

theorem shell_turn_echo_witness:
  "\<exists>t. shell_turn silent_queues (sample_shell [] (strokes (''echo hi'' @ [CHR 0x0A]))) = Some (Return () t)"
proof -
  let ?cs = "''echo hi'' @ [CHR 0x0A]"
  let ?s = "sample_shell [] (strokes ?cs)"
  have "input_stream (typing_vfs (strokes ?cs)) = ?cs"
    using key_stream_strokes [of ?cs "kb_abs (typing_vfs (strokes ?cs))" "[]"]
    by (simp add: input_stream_def typeable_def scancode_ascii_lower_def)
  then have "input_stream ?s = ?cs" by (simp only: sample_shell_fields)
  moreover have "read_line 255 (filter (\<lambda>c. \<not> arrow_key c) ?cs) = Some (''echo '' @ ''hi'' @ [CHR 0x0A])"
    by (simp add: arrow_key_def numeral_eq_Suc)
  moreover have "shell_ready ?s [''mesaos> '', ''\<newline>'']"
    using sample_shell_ready [of "[]" "strokes ?cs"] unfolding shell_ready_def by (simp add: sample_strings_def)
  ultimately show ?thesis
    using shell_turn_echo [of ?s "''hi''" silent_queues] by (auto simp: plain_def outside_rbuf_def sample_local_def)
qed

end
