(* ===== verification/Spec2Isabelle.thy ===== *)
theory Spec2Isabelle
  imports Console_Props Spinlock Kheap_Props Mm_Props Keyboard_Props Uaccess_Props
    Disk_Props Partition_Props Mesafs_Props Idt_Props
    Vfs_Props Elf_Props Syscall_Fs_Props Exec_Props Kernel_Props Shell_Props
begin

text \<open>
  Mesa-OS: a model of the kernel and of its shell, and what is proved of them.

  \<^bold>\<open>The program.\<close>  Mesa-OS is a small kernel for 64-bit x86 processors.  \<^verbatim>\<open>boot/boot.asm\<close> enters long mode with
  4 MiB identity-mapped and calls \<^verbatim>\<open>kernel_main\<close> (\<^verbatim>\<open>kernel.c\<close>), which initialises one module after the
  other, mounts the first partition, creates five processes and goes idle.  From then on the code runs on
  interrupts (\<^verbatim>\<open>kernel/idt.c\<close>) and system calls (\<^verbatim>\<open>kernel/syscall.c\<close>).

  \<^bold>\<open>How the state is built.\<close>  Each module adds its static variables to the state of the modules below it, as
  an extension of their record:
    \<^item> \<open>machine\<close>: the trace of privileged and port instructions, the interrupt flag, the devices (Machine);
    \<^item> \<open>console\<close>: screen, cursor, history (Console, \<^verbatim>\<open>drivers/console.c\<close>);
    \<^item> \<open>kheap\<close>: headers of the kernel heap, its lock (Kheap, \<^verbatim>\<open>mm/kheap.c\<close>; the lock is Spinlock, \<^verbatim>\<open>include/spinlock.h\<close>);
    \<^item> \<open>mm\<close>: page bitmap and page tables (Mm, \<^verbatim>\<open>mm/mm.c\<close>);
    \<^item> \<open>keyboard\<close>: ring buffer and modifier flags (Keyboard, \<^verbatim>\<open>drivers/keyboard.c\<close>);
    \<^item> \<open>memory\<close>: the bytes that pointers of the C code reach (Uaccess, \<^verbatim>\<open>kernel/uaccess.c\<close>);
    \<^item> \<open>disk\<close>, \<open>partition\<close>, \<open>mesafs\<close>: drive or disk in memory, partition list, mounted volume (Disk, Partition,
      Mesafs; \<^verbatim>\<open>drivers/disk.c\<close>, \<^verbatim>\<open>drivers/partition.c\<close>, \<^verbatim>\<open>drivers/mesafs.c\<close>);
    \<^item> \<open>tss_state\<close>, \<open>proc\<close>, \<open>idt_state\<close>: segment and addresses of linker symbols, process table with kernel stacks and
      registers, descriptor table (Tss, Proc, Sched, Idt; \<^verbatim>\<open>kernel/tss.c\<close>, \<^verbatim>\<open>proc/proc.c\<close>, \<^verbatim>\<open>proc/switch.asm\<close>,
      \<^verbatim>\<open>sched/sched.c\<close>, \<^verbatim>\<open>kernel/idt.c\<close>, \<^verbatim>\<open>kernel/isr.asm\<close>; the interrupt controllers are Pic, \<^verbatim>\<open>kernel/pic.c\<close>);
    \<^item> \<open>vfs\<close>, \<open>syscalls\<close>, \<open>shell\<close>: keys still to come, per-processor data and addresses of local arrays, the shell's
      arrays and literals (Vfs, Elf, Syscall, Kernel, Shell; \<^verbatim>\<open>drivers/vfs.c\<close>, \<^verbatim>\<open>elf/elf.c\<close>, \<^verbatim>\<open>kernel/syscall.c\<close>,
      \<^verbatim>\<open>kernel.c\<close>, \<^verbatim>\<open>user/shell.c\<close>).
  Every operation works on all extensions of its record, and each theory ends with the frame lemmas that say
  which records above it an operation leaves alone.  Definitions bear the names of the C functions; loops and
  the parts of long functions have names of their own.

  \<^bold>\<open>Conventions.\<close>  Machine integers are words of their width and wrap as in C; conversions are \<open>ucast\<close> and \<open>scast\<close>.
  A result of type option is \<open>None\<close> when the call never returns (an endless loop, a wait for a device or a key
  that does not come, a walk along a cyclic list).  \<open>Halt\<close> is a call that ends in \<^verbatim>\<open>while (1) hlt\<close>.  Loops that
  may not end are partial functions over option, so nothing rests on fuel; where a theorem says that a
  call returns, it states the value \<open>Some\<close>.  The counted loops \<open>shell_turns\<close> and \<open>idle_loop\<close> describe the first
  turns of a loop that has no end, for any number of them.

  \<^bold>\<open>Parameters.\<close>  The devices behind the ports are \<open>dev\<close>, which answers from the trace so far.  Bytes that the
  code reads without having written them (uninitialised locals, reads beyond an array) come from
  \<open>stack_junk\<close>, with a new draw for each read.  The message queues are declared in \<^verbatim>\<open>include/ipc.h\<close> and defined
  nowhere in the repository: they are the record \<open>ipc_api\<close>, of which the theorems on booting suppose only that
  \<^verbatim>\<open>ipc_init\<close> leaves the other modules' variables alone (\<open>ipc_init_local\<close>).

  \<^bold>\<open>What the lemmas show.\<close>
    \<^item> Console_Props: every call keeps the cursor on the screen; scrolling refines a list of lines with a bounded
      history; the number printers agree with positional numerals.
    \<^item> Spinlock: mutual exclusion for any number of processors, by rule induction over their interleavings; the
      step of a waiting processor is the round of which \<^verbatim>\<open>spin_lock\<close> is the loop.
    \<^item> Kheap_Props: the headers refine a list of segments; allocation is first fit with splitting, release merges
      neighbours; both return.  The locale of an allocator is interpreted with them.
    \<^item> Mm_Props: page tables form a tree without sharing; \<^verbatim>\<open>mm_map_page\<close> changes the mapping of one page and no
      other; the page pool is a set.  Range_Props extends this to ranges of pages.
    \<^item> Keyboard_Props: the driver refines a bounded queue with modifier flags.
    \<^item> Uaccess_Props, Disk_Props, Partition_Props, Mesafs_Props: the pointer check as an inequality over the naturals,
      sector round trips, the partition list, files and directories as functions of the volume, path resolution
      as a walk through finite maps.
    \<^item> Sched_Props, Idt_Props: the circular list, round robin and the absence of starvation, the first context switch,
      page faults, the descriptor table.
    \<^item> Vfs_Props, Elf_Props: lines from the console, segments in memory.
    \<^item> Syscall_Props, Syscall_Fs_Props: heap growth and its failure, the end of the page loops, printing, opening,
      reading and listing, the registers of the \<^verbatim>\<open>syscall\<close> instruction.
    \<^item> Proc_Frames, Return_Props, Exec_Props: what leaves the processes and the heap alone, that paths, files and
      programs are read and loaded in finite time, and how \<^verbatim>\<open>sys_exec\<close> ends.
    \<^item> Kernel_Props, Shell_Props: the modules together, from power-on to the idle loop and from the keys that are
      typed to the characters on the screen.

  \<^bold>\<open>Abstractions.\<close>  \<open>mem\<close> is addressed by virtual address: a mapping made by \<^verbatim>\<open>mm_map_page\<close> does not move bytes
  of it.  Page tables (\<open>pmem\<close>), heap headers (\<open>kheap_mem\<close>), partition descriptors, the mounted volume's record,
  kernel stacks and the screen are kept apart from \<open>mem\<close> and from each other, so an overlap in physical memory,
  such as the one of \<open>mm_init_user_stack\<close>, is stated of addresses and its damage is not followed.  While a
  read waits, keyboard interrupts are served and timer interrupts are not.  Descriptor numbers, stack frames
  and page faults of user accesses are not modelled beyond what the code itself does with them.

  \<^bold>\<open>Not modelled.\<close>  The message queues, whose source is missing.  The endless demonstration programs of
  \<^verbatim>\<open>user/user_prog.c\<close> and \<^verbatim>\<open>user/ipc_test.c\<close>, which draw counters into video memory or exchange messages over
  the missing queues.  \<^verbatim>\<open>boot/multiboot2.asm\<close>, \<^verbatim>\<open>kernel/syscall_entry.asm\<close> and the other assembly, apart from the
  boot page tables, \<^verbatim>\<open>context_switch\<close> and the frame of \<^verbatim>\<open>isr_stub_0\<close>.
\<close>

end
